(* ===== verification/Prelude.thy ===== *)
theory Prelude
  imports "HOL-Library.List_Lexorder" "HOL-Library.Char_ord" "HOL-Library.AList" "HOL-Library.Multiset"
begin

text \<open>
  What every component shares: the functions of Go's \<^verbatim>\<open>strings\<close> and \<^verbatim>\<open>strconv\<close>
  packages the source calls, on byte strings; signed 64-bit arithmetic with its wrap-around; and
  the control flow of a Go function that may return early with an error.  A Go string is a list
  of bytes, here \<^typ>\<open>string\<close>.  The case mapping and the white space are those of
  ASCII, the alphabet of a DNS name.
\<close>

named_theorems go_defs \<open>definitions of the string and integer helpers, for evaluation\<close>

section \<open>Byte strings\<close>

definition has_prefix :: "string \<Rightarrow> string \<Rightarrow> bool" where
  "has_prefix s pre \<longleftrightarrow> take (length pre) s = pre"

definition has_suffix :: "string \<Rightarrow> string \<Rightarrow> bool" where
  "has_suffix s suf \<longleftrightarrow> length suf \<le> length s \<and> drop (length s - length suf) s = suf"

definition trim_suffix :: "string \<Rightarrow> string \<Rightarrow> string" where
  "trim_suffix s suf = (if has_suffix s suf then take (length s - length suf) s else s)"

fun contains :: "string \<Rightarrow> string \<Rightarrow> bool" where
  "contains [] sub \<longleftrightarrow> sub = []"
| "contains (c # s) sub \<longleftrightarrow> has_prefix (c # s) sub \<or> contains s sub"

definition trim_left :: "(char \<Rightarrow> bool) \<Rightarrow> string \<Rightarrow> string" where
  "trim_left p s = dropWhile p s"

definition trim_right :: "(char \<Rightarrow> bool) \<Rightarrow> string \<Rightarrow> string" where
  "trim_right p s = rev (dropWhile p (rev s))"

definition trim :: "(char \<Rightarrow> bool) \<Rightarrow> string \<Rightarrow> string" where
  "trim p s = trim_right p (trim_left p s)"

definition is_space :: "char \<Rightarrow> bool" where
  "is_space c \<longleftrightarrow> (let n = of_char c :: nat in n = 32 \<or> 9 \<le> n \<and> n \<le> 13)"

definition trim_space :: "string \<Rightarrow> string" where
  "trim_space = trim is_space"

definition lower_char :: "char \<Rightarrow> char" where
  "lower_char c = (let n = of_char c :: nat in if 65 \<le> n \<and> n \<le> 90 then char_of (n + 32) else c)"

definition to_lower :: "string \<Rightarrow> string" where
  "to_lower = map lower_char"

lemmas string_defs [go_defs] = has_prefix_def has_suffix_def trim_suffix_def trim_left_def
  trim_right_def trim_def is_space_def trim_space_def lower_char_def to_lower_def Let_def

lemma has_suffix_iff: "has_suffix s suf \<longleftrightarrow> (\<exists>p. s = p @ suf)"
proof
  assume "has_suffix s suf"
  then have "s = take (length s - length suf) s @ suf"
    unfolding has_suffix_def by (metis append_take_drop_id)
  then show "\<exists>p. s = p @ suf" ..
qed (auto simp: has_suffix_def)

lemma has_suffix_append [simp]: "has_suffix (p @ suf) suf"
  by (simp add: has_suffix_def)

lemma trim_suffix_append [simp]: "trim_suffix (p @ suf) suf = p"
  by (simp add: trim_suffix_def)

lemma trim_suffix_other: "\<not> has_suffix s suf \<Longrightarrow> trim_suffix s suf = s"
  by (simp add: trim_suffix_def)

lemma has_prefix_iff: "has_prefix s pre \<longleftrightarrow> (\<exists>r. s = pre @ r)"
  unfolding has_prefix_def by (metis append_eq_conv_conj)

lemma contains_iff: "contains s sub \<longleftrightarrow> (\<exists>p r. s = p @ sub @ r)"
proof (induction s)
  case Nil
  then show ?case by auto
next
  case (Cons c s)
  show ?case
  proof
    assume "contains (c # s) sub"
    then consider r where "c # s = sub @ r" | p r where "s = p @ sub @ r"
      using Cons.IH by (auto simp: has_prefix_iff)
    then show "\<exists>p r. c # s = p @ sub @ r"
      by cases (metis append_Nil, metis append_Cons)
  next
    assume "\<exists>p r. c # s = p @ sub @ r"
    then obtain p r where "c # s = p @ sub @ r" by blast
    then show "contains (c # s) sub"
    proof (cases p)
      case Nil
      with \<open>c # s = p @ sub @ r\<close> have "has_prefix (c # s) sub" by (auto simp: has_prefix_iff)
      then show ?thesis by simp
    next
      case (Cons a p')
      with \<open>c # s = p @ sub @ r\<close> show ?thesis using \<open>contains s sub \<longleftrightarrow> (\<exists>p r. s = p @ sub @ r)\<close> by auto
    qed
  qed
qed

lemma contains_char: "contains s [c] \<longleftrightarrow> c \<in> set s"
  by (auto simp: contains_iff in_set_conv_decomp)

lemma lower_char_idem [simp]: "lower_char (lower_char c) = lower_char c"
  by (simp add: lower_char_def Let_def)

lemma to_lower_idem [simp]: "to_lower (to_lower s) = to_lower s"
  by (simp add: to_lower_def)

lemma to_lower_append [simp]: "to_lower (s @ t) = to_lower s @ to_lower t"
  by (simp add: to_lower_def)

lemma length_to_lower [simp]: "length (to_lower s) = length s"
  by (simp add: to_lower_def)

lemma dropWhile_idem [simp]: "dropWhile p (dropWhile p s) = dropWhile p s"
  by (induction s) auto

lemma trim_right_hd: "s \<noteq> [] \<Longrightarrow> \<not> p (hd s) \<Longrightarrow> trim_right p s \<noteq> [] \<and> hd (trim_right p s) = hd s"
proof (induction s rule: rev_induct)
  case (snoc x xs)
  then show ?case
    by (cases xs) (auto simp: trim_right_def)
qed simp

lemma dropWhile_hd: "s \<noteq> [] \<Longrightarrow> \<not> p (hd s) \<Longrightarrow> dropWhile p s = s"
  by (cases s) auto

lemma trim_id:
  assumes "s = [] \<or> (\<not> p (hd s) \<and> \<not> p (last s))"
  shows "trim p s = s"
proof (cases "s = []")
  case False
  with assms have "dropWhile p s = s" "dropWhile p (rev s) = rev s"
    by (auto intro!: dropWhile_hd simp: hd_rev)
  then show ?thesis by (simp add: trim_def trim_left_def trim_right_def)
qed (simp add: trim_def trim_left_def trim_right_def)

lemma length_trim_right: "length (trim_right p s) \<le> length s"
  by (simp add: trim_right_def) (metis length_dropWhile_le length_rev)

lemma dropWhile_same_length: "length (dropWhile p s) = length s \<Longrightarrow> dropWhile p s = s"
  by (metis append_Nil length_0_conv length_append self_append_conv2 takeWhile_dropWhile_id
      add_cancel_left_left)

lemma trim_same_length:
  assumes "length (trim p s) = length s"
  shows "trim p s = s"
proof -
  have "length (dropWhile p s) = length s"
    using assms length_trim_right [of p "dropWhile p s"] length_dropWhile_le [of p s]
    by (simp add: trim_def trim_left_def)
  then have l: "dropWhile p s = s" by (rule dropWhile_same_length)
  with assms have "dropWhile p (rev s) = rev s"
    by (intro dropWhile_same_length) (simp add: trim_def trim_left_def trim_right_def)
  with l show ?thesis by (simp add: trim_def trim_left_def trim_right_def)
qed

lemma trim_eq_Nil_iff: "trim p s = [] \<longleftrightarrow> (\<forall>c \<in> set s. p c)"
proof
  assume "trim p s = []"
  then have "\<forall>c \<in> set (dropWhile p s). p c"
    by (auto simp: trim_def trim_left_def trim_right_def)
  then have "dropWhile p s = []"
    by (metis hd_dropWhile hd_in_set)
  then show "\<forall>c \<in> set s. p c" by simp
qed (auto simp: trim_def trim_left_def trim_right_def dest: set_dropWhileD)

lemma trim_eq_self_iff: "trim p s = s \<longleftrightarrow> s = [] \<or> (\<not> p (hd s) \<and> \<not> p (last s))"
proof
  assume eq: "trim p s = s"
  have "length (dropWhile p s) = length s"
    using eq length_trim_right [of p "dropWhile p s"] length_dropWhile_le [of p s]
    by (simp add: trim_def trim_left_def)
  then have l: "dropWhile p s = s" by (rule dropWhile_same_length)
  with eq have "dropWhile p (rev s) = rev s"
    by (metis trim_def trim_left_def trim_right_def rev_rev_ident)
  with l show "s = [] \<or> (\<not> p (hd s) \<and> \<not> p (last s))"
    by (auto simp: dropWhile_eq_self_iff hd_rev)
qed (rule trim_id)

lemma distinct_singleton: "distinct xs \<Longrightarrow> set xs = {k} \<Longrightarrow> xs = [k]"
  by (cases xs; cases "tl xs") auto

lemma sort_distinct: "distinct xs \<Longrightarrow> sort xs = sorted_list_of_set (set xs)"
  by (simp add: sorted_list_of_set_sort_remdups distinct_remdups_id)

lemma filter_mem: "filter P xs = ys \<Longrightarrow> x \<in> set xs \<Longrightarrow> P x \<Longrightarrow> x \<in> set ys"
  by auto

lemma sorted_const: "\<forall>x \<in> set xs. f x = c \<Longrightarrow> sorted (map f xs)"
  by (induction xs) auto

section \<open>Decimal numbers\<close>

definition digit_char :: "nat \<Rightarrow> char" where
  "digit_char d = char_of (48 + d)"

definition is_digit :: "char \<Rightarrow> bool" where
  "is_digit c \<longleftrightarrow> 48 \<le> (of_char c :: nat) \<and> (of_char c :: nat) \<le> 57"

definition digit_value :: "char \<Rightarrow> nat" where
  "digit_value c = of_char c - 48"

fun nat_dec :: "nat \<Rightarrow> string" where
  "nat_dec n = (if n < 10 then [digit_char n] else nat_dec (n div 10) @ [digit_char (n mod 10)])"

declare nat_dec.simps [simp del]

definition format_int :: "int \<Rightarrow> string" where
  "format_int i = (if i < 0 then CHR ''-'' # nat_dec (nat (- i)) else nat_dec (nat i))"

definition parse_uint :: "string \<Rightarrow> nat option" where
  "parse_uint s =
     (if s = [] \<or> \<not> list_all is_digit s then None
      else Some (foldl (\<lambda>n c. 10 * n + digit_value c) 0 s))"

text \<open>\<^verbatim>\<open>strconv.ParseInt(s, 10, 64)\<close> (and \<^verbatim>\<open>Atoi\<close>); any error is \<^term>\<open>None\<close>.\<close>

definition parse_int :: "string \<Rightarrow> int option" where
  "parse_int s =
     (let neg = (s \<noteq> [] \<and> hd s = CHR ''-'');
          body = (if s \<noteq> [] \<and> (hd s = CHR ''-'' \<or> hd s = CHR ''+'') then tl s else s)
      in case parse_uint body of
           None \<Rightarrow> None
         | Some n \<Rightarrow>
             if neg then (if int n \<le> 2 ^ 63 then Some (- int n) else None)
             else (if int n < 2 ^ 63 then Some (int n) else None))"

lemmas decimal_defs [go_defs] = digit_char_def is_digit_def digit_value_def format_int_def
  parse_uint_def parse_int_def

lemma of_char_digit [simp]: "d < 10 \<Longrightarrow> of_char (digit_char d) = 48 + d"
  by (simp add: digit_char_def)

lemma is_digit_digit [simp]: "d < 10 \<Longrightarrow> is_digit (digit_char d)"
  by (simp add: is_digit_def)

lemma digit_value_digit [simp]: "d < 10 \<Longrightarrow> digit_value (digit_char d) = d"
  by (simp add: digit_value_def)

lemma nat_dec_not_Nil [simp]: "nat_dec n \<noteq> []"
  by (subst nat_dec.simps) simp

lemma nat_dec_digits: "list_all is_digit (nat_dec n)"
proof (induction n rule: nat_dec.induct)
  case (1 n)
  then show ?case by (subst nat_dec.simps) simp
qed

lemma foldl_nat_dec: "foldl (\<lambda>n c. 10 * n + digit_value c) 0 (nat_dec n) = n"
proof (induction n rule: nat_dec.induct)
  case (1 n)
  then show ?case by (subst nat_dec.simps) simp
qed

lemma parse_uint_nat_dec [simp]: "parse_uint (nat_dec n) = Some n"
  by (simp add: parse_uint_def nat_dec_digits foldl_nat_dec)

lemma hd_nat_dec_digit: "is_digit (hd (nat_dec n))"
  using nat_dec_digits [of n] by (cases "nat_dec n") auto

lemma digit_not_sign: "is_digit c \<Longrightarrow> c \<noteq> CHR ''-'' \<and> c \<noteq> CHR ''+''"
  by (auto simp: is_digit_def)

lemma parse_format_int: "- (2 ^ 63) \<le> i \<Longrightarrow> i < 2 ^ 63 \<Longrightarrow> parse_int (format_int i) = Some i"
  using digit_not_sign [OF hd_nat_dec_digit, of "nat i"]
  by (auto simp: parse_int_def format_int_def Let_def)

lemma parse_int_range: "parse_int s = Some i \<Longrightarrow> - (2 ^ 63) \<le> i \<and> i < 2 ^ 63"
  by (auto simp: parse_int_def Let_def split: option.splits if_splits)

section \<open>Signed 64-bit arithmetic\<close>

text \<open>
  Go's \<^verbatim>\<open>int\<close>, \<^verbatim>\<open>int64\<close> and \<^verbatim>\<open>time.Duration\<close> are 64-bit two's complement; values are
  \<^typ>\<open>int\<close> and every operation that can overflow is wrapped by \<open>i64\<close>.  Division truncates
  towards zero.
\<close>

definition i64 :: "int \<Rightarrow> int" where
  "i64 x = (x + 2 ^ 63) mod 2 ^ 64 - 2 ^ 63"

definition go_div :: "int \<Rightarrow> int \<Rightarrow> int" where
  "go_div a b = sgn a * sgn b * (\<bar>a\<bar> div \<bar>b\<bar>)"

lemma i64_id: "- (2 ^ 63) \<le> x \<Longrightarrow> x < 2 ^ 63 \<Longrightarrow> i64 x = x"
  by (simp add: i64_def)

lemma i64_range: "- (2 ^ 63) \<le> i64 x \<and> i64 x < 2 ^ 63"
  using pos_mod_bound [of "2 ^ 64 :: int" "x + 2 ^ 63"] pos_mod_sign [of "2 ^ 64 :: int" "x + 2 ^ 63"]
  by (simp add: i64_def)

lemma go_div_nonneg: "0 \<le> a \<Longrightarrow> 0 < b \<Longrightarrow> go_div a b = a div b"
  by (cases "a = 0") (auto simp: go_div_def)

section \<open>Early return\<close>

text \<open>
  A Go function that threads state and may return an error is an action: it maps a state to an
  outcome and the state it leaves behind.  \<open>Done\<close> is a nil error, \<open>Fail e\<close> a returned error and
  \<open>Panicked\<close> a panic.  \<open>andThen\<close> is the \<^verbatim>\<open>if err != nil { return err }\<close> sequence,
  \<open>forEach\<close> a loop over a slice whose body may return.
\<close>

datatype 'e outcome = Done | Fail 'e | Panicked

type_synonym ('e, 's) act = "'s \<Rightarrow> 'e outcome \<times> 's"

definition skip :: "('e, 's) act" where
  "skip s = (Done, s)"

definition andThen :: "('e, 's) act \<Rightarrow> ('e, 's) act \<Rightarrow> ('e, 's) act" where
  "andThen a b s = (case a s of (Done, s') \<Rightarrow> b s' | (Fail e, s') \<Rightarrow> (Fail e, s') | (Panicked, s') \<Rightarrow> (Panicked, s'))"

fun forEach :: "('x \<Rightarrow> ('e, 's) act) \<Rightarrow> 'x list \<Rightarrow> ('e, 's) act" where
  "forEach f [] s = (Done, s)"
| "forEach f (x # xs) s = andThen (f x) (forEach f xs) s"

end
