(* ===== verification/Errors.thy ===== *)
theory Errors
  imports Prelude
begin

text \<open>
  The error values of \<^verbatim>\<open>internal/opnsense/errors.go\<close>: the sentinels, the four error types, the
  \<^verbatim>\<open>inconsistentError\<close> of \<^verbatim>\<open>snapshot.go\<close>, the two errors of a cancelled context, and the two
  ways the code combines errors, \<^verbatim>\<open>fmt.Errorf\<close> with \<^verbatim>\<open>%w\<close> and \<^verbatim>\<open>errors.Join\<close>.  The text a
  \<^verbatim>\<open>%w\<close> wrapper adds is the concatenation of its arguments.
\<close>

datatype readReason =
    TotalChanged int int nat
  | TooManyPages int int
  | EmptyPage nat nat int
  | ExceedsTotal nat int
  | ShortRead nat int

datatype error =
    ErrAliasChildren
  | ErrInconsistentRead
  | ErrTXTInvalid
  | ErrNameOutsideDomains
  | ErrApexName
  | ErrWildcard
  | ErrUnsupportedType
  | ErrLostWrite
  | ContextCanceled
  | DeadlineExceeded
  | NetworkError string error
  | APIError string int string
  | DataError string error
  | WriteError string string "(string \<times> string list) list"
  | InconsistentError readReason
  | Plain string
  | Wrap string error
  | Joined "error list"

type_synonym 'a result = "error + 'a"

text \<open>
  \<^verbatim>\<open>errors.Is\<close> walks the tree of wrapped errors; \<^verbatim>\<open>inconsistentError\<close> has an \<^verbatim>\<open>Is\<close> method that
  answers for \<^verbatim>\<open>ErrInconsistentRead\<close>.
\<close>

fun error_is :: "error \<Rightarrow> error \<Rightarrow> bool" where
  "error_is (NetworkError op e) t \<longleftrightarrow> NetworkError op e = t \<or> error_is e t"
| "error_is (DataError op e) t \<longleftrightarrow> DataError op e = t \<or> error_is e t"
| "error_is (Wrap m e) t \<longleftrightarrow> Wrap m e = t \<or> error_is e t"
| "error_is (Joined es) t \<longleftrightarrow> Joined es = t \<or> (\<exists>e \<in> set es. error_is e t)"
| "error_is (InconsistentError r) t \<longleftrightarrow> InconsistentError r = t \<or> t = ErrInconsistentRead"
| "error_is e t \<longleftrightarrow> e = t"

text \<open>\<^verbatim>\<open>errors.AsType[*NetworkError]\<close> and \<^verbatim>\<open>errors.AsType[*inconsistentError]\<close>.\<close>

fun IsNetworkError :: "error \<Rightarrow> bool" where
  "IsNetworkError (NetworkError _ _) \<longleftrightarrow> True"
| "IsNetworkError (DataError _ e) \<longleftrightarrow> IsNetworkError e"
| "IsNetworkError (Wrap _ e) \<longleftrightarrow> IsNetworkError e"
| "IsNetworkError (Joined es) \<longleftrightarrow> (\<exists>e \<in> set es. IsNetworkError e)"
| "IsNetworkError _ \<longleftrightarrow> False"

fun isInconsistent :: "error \<Rightarrow> bool" where
  "isInconsistent (InconsistentError _) \<longleftrightarrow> True"
| "isInconsistent (NetworkError _ e) \<longleftrightarrow> isInconsistent e"
| "isInconsistent (DataError _ e) \<longleftrightarrow> isInconsistent e"
| "isInconsistent (Wrap _ e) \<longleftrightarrow> isInconsistent e"
| "isInconsistent (Joined es) \<longleftrightarrow> (\<exists>e \<in> set es. isInconsistent e)"
| "isInconsistent _ \<longleftrightarrow> False"

text \<open>Every inconsistent read answers \<^verbatim>\<open>errors.Is(err, ErrInconsistentRead)\<close>.\<close>

lemma isInconsistent_is: "isInconsistent e \<Longrightarrow> error_is e ErrInconsistentRead"
  by (induction e rule: isInconsistent.induct) auto

text \<open>\<^verbatim>\<open>errors.Join\<close> drops nothing here (no nil is ever collected) and is nil for no errors.\<close>

definition joinErrors :: "error list \<Rightarrow> error option" where
  "joinErrors es = (if es = [] then None else Some (Joined es))"

end
