(* ===== verification/Names.thy ===== *)
theory Names
  imports Errors
begin

text \<open>
  \<^verbatim>\<open>internal/opnsense/names.go\<close>: joining and splitting DNS names, the label-boundary match
  against the configured domains, and the mapping of TTLs between external-dns, the write body
  and a stored row.
\<close>

definition maxTTL :: int where
  "maxTTL = 2147483647"

definition normaliseName :: "string \<Rightarrow> string" where
  "normaliseName s = to_lower (trim_suffix (trim_space s) ''.'')"

definition joinName :: "string \<Rightarrow> string \<Rightarrow> string" where
  "joinName hostname domain =
     (let h = normaliseName hostname; d = normaliseName domain;
          h = (if trim (\<lambda>c. c = CHR ''.'') h = [] then [] else h)
      in if h = [] then d else if d = [] then h else h @ ''.'' @ d)"

definition matchesDomain :: "string \<Rightarrow> string \<Rightarrow> bool" where
  "matchesDomain name domain \<longleftrightarrow> name = domain \<or> has_suffix name (''.'' @ domain)"

definition inDomains :: "string \<Rightarrow> string list \<Rightarrow> bool" where
  "inDomains name domains = (let name = normaliseName name in list_ex (matchesDomain name) domains)"

text \<open>The loop of \<^verbatim>\<open>splitName\<close> that keeps the longest matching domain.\<close>

fun longestDomain :: "string \<Rightarrow> string list \<Rightarrow> string \<Rightarrow> string" where
  "longestDomain name [] best = best"
| "longestDomain name (d # ds) best =
     longestDomain name ds (if matchesDomain name d \<and> length d > length best then d else best)"

definition splitName :: "string \<Rightarrow> string list \<Rightarrow> (string \<times> string) result" where
  "splitName name domains =
     (let name = normaliseName name; best = longestDomain name domains []
      in if best = [] then Inl (Wrap name ErrNameOutsideDomains)
         else if name = best then Inl (Wrap name ErrApexName)
         else let host = trim_suffix name (''.'' @ best)
              in if contains host ''*'' then Inl (Wrap name ErrWildcard)
                 else Inr (host, best))"

definition isWildcard :: "string \<Rightarrow> bool" where
  "isWildcard name = contains name ''*''"

definition clampTTL :: "int \<Rightarrow> int" where
  "clampTTL ttl = (if ttl \<le> 0 then 0 else if ttl > maxTTL then maxTTL else ttl)"

definition ttlField :: "int \<Rightarrow> string" where
  "ttlField ttl = (if ttl \<le> 0 then [] else format_int ttl)"

text \<open>\<^verbatim>\<open>parseTTL\<close> of \<^verbatim>\<open>dto.go\<close>, the reader of the same field.\<close>

definition parseTTL :: "string \<Rightarrow> int" where
  "parseTTL s =
     (if s = [] then 0
      else case parse_int s of None \<Rightarrow> 0 | Some n \<Rightarrow> if n < 0 then 0 else n)"

lemmas names_defs [go_defs] = normaliseName_def joinName_def matchesDomain_def inDomains_def
  splitName_def isWildcard_def clampTTL_def ttlField_def parseTTL_def maxTTL_def

section \<open>Matching and splitting\<close>

lemma matchesDomain_iff: "matchesDomain name d \<longleftrightarrow> name = d \<or> (\<exists>h. name = h @ ''.'' @ d)"
  by (auto simp: matchesDomain_def has_suffix_iff)

lemma longestDomain_ge: "length best \<le> length (longestDomain name ds best)"
  by (induction ds arbitrary: best) (auto intro: order_trans [rotated] split: if_splits,
      metis less_imp_le order_trans)

lemma longestDomain_cases:
  "longestDomain name ds best = best \<or>
   longestDomain name ds best \<in> set ds \<and> matchesDomain name (longestDomain name ds best)"
proof (induction ds arbitrary: best)
  case (Cons d ds)
  then show ?case
    by (cases "matchesDomain name d \<and> length best < length d") (auto, metis+)
qed simp

lemma longestDomain_longest:
  "d \<in> set ds \<Longrightarrow> matchesDomain name d \<Longrightarrow> length d \<le> length (longestDomain name ds best)"
proof (induction ds arbitrary: best)
  case (Cons e ds)
  show ?case
  proof (cases "d = e")
    case True
    let ?b = "if matchesDomain name e \<and> length best < length e then e else best"
    have "length d \<le> length ?b" using True Cons.prems by auto
    also have "\<dots> \<le> length (longestDomain name ds ?b)" by (rule longestDomain_ge)
    finally show ?thesis by simp
  qed (use Cons in auto)
qed simp

lemma longestDomain_eq_Nil:
  "longestDomain name ds [] = [] \<longleftrightarrow> (\<forall>d \<in> set ds. matchesDomain name d \<longrightarrow> d = [])"
proof
  assume "longestDomain name ds [] = []"
  then show "\<forall>d \<in> set ds. matchesDomain name d \<longrightarrow> d = []"
    using longestDomain_longest [of _ ds name "[]"] by fastforce
next
  assume "\<forall>d \<in> set ds. matchesDomain name d \<longrightarrow> d = []"
  then show "longestDomain name ds [] = []"
    using longestDomain_cases [of name ds "[]"] by auto
qed

lemma splitName_Inr:
  assumes "splitName n ds = Inr (h, d)"
  shows "normaliseName n = h @ ''.'' @ d" and "d \<in> set ds" and "d \<noteq> []"
    and "CHR ''*'' \<notin> set h"
    and "e \<in> set ds \<Longrightarrow> matchesDomain (normaliseName n) e \<Longrightarrow> length e \<le> length d"
proof -
  let ?b = "longestDomain (normaliseName n) ds []"
  from assms have b: "?b \<noteq> []" "normaliseName n \<noteq> ?b" "d = ?b"
    and h: "h = trim_suffix (normaliseName n) (''.'' @ ?b)" "\<not> contains h ''*''"
    by (auto simp: splitName_def Let_def split: if_splits)
  from b(1) longestDomain_cases [of "normaliseName n" ds "[]"]
  have m: "?b \<in> set ds" "matchesDomain (normaliseName n) ?b" by auto
  with b(2) obtain p where "normaliseName n = p @ ''.'' @ ?b" by (auto simp: matchesDomain_iff)
  with h(1) b(3) show "normaliseName n = h @ ''.'' @ d" by (metis trim_suffix_append)
  from m b show "d \<in> set ds" "d \<noteq> []" by auto
  from h(2) show "CHR ''*'' \<notin> set h" by (simp add: contains_char)
  show "e \<in> set ds \<Longrightarrow> matchesDomain (normaliseName n) e \<Longrightarrow> length e \<le> length d"
    using b(3) longestDomain_longest by blast
qed

section \<open>Names in normal form\<close>

text \<open>
  A name is clean when trimming and lower-casing leave it alone: no white space at either end,
  no dot at the end, no upper-case letter.  Splitting a clean host and domain back out of a
  joined name is exact; \<^verbatim>\<open>normaliseName\<close> itself removes one dot only, so its result need not be
  clean.
\<close>

definition cleanName :: "string \<Rightarrow> bool" where
  "cleanName s \<longleftrightarrow> normaliseName s = s"

lemma cleanName_iff:
  "cleanName s \<longleftrightarrow> to_lower s = s \<and> (s = [] \<or> \<not> is_space (hd s) \<and> \<not> is_space (last s) \<and> last s \<noteq> CHR ''.'')"
proof
  assume c: "cleanName s"
  then have eq: "to_lower (trim_suffix (trim_space s) ''.'') = s"
    by (simp add: cleanName_def normaliseName_def)
  then have low: "to_lower s = s" by (metis to_lower_idem)
  have len: "length (trim p t) \<le> length t" for p and t :: string
  proof -
    have "length (trim p t) \<le> length (dropWhile p t)"
      unfolding trim_def trim_left_def trim_right_def
      by (metis length_dropWhile_le length_rev)
    then show ?thesis using length_dropWhile_le order_trans by blast
  qed
  have "length s = length (trim_suffix (trim_space s) ''.'')" using eq by (metis length_to_lower)
  moreover have "length (trim_space s) \<le> length s" by (simp add: trim_space_def len)
  ultimately have ns: "\<not> has_suffix (trim_space s) ''.'' \<and> length (trim_space s) = length s"
    by (auto simp: trim_suffix_def has_suffix_def split: if_splits)
  then have "trim_suffix (trim_space s) ''.'' = trim_space s" by (simp add: trim_suffix_other)
  moreover have "trim_space s = s"
    using ns unfolding trim_space_def by (rule_tac trim_same_length) auto
  ultimately show "to_lower s = s \<and> (s = [] \<or> \<not> is_space (hd s) \<and> \<not> is_space (last s) \<and> last s \<noteq> CHR ''.'')"
    using low ns trim_eq_self_iff [of is_space s]
    by (auto simp: trim_space_def has_suffix_iff) (metis append_butlast_last_id)
next
  assume r: "to_lower s = s \<and> (s = [] \<or> \<not> is_space (hd s) \<and> \<not> is_space (last s) \<and> last s \<noteq> CHR ''.'')"
  then have "trim_space s = s" by (auto simp: trim_space_def trim_eq_self_iff)
  moreover have "\<not> has_suffix s ''.''" using r by (auto simp: has_suffix_iff)
  ultimately show "cleanName s"
    using r by (simp add: cleanName_def normaliseName_def trim_suffix_other)
qed


lemma joinName_clean:
  assumes "cleanName h" "cleanName d" "h \<noteq> []" "d \<noteq> []"
  shows "joinName h d = h @ ''.'' @ d"
proof -
  have "trim (\<lambda>c. c = CHR ''.'') h \<noteq> []"
  proof
    assume "trim (\<lambda>c. c = CHR ''.'') h = []"
    then have "\<forall>c \<in> set h. c = CHR ''.''"
      by (auto simp: trim_eq_Nil_iff)
    with assms(3) have "last h = CHR ''.''" by simp
    with assms(1,3) show False by (simp add: cleanName_iff)
  qed
  with assms show ?thesis by (simp add: joinName_def Let_def cleanName_def)
qed

text \<open>
  Splitting and joining are inverse exactly when the host part is itself in normal form: an
  empty host (a name with a leading dot) or a host that ends in a dot does not join back.
\<close>

lemma splitName_joinName_iff:
  assumes s: "splitName n ds = Inr (h, d)" and d: "cleanName d"
  shows "joinName h d = normaliseName n \<longleftrightarrow> h \<noteq> [] \<and> cleanName h"
proof
  note n = splitName_Inr(1) [OF s] and d' = splitName_Inr(3) [OF s]
  assume j: "joinName h d = normaliseName n"
  with n have j': "joinName h d = h @ ''.'' @ d" by simp
  have "d \<noteq> x @ ''.'' @ d" for x by (metis append_assoc append_self_conv2 list.distinct(1) snoc_eq_iff_butlast)
  with j' d d' have "normaliseName h @ ''.'' @ d = h @ ''.'' @ d"
    and "trim (\<lambda>c. c = CHR ''.'') (normaliseName h) \<noteq> []"
    by (auto simp: joinName_def Let_def cleanName_def split: if_splits)
  then show "h \<noteq> [] \<and> cleanName h" by (auto simp: cleanName_def trim_def trim_left_def trim_right_def)
next
  assume "h \<noteq> [] \<and> cleanName h"
  then show "joinName h d = normaliseName n"
    using splitName_Inr [OF s] d by (simp add: joinName_clean)
qed

lemma inDomains_iff:
  "inDomains n ds \<longleftrightarrow> (\<exists>d \<in> set ds. matchesDomain (normaliseName n) d)"
  by (simp add: inDomains_def list_ex_iff)

lemma splitName_outside:
  "(\<exists>m. splitName n ds = Inl (Wrap m ErrNameOutsideDomains)) \<longleftrightarrow>
   (\<forall>d \<in> set ds. matchesDomain (normaliseName n) d \<longrightarrow> d = [])"
  by (auto simp: splitName_def Let_def longestDomain_eq_Nil)

lemma splitName_errors:
  "splitName n ds = Inl e \<Longrightarrow>
   e \<in> Wrap (normaliseName n) ` {ErrNameOutsideDomains, ErrApexName, ErrWildcard}"
  by (auto simp: splitName_def Let_def split: if_splits)

section \<open>TTLs\<close>

lemma clampTTL_range: "0 \<le> clampTTL t \<and> clampTTL t \<le> maxTTL"
  by (simp add: clampTTL_def maxTTL_def)

lemma clampTTL_idem [simp]: "clampTTL (clampTTL t) = clampTTL t"
  by (simp add: clampTTL_def maxTTL_def)

lemma clampTTL_id: "0 \<le> t \<Longrightarrow> t \<le> maxTTL \<Longrightarrow> clampTTL t = t"
  by (simp add: clampTTL_def)

lemma format_int_not_Nil [simp]: "format_int i \<noteq> []"
  by (simp add: format_int_def)

lemma parseTTL_ttlField: "t < 2 ^ 63 \<Longrightarrow> parseTTL (ttlField t) = max 0 t"
  by (auto simp: parseTTL_def ttlField_def parse_format_int)

lemma parseTTL_ttlField_clamp [simp]: "parseTTL (ttlField (clampTTL t)) = clampTTL t"
  using clampTTL_range [of t] by (subst parseTTL_ttlField) (auto simp: maxTTL_def)

lemma parseTTL_range: "0 \<le> parseTTL s \<and> parseTTL s < 2 ^ 63"
  by (auto simp: parseTTL_def split: option.splits dest: parse_int_range)

section \<open>Properties\<close>

text \<open>C27: Splitting a name yields a configured domain that is a suffix of the normalised name at a label
boundary, the longest such domain, and a host part without a wildcard; host, dot and domain spell
the name.\<close>

theorem split_name_longest:
  assumes "splitName n ds = Inr (h, d)"
  shows "normaliseName n = h @ ''.'' @ d \<and> d \<in> set ds \<and> d \<noteq> [] \<and> CHR ''*'' \<notin> set h \<and>
    list_all (\<lambda>e. length e \<le> length d) (filter (matchesDomain (normaliseName n)) ds)"
  using splitName_Inr [OF assms] by (simp add: list_all_iff)

theorem split_name_longest_witness:
  "splitName ''WWW.lab.example.com.'' [''example.com'', ''lab.example.com''] = Inr (''www'', ''lab.example.com'') \<and>
   normaliseName ''WWW.lab.example.com.'' = ''www'' @ ''.'' @ ''lab.example.com''"
proof -
  have s: "splitName ''WWW.lab.example.com.'' [''example.com'', ''lab.example.com''] = Inr (''www'', ''lab.example.com'')"
    by code_simp
  from split_name_longest [OF s] s show ?thesis by blast
qed

text \<open>C28: For a configured domain in normal form (no trailing dot, which validation does not rule out), joining is the
inverse of splitting exactly for the names whose host part is non-empty and in normal form; for the others
(a leading dot, a host that ends in a dot) the joined name differs, which is where \<^verbatim>\<open>retarget\<close> would panic.\<close>

theorem split_join_exact:
  assumes "splitName n ds = Inr (h, d)" and "cleanName d"
  shows "joinName h d = normaliseName n \<longleftrightarrow> h \<noteq> [] \<and> cleanName h"
  using assms by (rule splitName_joinName_iff)

theorem split_join_exact_witness:
  "joinName ''www'' ''example.com'' = ''www.example.com'' \<and> joinName ''a.'' ''example.com'' \<noteq> ''a..example.com''"
proof -
  have a: "splitName ''www.example.com'' [''example.com''] = Inr (''www'', ''example.com'')" by code_simp
  have b: "splitName ''a..example.com'' [''example.com''] = Inr (''a.'', ''example.com'')" by code_simp
  have d: "cleanName ''example.com''" by code_simp
  have c: "cleanName ''www''" "\<not> cleanName ''a.''" "normaliseName ''www.example.com'' = ''www.example.com''"
    "normaliseName ''a..example.com'' = ''a..example.com''" by code_simp+
  from split_join_exact [OF a d] split_join_exact [OF b d] c show ?thesis by simp
qed

text \<open>A name is reported as outside the configured domains exactly when no non-empty configured domain
matches it, and every other rejection is an apex name or a wildcard.\<close>

theorem split_name_rejects:
  "((\<exists>m. splitName n ds = Inl (Wrap m ErrNameOutsideDomains)) \<longleftrightarrow>
     list_all (\<lambda>d. d = []) (filter (matchesDomain (normaliseName n)) ds)) \<and>
   (case splitName n ds of Inr _ \<Rightarrow> True
    | Inl e \<Rightarrow> e \<in> Wrap (normaliseName n) ` {ErrNameOutsideDomains, ErrApexName, ErrWildcard})"
  using splitName_errors [of n ds] splitName_outside [of n ds]
  by (auto simp: list_all_iff split: sum.splits)

text \<open>C31: A TTL written to the firewall and read back is the clamped TTL, and that lies between zero and the
largest value of the model's field.\<close>

theorem ttl_roundtrip:
  "parseTTL (ttlField (clampTTL t)) = clampTTL t \<and> 0 \<le> clampTTL t \<and> clampTTL t \<le> maxTTL"
  using clampTTL_range [of t] by simp

end
