(* ===== verification/Config.thy ===== *)
theory Config
  imports Names
begin

text \<open>
  The provider configuration of \<^verbatim>\<open>internal/opnsense/types.go\<close> and its validation.  Durations are
  nanoseconds.  \<^verbatim>\<open>url.Parse\<close> is an argument: it answers with scheme, host and path, or with an
  error (\<^term>\<open>None\<close>).
\<close>

definition millisecond :: int where "millisecond = 1000000"
definition second :: int where "second = 1000 * millisecond"

definition maxPageSize :: int where "maxPageSize = 500"
definition maxApplyWorkers :: int where "maxApplyWorkers = 32"
definition maxRetryAttempts :: int where "maxRetryAttempts = 10"
definition minRetryInitialDelay :: int where "minRetryInitialDelay = millisecond"

lemmas config_consts [go_defs] = millisecond_def second_def maxPageSize_def maxApplyWorkers_def
  maxRetryAttempts_def minRetryInitialDelay_def

record config =
  cHost :: string
  cAPIKey :: string
  cAPISecret :: string
  cDomains :: "string list"
  cSkipTLSVerify :: bool
  cCACertPath :: string
  cAddPTR :: bool
  cOwnerMarker :: string
  cPageSize :: int
  cReadAttempts :: int
  cApplyWorkers :: int
  cRetryAttempts :: int
  cRetryInitialDelay :: int
  cRetryMaxDelay :: int
  cRequestTimeout :: int
  cReconfigureTimeout :: int
  cApplyTimeout :: int

text \<open>The \<^verbatim>\<open>envDefault\<close>s; the four settings without one are arguments.\<close>

definition defaultConfig :: "string \<Rightarrow> string \<Rightarrow> string \<Rightarrow> string list \<Rightarrow> config" where
  "defaultConfig host key secret domains =
     \<lparr>cHost = host, cAPIKey = key, cAPISecret = secret, cDomains = domains, cSkipTLSVerify = False,
      cCACertPath = [], cAddPTR = False, cOwnerMarker = ''external-dns'', cPageSize = 150, cReadAttempts = 3,
      cApplyWorkers = 1, cRetryAttempts = 3, cRetryInitialDelay = 500 * millisecond, cRetryMaxDelay = 10 * second,
      cRequestTimeout = 20 * second, cReconfigureTimeout = 45 * second, cApplyTimeout = 120 * second\<rparr>"

text \<open>The loop over \<^verbatim>\<open>Domains\<close>: \<open>seen\<close> holds the entries already accepted, in order.\<close>

definition normaliseDomain :: "string \<Rightarrow> string" where
  "normaliseDomain d = to_lower (trim_space (trim_suffix d ''.''))"

fun validateDomains :: "nat \<Rightarrow> string list \<Rightarrow> string list \<Rightarrow> string list result" where
  "validateDomains i seen [] = Inr seen"
| "validateDomains i seen (e # es) =
     (let d = normaliseDomain e
      in if d = [] \<or> has_prefix d ''.'' \<or> contains d ''..'' then
           Inl (Plain (''OPNSENSE_DOMAINS entry '' @ nat_dec i @ '' is not a valid domain''))
         else if d \<in> set seen then
           Inl (Plain (''OPNSENSE_DOMAINS entry '' @ nat_dec i @ '' is a duplicate''))
         else validateDomains (Suc i) (seen @ [d]) es)"

definition Validate :: "(string \<Rightarrow> (string \<times> string \<times> string) option) \<Rightarrow> config \<Rightarrow> config result" where
  "Validate parse_url c =
     (case parse_url (cHost c) of
        None \<Rightarrow> Inl (Plain ''OPNSENSE_HOST is not a valid URL'')
      | Some (scheme, host, path) \<Rightarrow>
          if scheme = [] \<or> host = [] then Inl (Plain ''OPNSENSE_HOST must include a scheme and host'')
          else if path \<noteq> [] \<and> path \<noteq> ''/'' then Inl (Plain ''OPNSENSE_HOST must not include a path'')
          else
            let c = c\<lparr>cHost := trim_right (\<lambda>x. x = CHR ''/'') (cHost c)\<rparr>
            in if cDomains c = [] then Inl (Plain ''OPNSENSE_DOMAINS must list at least one domain'')
               else case validateDomains 0 [] (cDomains c) of
                 Inl e \<Rightarrow> Inl e
               | Inr ds \<Rightarrow>
                   let c = c\<lparr>cDomains := ds\<rparr>
                   in if cOwnerMarker c = [] then Inl (Plain ''OPNSENSE_OWNER_MARKER must not be empty'')
                      else if cPageSize c < 1 \<or> cPageSize c > maxPageSize then
                        Inl (Plain ''OPNSENSE_PAGE_SIZE out of range'')
                      else if cReadAttempts c < 1 then Inl (Plain ''OPNSENSE_READ_ATTEMPTS must be at least 1'')
                      else if cApplyWorkers c < 1 \<or> cApplyWorkers c > maxApplyWorkers then
                        Inl (Plain ''OPNSENSE_APPLY_WORKERS out of range'')
                      else if cRetryAttempts c < 1 \<or> cRetryAttempts c > maxRetryAttempts then
                        Inl (Plain ''OPNSENSE_RETRY_ATTEMPTS out of range'')
                      else if cRetryInitialDelay c < minRetryInitialDelay then
                        Inl (Plain ''OPNSENSE_RETRY_INITIAL_DELAY too small'')
                      else if cRetryMaxDelay c < cRetryInitialDelay c then
                        Inl (Plain ''OPNSENSE_RETRY_MAX_DELAY must be >= OPNSENSE_RETRY_INITIAL_DELAY'')
                      else if cRequestTimeout c \<le> 0 \<or> cReconfigureTimeout c \<le> 0 then
                        Inl (Plain ''timeouts must be positive'')
                      else if cApplyTimeout c \<le> cReconfigureTimeout c then
                        Inl (Plain ''OPNSENSE_APPLY_TIMEOUT must exceed OPNSENSE_RECONFIGURE_TIMEOUT'')
                      else Inr c)"

text \<open>What a validated configuration promises to the code that uses it.\<close>

definition validDomain :: "string \<Rightarrow> bool" where
  "validDomain d \<longleftrightarrow> d \<noteq> [] \<and> to_lower d = d \<and> \<not> has_prefix d ''.'' \<and> \<not> contains d ''..''"

definition validConfig :: "config \<Rightarrow> bool" where
  "validConfig c \<longleftrightarrow>
     cDomains c \<noteq> [] \<and> distinct (cDomains c) \<and> list_all validDomain (cDomains c) \<and>
     cOwnerMarker c \<noteq> [] \<and>
     1 \<le> cPageSize c \<and> cPageSize c \<le> maxPageSize \<and> 1 \<le> cReadAttempts c \<and>
     1 \<le> cApplyWorkers c \<and> cApplyWorkers c \<le> maxApplyWorkers \<and>
     1 \<le> cRetryAttempts c \<and> cRetryAttempts c \<le> maxRetryAttempts \<and>
     minRetryInitialDelay \<le> cRetryInitialDelay c \<and> cRetryInitialDelay c \<le> cRetryMaxDelay c \<and>
     0 < cRequestTimeout c \<and> 0 < cReconfigureTimeout c \<and> cReconfigureTimeout c < cApplyTimeout c"

lemma to_lower_normaliseDomain [simp]: "to_lower (normaliseDomain d) = normaliseDomain d"
  by (simp add: normaliseDomain_def)

lemma validateDomains_Inr:
  "validateDomains i seen es = Inr ds \<Longrightarrow>
   ds = seen @ map normaliseDomain es \<and> (distinct seen \<longrightarrow> distinct ds) \<and>
   list_all validDomain (map normaliseDomain es)"
proof (induction i seen es rule: validateDomains.induct)
  case (2 i seen e es)
  let ?d = "normaliseDomain e"
  from 2(2) have c: "\<not> (?d = [] \<or> has_prefix ?d ''.'' \<or> contains ?d ''..'')" "?d \<notin> set seen"
    and r: "validateDomains (Suc i) (seen @ [?d]) es = Inr ds"
    by (auto simp: Let_def split: if_splits)
  from 2(1) [OF refl c r]
  have a: "ds = (seen @ [?d]) @ map normaliseDomain es \<and> (distinct (seen @ [?d]) \<longrightarrow> distinct ds) \<and>
    list_all validDomain (map normaliseDomain es)" .
  have d: "distinct seen \<longrightarrow> distinct (seen @ [?d])" using c(2) by simp
  have v: "validDomain ?d" using c(1) by (simp add: validDomain_def)
  show ?case
  proof (intro conjI)
    show "ds = seen @ map normaliseDomain (e # es)" using a by simp
    show "distinct seen \<longrightarrow> distinct ds" using a d by blast
    show "list_all validDomain (map normaliseDomain (e # es))" using a v by simp
  qed
qed simp

lemma Validate_Inr:
  assumes "Validate parse_url c = Inr c'"
  shows "validConfig c'" and "cDomains c' = map normaliseDomain (cDomains c)"
    and "cHost c' = trim_right (\<lambda>x. x = CHR ''/'') (cHost c)"
  using assms
  by (auto simp: Validate_def Let_def validConfig_def split: option.splits if_splits sum.splits
           dest!: validateDomains_Inr)

section \<open>Properties\<close>

text \<open>C37: A configuration that passes validation satisfies every bound the rest of the provider relies on, and
its domains are the configured ones normalised, in order.\<close>

theorem validate_establishes:
  assumes "Validate parse_url c = Inr c'"
  shows "validConfig c' \<and> cDomains c' = map normaliseDomain (cDomains c)"
  using Validate_Inr [OF assms] by simp

theorem validate_establishes_witness:
  "\<exists>c'. Validate (\<lambda>_. Some (''https'', ''fw'', [])) 
     \<lparr>cHost = ''https://fw/'', cAPIKey = ''k'', cAPISecret = ''s'', cDomains = [''Example.com.''],
      cSkipTLSVerify = False, cCACertPath = [], cAddPTR = False, cOwnerMarker = ''m'', cPageSize = 100,
      cReadAttempts = 3, cApplyWorkers = 4, cRetryAttempts = 3, cRetryInitialDelay = 500000000,
      cRetryMaxDelay = 10000000000, cRequestTimeout = 1, cReconfigureTimeout = 1, cApplyTimeout = 2\<rparr> = Inr c' \<and>
    validConfig c'"
proof -
  let ?c = "\<lparr>cHost = ''https://fw/'', cAPIKey = ''k'', cAPISecret = ''s'', cDomains = [''Example.com.''],
      cSkipTLSVerify = False, cCACertPath = [], cAddPTR = False, cOwnerMarker = ''m'', cPageSize = 100,
      cReadAttempts = 3, cApplyWorkers = 4, cRetryAttempts = 3, cRetryInitialDelay = 500000000,
      cRetryMaxDelay = 10000000000, cRequestTimeout = 1, cReconfigureTimeout = 1, cApplyTimeout = 2\<rparr>"
  have "validateDomains 0 [] [''Example.com.''] = Inr [''example.com'']" by code_simp
  then obtain c' where "Validate (\<lambda>_. Some (''https'', ''fw'', [])) ?c = Inr c'"
    by (auto simp: Validate_def Let_def config_consts)
  with validate_establishes [OF this] show ?thesis by blast
qed

text \<open>The normalisation of a configured domain removes a trailing dot before it trims white space, so an
entry with a space after the dot keeps its dot.\<close>

theorem domain_keeps_dot: "validateDomains 0 [] [''example.com. ''] = Inr [''example.com.'']"
  by code_simp

end
