(* ===== verification/Metrics.thy ===== *)
theory Metrics
  imports Errors
begin

text \<open>
  \<^verbatim>\<open>internal/metrics/metrics.go\<close>: the Prometheus series as a partial map from a labelled metric
  to its value; \<^term>\<open>None\<close> is a series that does not exist yet.  A histogram is its number of
  observations, since the observed durations are clock readings.
\<close>

datatype metric =
    HTTPRequests string string int
  | HTTPDuration string string
  | HTTPInFlight
  | HTTPResponseSize string string
  | HTTPValidationErrors string
  | HTTPJSONErrors string
  | RecordsGauge string
  | ChangesTotal string
  | ChangesByType string string
  | AdjustEndpointsTotal
  | NegotiateTotal
  | APIErrors string
  | APIDuration string
  | APIResponseSize string
  | APIRetries string string
  | APIRateLimits string
  | PanicsTotal string
  | PagesFetched
  | ReadRestarts
  | RowsGauge
  | ReconfigureTotal string
  | PendingReconfigure
  | ApplyDuration
  | DeleteBlocked
  | EndpointsDropped string
  | TXTInvalid
  | LostWrites string
  | VerifyReadsFailed
  | ConsecutiveErrors
  | LastSuccess
  | InfoGauge string

type_synonym metrics = "metric \<rightharpoonup> int"

definition reading :: "metrics \<Rightarrow> metric \<Rightarrow> int" where
  "reading m k = (case m k of None \<Rightarrow> 0 | Some n \<Rightarrow> n)"

definition touch :: "metric \<Rightarrow> metrics \<Rightarrow> metrics" where
  "touch k m = m(k \<mapsto> reading m k)"

definition addTo :: "metric \<Rightarrow> int \<Rightarrow> metrics \<Rightarrow> metrics" where
  "addTo k n m = m(k \<mapsto> reading m k + n)"

definition inc :: "metric \<Rightarrow> metrics \<Rightarrow> metrics" where
  "inc k = addTo k 1"

definition setGauge :: "metric \<Rightarrow> int \<Rightarrow> metrics \<Rightarrow> metrics" where
  "setGauge k n m = m(k \<mapsto> n)"

lemmas metrics_defs [go_defs] = reading_def touch_def addTo_def inc_def setGauge_def

lemma reading_addTo [simp]: "reading (addTo k n m) k' = reading m k' + (if k = k' then n else 0)"
  by (simp add: reading_def addTo_def)

lemma reading_inc [simp]: "reading (inc k m) k' = reading m k' + (if k = k' then 1 else 0)"
  by (simp add: inc_def)

lemma reading_setGauge [simp]: "reading (setGauge k n m) k' = (if k = k' then n else reading m k')"
  by (simp add: reading_def setGauge_def)

lemma reading_touch [simp]: "reading (touch k m) k' = reading m k'"
  by (simp add: reading_def touch_def)

section \<open>The closed label sets\<close>

definition DropReasons :: "string list" where
  "DropReasons = [''type'', ''set-identifier'', ''wildcard'', ''apex'', ''domain'', ''name'', ''txt'']"

definition changeOps :: "string list" where
  "changeOps = [''create'', ''update'', ''delete'']"

definition preCreateChildren :: "metrics \<Rightarrow> metrics" where
  "preCreateChildren m =
     fold touch
       ([DeleteBlocked, TXTInvalid, VerifyReadsFailed, PagesFetched, ReadRestarts] @
        map ReconfigureTotal [''ok'', ''error''] @
        map EndpointsDropped DropReasons @
        concat (map (\<lambda>op. [ChangesTotal op, LostWrites op]) changeOps)) m"

definition build :: "string \<Rightarrow> metrics" where
  "build version = preCreateChildren (setGauge (InfoGauge version) 1 Map.empty)"

section \<open>Recording\<close>

definition RecordHTTPRequest :: "string \<Rightarrow> string \<Rightarrow> int \<Rightarrow> int \<Rightarrow> metrics \<Rightarrow> metrics" where
  "RecordHTTPRequest method ep statusCode responseSize m =
     (let m = inc (HTTPDuration method ep) (inc (HTTPRequests method ep statusCode) m)
      in if responseSize > 0 then inc (HTTPResponseSize method ep) m else m)"

definition RecordAPICall :: "string \<Rightarrow> int \<Rightarrow> bool \<Rightarrow> metrics \<Rightarrow> metrics" where
  "RecordAPICall operation responseSize failed m =
     (let m = inc (APIDuration operation) m;
          m = (if responseSize > 0 then inc (APIResponseSize operation) m else m)
      in if failed then inc (APIErrors operation) m else m)"

definition RecordReconfigure :: "bool \<Rightarrow> metrics \<Rightarrow> metrics" where
  "RecordReconfigure failed = inc (ReconfigureTotal (if failed then ''error'' else ''ok''))"

definition RecordOperation :: "bool \<Rightarrow> int \<Rightarrow> metrics \<Rightarrow> metrics" where
  "RecordOperation failed now m =
     (if failed then inc ConsecutiveErrors m
      else setGauge LastSuccess now (setGauge ConsecutiveErrors 0 m))"

definition UpdateRecordsByType :: "string \<Rightarrow> int \<Rightarrow> metrics \<Rightarrow> metrics" where
  "UpdateRecordsByType recordType n = setGauge (RecordsGauge recordType) n"

definition RecordChange :: "string \<Rightarrow> string \<Rightarrow> metrics \<Rightarrow> metrics" where
  "RecordChange operation recordType m =
     inc (ChangesByType operation recordType) (inc (ChangesTotal operation) m)"

lemmas record_defs = RecordHTTPRequest_def RecordAPICall_def RecordReconfigure_def
  RecordOperation_def UpdateRecordsByType_def RecordChange_def

lemma touch_keeps: "m k = Some n \<Longrightarrow> touch k' m k = Some n"
  by (auto simp: touch_def reading_def)

lemma fold_touch: "fold touch ks m k = (if k \<in> set ks then Some (reading m k) else m k)"
proof (induction ks arbitrary: m)
  case (Cons j ks)
  then show ?case by (auto simp: touch_def reading_def)
qed simp

lemma build_closed:
  "k \<in> {DeleteBlocked, TXTInvalid, VerifyReadsFailed, PagesFetched, ReadRestarts}
     \<union> ReconfigureTotal ` {''ok'', ''error''} \<union> EndpointsDropped ` set DropReasons
     \<union> ChangesTotal ` set changeOps \<union> LostWrites ` set changeOps
   \<Longrightarrow> build v k = Some 0"
  unfolding build_def preCreateChildren_def
  by (subst fold_touch) (auto simp: reading_def setGauge_def changeOps_def)

section \<open>The registered vectors\<close>

text \<open>
  What \<^verbatim>\<open>build\<close> registers with Prometheus, in the groups of the source: kind, name, help text and label
  names.  The start of an exponential bucket series is a fraction.
\<close>

datatype buckets = DefBuckets | ExponentialBuckets "int \<times> int" int nat

datatype vecKind = CounterVec | GaugeVec | HistogramVec buckets

record metricVec =
  vecKind :: vecKind
  vecName :: string
  vecHelp :: string
  vecLabels :: "string list"

definition vec :: "vecKind \<Rightarrow> string \<Rightarrow> string \<Rightarrow> string list \<Rightarrow> metricVec" where
  "vec k n h ls = \<lparr>vecKind = k, vecName = n, vecHelp = h, vecLabels = ls\<rparr>"

definition httpVecs :: "metricVec list" where
  "httpVecs =
     [vec (CounterVec) ''http_requests_total''
        ''Total number of HTTP requests'' [''provider'', ''method'', ''endpoint'', ''status_code''],
      vec (HistogramVec (DefBuckets)) ''http_request_duration_seconds''
        ''HTTP request duration in seconds'' [''provider'', ''method'', ''endpoint''],
      vec (GaugeVec) ''http_requests_in_flight''
        ''Number of HTTP requests currently being processed'' [''provider''],
      vec (HistogramVec (ExponentialBuckets (100, 1) 10 8)) ''http_response_size_bytes''
        ''HTTP response size in bytes'' [''provider'', ''method'', ''endpoint''],
      vec (CounterVec) ''http_validation_errors_total''
        ''Total number of HTTP header validation errors'' [''provider'', ''header_type''],
      vec (CounterVec) ''http_json_errors_total''
        ''Total number of JSON decoding errors'' [''provider'', ''endpoint'']]"

definition changeVecs :: "metricVec list" where
  "changeVecs =
     [vec (GaugeVec) ''records''
        ''Current number of DNS records by type'' [''provider'', ''record_type''],
      vec (CounterVec) ''changes_total''
        ''Total number of DNS changes'' [''provider'', ''operation''],
      vec (CounterVec) ''changes_by_type_total''
        ''Total number of DNS changes by record type'' [''provider'', ''operation'', ''record_type''],
      vec (HistogramVec (ExponentialBuckets (1, 1) 2 10)) ''batch_size''
        ''Size of change batches'' [''provider'', ''operation''],
      vec (CounterVec) ''adjust_endpoints_total''
        ''Total number of adjust endpoints calls'' [''provider''],
      vec (CounterVec) ''negotiate_total''
        ''Total number of negotiate calls'' [''provider'']]"

definition apiVecs :: "metricVec list" where
  "apiVecs =
     [vec (CounterVec) ''opnsense_api_errors_total''
        ''Total number of OPNsense API errors'' [''provider'', ''operation''],
      vec (HistogramVec (DefBuckets)) ''opnsense_api_duration_seconds''
        ''OPNsense API request duration in seconds'' [''provider'', ''operation''],
      vec (HistogramVec (ExponentialBuckets (100, 1) 10 8)) ''opnsense_api_response_size_bytes''
        ''OPNsense API response size in bytes'' [''operation''],
      vec (CounterVec) ''opnsense_api_retries_total''
        ''Total number of OPNsense API retries triggered by 5xx or 429 responses'' [''provider'', ''operation'', ''status''],
      vec (CounterVec) ''opnsense_api_rate_limits_total''
        ''Total number of HTTP 429 rate-limit responses received from OPNsense'' [''provider'', ''operation''],
      vec (CounterVec) ''http_handler_panics_total''
        ''Total number of panics caught by the HTTP recovery middleware'' [''provider'', ''endpoint'']]"

definition opnsenseVecs :: "metricVec list" where
  "opnsenseVecs =
     [vec (CounterVec) ''opnsense_pages_fetched_total''
        ''Total number of searchHostOverride pages fetched'' [''provider''],
      vec (CounterVec) ''opnsense_read_restarts_total''
        ''Total number of paginated reads restarted because the table changed mid-read'' [''provider''],
      vec (GaugeVec) ''opnsense_rows''
        ''Host override rows in the last accepted snapshot (all rows, before filtering)'' [''provider''],
      vec (CounterVec) ''opnsense_reconfigure_total''
        ''Total number of Unbound reconfigure calls by result'' [''provider'', ''result''],
      vec (GaugeVec) ''opnsense_pending_reconfigure''
        ''1 while saved configuration has not been applied to the running Unbound'' [''provider''],
      vec (HistogramVec (ExponentialBuckets (1, 2) 2 9)) ''opnsense_apply_duration_seconds''
        ''Wall time of one ApplyChanges including reconfigure'' [''provider''],
      vec (CounterVec) ''opnsense_delete_blocked_total''
        ''Deletes refused because the row has alias children'' [''provider''],
      vec (CounterVec) ''opnsense_endpoints_dropped_total''
        ''Desired endpoints dropped in AdjustEndpoints by reason'' [''provider'', ''reason''],
      vec (CounterVec) ''opnsense_txt_invalid_total''
        ''TXT endpoints refused for length or content'' [''provider''],
      vec (CounterVec) ''opnsense_lost_writes_total''
        ''Writes OPNsense acknowledged that a re-read of the table showed were not saved, by operation'' [''provider'', ''operation''],
      vec (CounterVec) ''opnsense_verify_reads_failed_total''
        ''Post-phase verification reads that failed, leaving that apply's writes unverified'' [''provider'']]"

definition qualityVecs :: "metricVec list" where
  "qualityVecs =
     [vec (GaugeVec) ''consecutive_errors''
        ''Number of consecutive errors'' [''provider''],
      vec (GaugeVec) ''last_success_timestamp''
        ''Timestamp of last successful operation'' [''provider''],
      vec (GaugeVec) ''info''
        ''Information about the webhook instance'' [''version'', ''provider'']]"

definition vectors :: "metricVec list" where
  "vectors = httpVecs @ changeVecs @ apiVecs @ opnsenseVecs @ qualityVecs"

lemmas vector_defs = vec_def httpVecs_def changeVecs_def apiVecs_def opnsenseVecs_def qualityVecs_def vectors_def

definition ProviderName :: string where "ProviderName = ''opnsense''"

text \<open>
  The registry panics on a second vector of one name, and on a vector that names a label twice.  (One of them,
  \<^verbatim>\<open>batch_size\<close>, is registered and never observed.)
\<close>

lemma vectors_register: "distinct (map vecName vectors) \<and> list_all (\<lambda>v. distinct (vecLabels v)) vectors"
  by (simp add: vector_defs)

section \<open>Properties\<close>

text \<open>Every counter whose label set is closed exists at zero before anything has happened, so an alert can
tell no event from no report.\<close>

theorem metrics_precreated:
  "list_all (\<lambda>k. build v k = Some 0)
     ([DeleteBlocked, TXTInvalid, VerifyReadsFailed, PagesFetched, ReadRestarts] @
      map ReconfigureTotal [''ok'', ''error''] @ map EndpointsDropped DropReasons @
      map ChangesTotal changeOps @ map LostWrites changeOps)"
  using build_closed by (auto simp: list_all_iff)

end
