(* ===== verification/Txt.thy ===== *)
theory Txt
  imports Errors
begin

text \<open>
  The TXT value rules of \<^verbatim>\<open>internal/opnsense/dto.go\<close>: external-dns serialises a registry value
  between double quotes, the firewall stores it bare.
\<close>

definition maxTXTBytes :: nat where
  "maxTXTBytes = 255"

abbreviation quote :: char where
  "quote \<equiv> CHR 0x22"

abbreviation backslash :: char where
  "backslash \<equiv> CHR 0x5C"

definition quoted :: "string \<Rightarrow> bool" where
  "quoted s \<longleftrightarrow> length s \<ge> 2 \<and> hd s = quote \<and> last s = quote"

definition stripTXTQuotes :: "string \<Rightarrow> string" where
  "stripTXTQuotes s = (if quoted s then butlast (tl s) else s)"

definition restoreTXTQuotes :: "string \<Rightarrow> string" where
  "restoreTXTQuotes s = (if quoted s then s else [quote] @ s @ [quote])"

text \<open>
  The loop over the bytes: each byte is first checked for printable ASCII, then for the quote
  and the backslash, so the first offending byte decides the message.
\<close>

fun checkTXTBytes :: "nat \<Rightarrow> string \<Rightarrow> error option" where
  "checkTXTBytes i [] = None"
| "checkTXTBytes i (c # s) =
     (if (of_char c :: nat) < 0x20 \<or> (of_char c :: nat) > 0x7e then
        Some (Wrap (''byte '' @ nat_dec i @ '' is not printable ASCII'') ErrTXTInvalid)
      else if c = quote \<or> c = backslash then
        Some (Wrap ''quotes and backslashes are not allowed inside the value'' ErrTXTInvalid)
      else checkTXTBytes (Suc i) s)"

definition validateTXT :: "string \<Rightarrow> string result" where
  "validateTXT target =
     (if \<not> quoted target then Inl (Wrap ''value must be one double-quoted string'' ErrTXTInvalid)
      else let bare = butlast (tl target)
           in if bare = [] then Inl (Wrap ''empty value'' ErrTXTInvalid)
              else if length bare > maxTXTBytes then
                Inl (Wrap (nat_dec (length bare) @ '' bytes exceeds the limit'') ErrTXTInvalid)
              else case checkTXTBytes 0 bare of Some e \<Rightarrow> Inl e | None \<Rightarrow> Inr bare)"

lemmas txt_defs [go_defs] = maxTXTBytes_def quoted_def stripTXTQuotes_def restoreTXTQuotes_def
  validateTXT_def

text \<open>The bytes a TXT value may hold.\<close>

definition txtByte :: "char \<Rightarrow> bool" where
  "txtByte c \<longleftrightarrow> 0x20 \<le> (of_char c :: nat) \<and> (of_char c :: nat) \<le> 0x7e \<and> c \<noteq> quote \<and> c \<noteq> backslash"

definition validBare :: "string \<Rightarrow> bool" where
  "validBare s \<longleftrightarrow> s \<noteq> [] \<and> length s \<le> maxTXTBytes \<and> list_all txtByte s"

lemma checkTXTBytes_None: "checkTXTBytes i s = None \<longleftrightarrow> list_all txtByte s"
  by (induction s arbitrary: i) (auto simp: txtByte_def)

lemma checkTXTBytes_Some: "checkTXTBytes i s = Some e \<Longrightarrow> \<exists>m. e = Wrap m ErrTXTInvalid"
  by (induction s arbitrary: i) (auto split: if_splits)

lemma quotedE:
  assumes "quoted s"
  obtains b where "s = [quote] @ b @ [quote]"
proof -
  from assms have "s = hd s # butlast (tl s) @ [last s]"
    by (cases s) (auto simp: quoted_def Suc_le_eq)
  with assms show ?thesis by (intro that [of "butlast (tl s)"]) (simp add: quoted_def)
qed

lemma quoted_wrap [simp]: "quoted (quote # b @ [quote])"
  by (simp add: quoted_def)

lemma butlast_tl_wrap [simp]: "butlast (tl (quote # b @ [quote])) = b"
  by simp

lemma validateTXT_iff:
  "validateTXT t = Inr b \<longleftrightarrow> t = [quote] @ b @ [quote] \<and> validBare b"
proof (cases "quoted t")
  case True
  then obtain b' where "t = [quote] @ b' @ [quote]" by (rule quotedE)
  then show ?thesis
    by (auto simp: validateTXT_def Let_def validBare_def checkTXTBytes_None [of 0, symmetric]
             split: option.splits if_splits)
next
  case False
  then show ?thesis by (auto simp: validateTXT_def)
qed

lemma validateTXT_error: "validateTXT t = Inl e \<Longrightarrow> \<exists>m. e = Wrap m ErrTXTInvalid"
  by (auto simp: validateTXT_def Let_def split: if_splits option.splits dest: checkTXTBytes_Some)

lemma validBare_not_quoted: "validBare b \<Longrightarrow> \<not> quoted b"
  by (cases b) (auto simp: validBare_def quoted_def txtByte_def)

lemma restore_validBare: "validBare b \<Longrightarrow> restoreTXTQuotes b = [quote] @ b @ [quote]"
  by (simp add: restoreTXTQuotes_def validBare_not_quoted)

lemma validateTXT_restore: "validBare b \<Longrightarrow> validateTXT (restoreTXTQuotes b) = Inr b"
  by (simp add: restore_validBare validateTXT_iff)

lemma restoreTXTQuotes_idem [simp]: "restoreTXTQuotes (restoreTXTQuotes s) = restoreTXTQuotes s"
  by (auto simp: restoreTXTQuotes_def)

lemma strip_restore: "\<not> quoted s \<Longrightarrow> stripTXTQuotes (restoreTXTQuotes s) = s"
  by (simp add: restoreTXTQuotes_def stripTXTQuotes_def)

section \<open>Properties\<close>

text \<open>C29: A TXT target is accepted exactly when it is the quoted form of a valid bare value, and the value
kept is that bare value: validating and restoring the quotes are inverse to each other.\<close>

theorem txt_roundtrip: "validateTXT t = Inr b \<longleftrightarrow> validBare b \<and> t = restoreTXTQuotes b"
  using validateTXT_iff [of t b] restore_validBare [of b] by auto

text \<open>C30: Every rejection of a TXT target is the sentinel \<^verbatim>\<open>ErrTXTInvalid\<close>, and what is accepted is at most
255 printable bytes without quotes and backslashes.\<close>

theorem txt_rejects:
  "case validateTXT t of Inl e \<Rightarrow> error_is e ErrTXTInvalid
   | Inr b \<Rightarrow> 0 < length b \<and> length b \<le> 255 \<and> list_all txtByte b"
  using validateTXT_iff [of t] validateTXT_error [of t]
  by (auto simp: validBare_def maxTXTBytes_def split: sum.splits)

end
