(* ===== verification/Json.thy ===== *)
theory Json
  imports Txt "HOL-Library.Monad_Syntax"
begin

text \<open>
  What the source uses of \<^verbatim>\<open>encoding/json\<close>: a parsed value, its compact text (an
  \<^verbatim>\<open>UnmarshalJSON\<close> method receives the raw bytes of its value) and the rules by which a
  value is stored into a Go struct.  A key matches a field up to case, a later duplicate is
  stored over an earlier one, an unknown key is ignored, \<^verbatim>\<open>null\<close> leaves a plain field alone and
  a value of the wrong type makes the whole decoding fail (\<^term>\<open>None\<close>).
\<close>

datatype json =
    JNull
  | JBool bool
  | JNum string
  | JStr string
  | JArr "json list"
  | JObj "(string \<times> json) list"

definition hex_digit :: "nat \<Rightarrow> char" where
  "hex_digit d = (if d < 10 then char_of (48 + d) else char_of (87 + d))"

fun escape_char :: "char \<Rightarrow> string" where
  "escape_char c =
     (if c = quote \<or> c = backslash then [backslash, c]
      else let n = of_char c :: nat
           in if n < 32 then [backslash] @ ''u00'' @ [hex_digit (n div 16), hex_digit (n mod 16)]
              else [c])"

fun join_with :: "string \<Rightarrow> string list \<Rightarrow> string" where
  "join_with sep [] = []"
| "join_with sep [s] = s"
| "join_with sep (s # t # ss) = s @ sep @ join_with sep (t # ss)"

definition json_string :: "string \<Rightarrow> string" where
  "json_string s = [quote] @ concat (map escape_char s) @ [quote]"

fun json_raw :: "json \<Rightarrow> string" where
  "json_raw JNull = ''null''"
| "json_raw (JBool b) = (if b then ''true'' else ''false'')"
| "json_raw (JNum s) = s"
| "json_raw (JStr s) = json_string s"
| "json_raw (JArr js) = ''['' @ join_with '','' (map json_raw js) @ '']''"
| "json_raw (JObj ps) =
     ''{'' @ join_with '','' (map (\<lambda>(k, v). json_string k @ '':'' @ json_raw v) ps) @ ''}''"

section \<open>Storing a value into a field\<close>

definition field_values :: "string \<Rightarrow> (string \<times> json) list \<Rightarrow> json list" where
  "field_values name ps = map snd (filter (\<lambda>(k, v). to_lower k = to_lower name) ps)"

fun store_all :: "('a \<Rightarrow> json \<Rightarrow> 'a option) \<Rightarrow> 'a \<Rightarrow> json list \<Rightarrow> 'a option" where
  "store_all d x [] = Some x"
| "store_all d x (v # vs) = (case d x v of None \<Rightarrow> None | Some y \<Rightarrow> store_all d y vs)"

definition dec_field :: "('a \<Rightarrow> json \<Rightarrow> 'a option) \<Rightarrow> 'a \<Rightarrow> string \<Rightarrow> (string \<times> json) list \<Rightarrow> 'a option" where
  "dec_field d zero name ps = store_all d zero (field_values name ps)"

fun store_string :: "string \<Rightarrow> json \<Rightarrow> string option" where
  "store_string x (JStr s) = Some s"
| "store_string x JNull = Some x"
| "store_string x _ = None"

fun store_int :: "int \<Rightarrow> json \<Rightarrow> int option" where
  "store_int x (JNum s) = parse_int s"
| "store_int x JNull = Some x"
| "store_int x _ = None"

definition str_field :: "string \<Rightarrow> (string \<times> json) list \<Rightarrow> string option" where
  "str_field = dec_field store_string []"

definition int_field :: "string \<Rightarrow> (string \<times> json) list \<Rightarrow> int option" where
  "int_field = dec_field store_int 0"

lemma field_values_size:
  "v \<in> set (field_values name ps) \<Longrightarrow> size v < size (JObj ps)"
proof -
  assume "v \<in> set (field_values name ps)"
  then obtain k where "(k, v) \<in> set ps" by (auto simp: field_values_def)
  then have "size_prod (\<lambda>x. 0) size (k, v) \<le> size_list (size_prod (\<lambda>x. 0) size) ps"
    by (rule size_list_estimation') simp
  then show ?thesis by simp
qed

lemma field_values_Nil [simp]: "field_values name [] = []"
  by (simp add: field_values_def)

lemma field_values_Cons:
  "field_values name ((k, v) # ps) =
     (if to_lower k = to_lower name then v # field_values name ps else field_values name ps)"
  by (simp add: field_values_def)

section \<open>The decoders of \<^verbatim>\<open>dto.go\<close> with an \<open>UnmarshalJSON\<close> method\<close>

text \<open>\<^verbatim>\<open>flexBool.UnmarshalJSON\<close> on the raw bytes.\<close>

definition flexBool :: "string \<Rightarrow> bool result" where
  "flexBool data =
     (let s = trim (\<lambda>c. c = quote) (trim_space data)
      in if s = ''true'' \<or> s = ''1'' then Inr True
         else if s = ''false'' \<or> s = ''0'' \<or> s = '''' \<or> s = ''null'' then Inr False
         else Inl (Plain (''opnsense: cannot decode as bool: '' @ s)))"

definition store_flexBool :: "bool \<Rightarrow> json \<Rightarrow> bool option" where
  "store_flexBool x v = (case flexBool (json_raw v) of Inl _ \<Rightarrow> None | Inr b \<Rightarrow> Some b)"

text \<open>\<^verbatim>\<open>StringOrList.UnmarshalJSON\<close>: one message, or a list of messages.\<close>

fun StringOrList :: "json \<Rightarrow> string list option" where
  "StringOrList (JStr s) = Some [s]"
| "StringOrList JNull = Some [[]]"
| "StringOrList (JArr js) = those (map (store_string []) js)"
| "StringOrList _ = None"

text \<open>
  \<^verbatim>\<open>optionField.UnmarshalJSON\<close>: the bare key of a search page, or the option set of
  \<^verbatim>\<open>getHostOverride\<close>, of which exactly one entry is selected.  The set is a Go map, so a key
  that occurs twice keeps its last value.
\<close>

fun dec_option :: "json \<Rightarrow> bool option" where
  "dec_option (JObj ps) = dec_field store_flexBool False ''selected'' ps"
| "dec_option JNull = Some False"
| "dec_option _ = None"

fun optionSet :: "(string \<times> json) list \<Rightarrow> (string \<times> bool) list \<Rightarrow> (string \<times> bool) list option" where
  "optionSet [] m = Some m"
| "optionSet ((k, v) # ps) m =
     (case dec_option v of None \<Rightarrow> None | Some b \<Rightarrow> optionSet ps (AList.update k b m))"

fun optionField :: "json \<Rightarrow> string result" where
  "optionField (JStr s) = Inr s"
| "optionField JNull = Inr []"
| "optionField (JObj ps) =
     (case optionSet ps [] of
        None \<Rightarrow> Inl (Plain ''opnsense: option field is neither a key nor an option set'')
      | Some m \<Rightarrow>
          (let selected = sort (map fst (filter snd m))
           in case selected of
                [k] \<Rightarrow> Inr k
              | [] \<Rightarrow> Inl (Plain ''opnsense: option field has no selected value'')
              | _ \<Rightarrow> Inl (Plain (''opnsense: option field has several selected values: '' @
                        join_with '', '' selected))))"
| "optionField _ = Inl (Plain ''opnsense: option field is neither a key nor an option set'')"

definition store_option :: "string \<Rightarrow> json \<Rightarrow> string option" where
  "store_option x v = (case optionField v of Inl _ \<Rightarrow> None | Inr k \<Rightarrow> Some k)"

lemmas json_defs [go_defs] = hex_digit_def json_string_def dec_field_def str_field_def int_field_def
  flexBool_def store_flexBool_def store_option_def field_values_Cons

lemma dom_optionSet:
  "optionSet ps m = Some m' \<Longrightarrow> fst ` set m' = fst ` set m \<union> fst ` set ps"
proof (induction ps m rule: optionSet.induct)
  case (2 k v ps m)
  then obtain b where "dec_option v = Some b" "optionSet ps (AList.update k b m) = Some m'"
    by (auto split: option.splits)
  with 2 show ?case by (auto simp: dom_update)
qed simp

lemma distinct_optionSet:
  "optionSet ps m = Some m' \<Longrightarrow> distinct (map fst m) \<Longrightarrow> distinct (map fst m')"
  by (induction ps m rule: optionSet.induct) (auto split: option.splits simp: distinct_update)

text \<open>
  The expanded form resolves to a key exactly when that key is the only selected one; the order
  in which the map is walked does not matter.
\<close>

lemma optionField_set:
  assumes "optionSet ps [] = Some m"
  shows "optionField (JObj ps) = Inr k \<longleftrightarrow> {x. map_of m x = Some True} = {k}"
proof -
  have d: "distinct (map fst m)" using distinct_optionSet [OF assms] by simp
  let ?l = "map fst (filter snd m)"
  have s: "set ?l = {x. map_of m x = Some True}"
    using d by (auto simp: map_of_eq_Some_iff image_iff)
  have dl: "distinct ?l" using d by (rule distinct_map_filter)
  have "optionField (JObj ps) = Inr k \<longleftrightarrow> sort ?l = [k]"
    using assms by (auto simp: Let_def split: list.splits)
  also have "\<dots> \<longleftrightarrow> set ?l = {k}"
  proof
    assume "sort ?l = [k]"
    then have "set (sort ?l) = {k}" by simp
    then show "set ?l = {k}" by (simp only: set_sort)
  next
    assume "set ?l = {k}"
    with dl have "?l = [k]" by (intro distinct_singleton)
    then show "sort ?l = [k]" by simp
  qed
  finally show ?thesis by (simp only: s)
qed

section \<open>Property\<close>

text \<open>C32: The expanded form of an option field decodes to a key exactly when that key, and no other, is
selected, in whatever order the map is walked.\<close>

theorem option_field_selected:
  assumes "optionSet ps [] = Some m"
  shows "optionField (JObj ps) = Inr k \<longleftrightarrow> {x. map_of m x = Some True} = {k}"
  using assms by (rule optionField_set)

theorem option_field_selected_witness:
  "optionField (JObj [(''A'', JObj [(''selected'', JNum ''1'')]), (''TXT'', JObj [(''selected'', JNum ''0'')])]) = Inr ''A''"
proof -
  have s: "optionSet [(''A'', JObj [(''selected'', JNum ''1'')]), (''TXT'', JObj [(''selected'', JNum ''0'')])] [] =
      Some [(''A'', True), (''TXT'', False)]" by code_simp
  have "{x. map_of [(''A'', True), (''TXT'', False)] x = Some True} = {''A''}"
    by (auto split: if_splits)
  with option_field_selected [OF s, of "''A''"] show ?thesis by blast
qed

end
