(* ===== verification/Transport.thy ===== *)
theory Transport
  imports Config Metrics Json
begin

text \<open>
  The retry policy of \<^verbatim>\<open>internal/opnsense/transport.go\<close> and what it observes of the network.  The
  network, its clock, the random source and the contexts' deadlines are the record \<open>net\<close>, an
  argument of every definition that talks to the firewall; \<^typ>\<open>'w\<close> is the outside world.
\<close>

section \<open>Contexts, requests, responses\<close>

text \<open>
  A context is the term that built it: what a caller passes is visible to the network's
  \<open>netCtxErr\<close>, which says whether it is already cancelled.
\<close>

datatype ctx =
    CtxBackground
  | CtxRequest nat
  | CtxWithoutCancel ctx
  | CtxWithTimeout ctx int
  | CtxGroup ctx

text \<open>
  A body is unreadable, or its length together with the value its text parses to; \<open>rText\<close> is the
  text itself, of which an error message quotes the beginning.
\<close>

datatype body = BrokenBody error | Body (bodyLen: int) (bodyJson: "json option")

record httpReq =
  qMethod :: string
  qURL :: string
  qAuth :: "string \<times> string"
  qAccept :: string
  qContentType :: string
  qBody :: "json option"

record httpResp =
  rStatus :: int
  rRetryAfter :: string
  rBody :: body
  rText :: string

datatype sendResult = BadRequest error | NetFailure error | Response httpResp

record 'w net =
  netSend :: "ctx \<Rightarrow> httpReq \<Rightarrow> 'w \<Rightarrow> sendResult \<times> 'w"
  netCtxErr :: "ctx \<Rightarrow> 'w \<Rightarrow> error option"
  netSleep :: "ctx \<Rightarrow> int \<Rightarrow> 'w \<Rightarrow> error option \<times> 'w"
  netRand :: "int \<Rightarrow> 'w \<Rightarrow> int \<times> 'w"
  netUntilDate :: "string \<Rightarrow> 'w \<Rightarrow> int option"

section \<open>The transport\<close>

text \<open>
  \<^verbatim>\<open>newHTTPTransport\<close>: reading the bundle and parsing its certificates are arguments.  A bundle wins over
  skipping the verification.
\<close>

definition dialTimeout :: int where "dialTimeout = 10 * second"
definition tlsHandshakeTimeout :: int where "tlsHandshakeTimeout = 10 * second"
definition idleConnTimeout :: int where "idleConnTimeout = 90 * second"

record tlsConfig =
  MinVersion :: nat
  RootCAs :: "string option"
  InsecureSkipVerify :: bool

record httpTransport =
  DialTimeout :: int
  TLSClientConfig :: tlsConfig
  ForceAttemptHTTP2 :: bool
  TLSHandshakeTimeout :: int
  ResponseHeaderTimeout :: int
  IdleConnTimeout :: int
  MaxConnsPerHost :: int
  MaxIdleConnsPerHost :: int

definition tlsFor :: "(string \<Rightarrow> string result) \<Rightarrow> (string \<Rightarrow> bool) \<Rightarrow> config \<Rightarrow> tlsConfig result" where
  "tlsFor readFile appendCerts cfg =
     (let tls12 = \<lparr>MinVersion = 0x0303, RootCAs = None, InsecureSkipVerify = False\<rparr>
      in if cCACertPath cfg \<noteq> [] then
           (case readFile (cCACertPath cfg) of
              Inl e \<Rightarrow> Inl (Wrap (''reading OPNSENSE_CA_CERT '' @ cCACertPath cfg) e)
            | Inr pem \<Rightarrow>
                if \<not> appendCerts pem
                then Inl (Plain (''OPNSENSE_CA_CERT '' @ cCACertPath cfg @ '': no certificates parsed''))
                else Inr (tls12\<lparr>RootCAs := Some pem\<rparr>))
         else if cSkipTLSVerify cfg then Inr (tls12\<lparr>InsecureSkipVerify := True\<rparr>)
         else Inr tls12)"

definition newHTTPTransport ::
  "(string \<Rightarrow> string result) \<Rightarrow> (string \<Rightarrow> bool) \<Rightarrow> config \<Rightarrow> httpTransport result" where
  "newHTTPTransport readFile appendCerts cfg =
     (case tlsFor readFile appendCerts cfg of
        Inl e \<Rightarrow> Inl e
      | Inr tls \<Rightarrow> Inr
          \<lparr>DialTimeout = dialTimeout, TLSClientConfig = tls, ForceAttemptHTTP2 = True,
           TLSHandshakeTimeout = tlsHandshakeTimeout, ResponseHeaderTimeout = cRequestTimeout cfg,
           IdleConnTimeout = idleConnTimeout, MaxConnsPerHost = cApplyWorkers cfg + 2,
           MaxIdleConnsPerHost = cApplyWorkers cfg + 2\<rparr>)"

lemmas transport_consts [go_defs] = dialTimeout_def tlsHandshakeTimeout_def idleConnTimeout_def

section \<open>Operations and the retry policy\<close>

definition opSearchHostOverride :: string where "opSearchHostOverride = ''search_host_override''"
definition opGetHostOverride :: string where "opGetHostOverride = ''get_host_override''"
definition opSetHostOverride :: string where "opSetHostOverride = ''set_host_override''"
definition opDelHostOverride :: string where "opDelHostOverride = ''del_host_override''"
definition opReconfigure :: string where "opReconfigure = ''reconfigure''"
definition opServiceStatus :: string where "opServiceStatus = ''service_status''"
definition opListLocalData :: string where "opListLocalData = ''list_local_data''"

lemmas op_defs [go_defs] = opSearchHostOverride_def opGetHostOverride_def opSetHostOverride_def
  opDelHostOverride_def opReconfigure_def opServiceStatus_def opListLocalData_def

definition idempotentOps :: "string list" where
  "idempotentOps = [opSearchHostOverride, opGetHostOverride, opDelHostOverride, opServiceStatus,
     opListLocalData]"

definition maxRetryAfterSeconds :: int where "maxRetryAfterSeconds = 86400"

definition parseRetryAfter :: "'w net \<Rightarrow> string \<Rightarrow> 'w \<Rightarrow> int" where
  "parseRetryAfter n val w =
     (let val = trim_space val;
          date = (case netUntilDate n val w of Some d \<Rightarrow> if d > 0 then d else 0 | None \<Rightarrow> 0)
      in if val = [] then 0
         else case parse_int val of
                Some secs \<Rightarrow>
                  if secs \<ge> 0
                  then (if secs > maxRetryAfterSeconds then maxRetryAfterSeconds else secs) * second
                  else date
              | None \<Rightarrow> date)"

text \<open>
  \<^verbatim>\<open>backoff\<close>: the shift and the sum are 64-bit, so a shifted-out delay shows as a base that is not
  positive and is replaced by the maximum.
\<close>

definition cmp_or :: "int \<Rightarrow> int \<Rightarrow> int" where
  "cmp_or a b = (if a = 0 then b else a)"

definition backoffBase :: "config \<Rightarrow> nat \<Rightarrow> int" where
  "backoffBase cfg attempt =
     (let initial = cmp_or (cRetryInitialDelay cfg) (500 * millisecond);
          maxDelay = cmp_or (cRetryMaxDelay cfg) (10 * second);
          base = i64 (initial * 2 ^ attempt)
      in if base \<le> 0 \<or> base > maxDelay then maxDelay else base)"

definition backoffWait :: "config \<Rightarrow> int \<Rightarrow> int \<Rightarrow> int \<Rightarrow> int" where
  "backoffWait cfg base jitter hint =
     (let maxDelay = cmp_or (cRetryMaxDelay cfg) (10 * second);
          hint = (if hint > maxDelay then maxDelay else hint);
          wait = max (i64 (base + jitter)) hint
      in if wait > maxDelay then maxDelay else wait)"

definition backoff :: "'w net \<Rightarrow> config \<Rightarrow> nat \<Rightarrow> int \<Rightarrow> 'w \<Rightarrow> int \<times> 'w" where
  "backoff n cfg attempt hint w =
     (let base = backoffBase cfg attempt;
          half = go_div base 2;
          (jitter, w) = (if half > 0 then netRand n half w else (0, w))
      in (backoffWait cfg base jitter hint, w))"

text \<open>
  \<^verbatim>\<open>retryAfter\<close> on the outcome of one attempt.  A request that could not be built is an error that
  is no network error.
\<close>

definition retryAfter ::
  "'w net \<Rightarrow> config \<Rightarrow> string \<Rightarrow> sendResult \<Rightarrow> nat \<Rightarrow> 'w \<Rightarrow> (bool \<times> int) \<times> 'w" where
  "retryAfter n cfg op res attempt w =
     (case res of
        BadRequest e \<Rightarrow> ((False, 0), w)
      | NetFailure e \<Rightarrow>
          if op \<in> set idempotentOps
          then (case backoff n cfg attempt 0 w of (d, w) \<Rightarrow> ((True, d), w))
          else ((False, 0), w)
      | Response r \<Rightarrow>
          if rStatus r = 429
          then (case backoff n cfg attempt (parseRetryAfter n (rRetryAfter r) w) w of (d, w) \<Rightarrow> ((True, d), w))
          else if rStatus r \<ge> 500 \<and> rStatus r < 600 \<and> op \<in> set idempotentOps
          then (case backoff n cfg attempt 0 w of (d, w) \<Rightarrow> ((True, d), w))
          else ((False, 0), w))"

text \<open>Whether an attempt is retried depends on the operation and the outcome alone.\<close>

definition retryable :: "string \<Rightarrow> sendResult \<Rightarrow> bool" where
  "retryable op res \<longleftrightarrow>
     (case res of
        BadRequest e \<Rightarrow> False
      | NetFailure e \<Rightarrow> op \<in> set idempotentOps
      | Response r \<Rightarrow> rStatus r = 429 \<or> rStatus r \<ge> 500 \<and> rStatus r < 600 \<and> op \<in> set idempotentOps)"

lemma retryAfter_fst: "fst (fst (retryAfter n cfg op res attempt w)) = retryable op res"
  by (auto simp: retryAfter_def retryable_def split: sendResult.splits prod.splits)

lemma backoffWait_le: "backoffWait cfg base jitter hint \<le> cmp_or (cRetryMaxDelay cfg) (10 * second)"
  by (auto simp: backoffWait_def Let_def)

lemma backoffWait_ge_hint:
  "min hint (cmp_or (cRetryMaxDelay cfg) (10 * second)) \<le> backoffWait cfg base jitter hint"
  by (simp add: backoffWait_def Let_def)

lemma parseRetryAfter_nonneg: "0 \<le> parseRetryAfter n v w"
  by (auto simp: parseRetryAfter_def Let_def maxRetryAfterSeconds_def second_def millisecond_def
           split: option.splits)

lemma retryAfter_wait_le:
  assumes "retryAfter n cfg op res attempt w = ((True, d), w')"
  shows "d \<le> cmp_or (cRetryMaxDelay cfg) (10 * second)"
  using assms backoffWait_le
  by (auto simp: retryAfter_def backoff_def Let_def split: sendResult.splits if_splits prod.splits)

text \<open>
  With a validated configuration and delays below half the 64-bit range the base is the doubled
  initial delay, clamped: the wait grows with the attempts and never falls below it.
\<close>

lemma backoffBase_exact:
  assumes "validConfig cfg" and "cRetryInitialDelay cfg * 2 ^ attempt < 2 ^ 63"
  shows "backoffBase cfg attempt = min (cRetryInitialDelay cfg * 2 ^ attempt) (cRetryMaxDelay cfg)"
proof -
  let ?i = "cRetryInitialDelay cfg" and ?m = "cRetryMaxDelay cfg"
  have i: "0 < ?i" "?i \<le> ?m"
    using assms(1) by (auto simp: validConfig_def minRetryInitialDelay_def millisecond_def)
  then have "cmp_or ?i (500 * millisecond) = ?i" "cmp_or ?m (10 * second) = ?m"
    by (auto simp: cmp_or_def)
  moreover have "0 < ?i * 2 ^ attempt" using i by simp
  moreover from this assms(2) have "i64 (?i * 2 ^ attempt) = ?i * 2 ^ attempt"
    by (intro i64_id) auto
  ultimately show ?thesis by (simp add: backoffBase_def Let_def)
qed

section \<open>Properties\<close>

text \<open>C36: The firewall's certificate is left unverified only when the operator asked for it and configured no CA
bundle; with a bundle the connection trusts exactly that bundle.\<close>

theorem tls_verified_unless_asked:
  assumes "newHTTPTransport readFile appendCerts cfg = Inr t"
  shows "(InsecureSkipVerify (TLSClientConfig t) \<longleftrightarrow> cSkipTLSVerify cfg \<and> cCACertPath cfg = []) \<and>
    (cCACertPath cfg \<noteq> [] \<longrightarrow> (\<exists>pem. readFile (cCACertPath cfg) = Inr pem \<and> RootCAs (TLSClientConfig t) = Some pem))"
  using assms by (auto simp: newHTTPTransport_def tlsFor_def Let_def split: sum.splits if_splits)

text \<open>C35: An attempt is retried only for a throttled request or for an idempotent operation that failed on the
network or with a server error, and the wait before the retry never exceeds the configured maximum,
whatever the server asks for and whatever the random source answers.\<close>

theorem retry_bounded:
  assumes "retryAfter n cfg op res attempt w = ((True, d), w')"
  shows "retryable op res \<and> d \<le> cmp_or (cRetryMaxDelay cfg) (10 * second)"
  using retryAfter_fst [of n cfg op res attempt w] retryAfter_wait_le [OF assms] by (simp add: assms)

text \<open>Under a validated configuration the base delay is the initial delay doubled once per attempt and
clamped to the maximum, as long as the doubling stays within 64 bits; beyond that it is the maximum.\<close>

theorem backoff_doubles:
  assumes "validConfig cfg" and "cRetryInitialDelay cfg * 2 ^ attempt < 2 ^ 63"
  shows "backoffBase cfg attempt = min (cRetryInitialDelay cfg * 2 ^ attempt) (cRetryMaxDelay cfg)"
  using assms by (rule backoffBase_exact)

end
