(* ===== verification/Dto.thy ===== *)
theory Dto
  imports Json Names
begin

text \<open>
  The data transfer types of \<^verbatim>\<open>internal/opnsense/dto.go\<close>: a host override row as the two read
  endpoints deliver it, the body of a write, the response envelopes and their decoders.  A row
  nests its alias children, so the flat columns are a record and the row a datatype around it.
\<close>

section \<open>Rows and write bodies\<close>

record hostCols =
  UUID :: string
  Enabled :: string
  Hostname :: string
  RowDomain :: string
  RR :: string
  Server :: string
  TXTData :: string
  MX :: string
  MXPrio :: string
  TTL :: string
  AddPTR :: string
  Description :: string
  IsAlias :: bool

datatype hostRow = HostRow (cols: hostCols) (Children: "hostRow list")

record hostFields =
  fEnabled :: string
  fHostname :: string
  fDomain :: string
  fRR :: string
  fServer :: string
  fTXTData :: string
  fTTL :: string
  fAddPTR :: string
  fDescription :: string

text \<open>The record types of \<^verbatim>\<open>types.go\<close>, and the kinds of record a phase selects.\<close>

definition recordTypeA :: string where "recordTypeA = ''A''"
definition recordTypeAAAA :: string where "recordTypeAAAA = ''AAAA''"
definition recordTypeTXT :: string where "recordTypeTXT = ''TXT''"
definition recordTypeMX :: string where "recordTypeMX = ''MX''"

lemmas record_types [go_defs] = recordTypeA_def recordTypeAAAA_def recordTypeTXT_def recordTypeMX_def

definition enabledCols :: "hostCols \<Rightarrow> bool" where
  "enabledCols c \<longleftrightarrow> Enabled c \<noteq> ''0'' \<and> Enabled c \<noteq> ''''"

abbreviation enabled :: "hostRow \<Rightarrow> bool" where
  "enabled r \<equiv> enabledCols (cols r)"

definition ttlValue :: "hostRow \<Rightarrow> int" where
  "ttlValue r = parseTTL (TTL (cols r))"

definition rowTarget :: "hostRow \<Rightarrow> string" where
  "rowTarget r =
     (if RR (cols r) = recordTypeTXT then restoreTXTQuotes (TXTData (cols r))
      else if RR (cols r) = recordTypeMX then MXPrio (cols r) @ '' '' @ MX (cols r)
      else Server (cols r))"

text \<open>\<^verbatim>\<open>hostRow.bareTarget\<close> of \<^verbatim>\<open>snapshot.go\<close> and \<^verbatim>\<open>hostFields.target\<close>: the value compared on write.\<close>

definition bareTarget :: "hostRow \<Rightarrow> string" where
  "bareTarget r = (if RR (cols r) = recordTypeTXT then TXTData (cols r) else Server (cols r))"

definition fieldsTarget :: "hostFields \<Rightarrow> string" where
  "fieldsTarget f = (if fRR f = recordTypeTXT then fTXTData f else fServer f)"

text \<open>\<^verbatim>\<open>hasEnabledChildren\<close> of \<^verbatim>\<open>apply.go\<close>, the delete guard.\<close>

definition hasEnabledChildren :: "hostRow \<Rightarrow> bool" where
  "hasEnabledChildren r = list_ex enabled (Children r)"

definition zeroCols :: hostCols where
  "zeroCols = \<lparr>UUID = [], Enabled = [], Hostname = [], RowDomain = [], RR = [], Server = [],
     TXTData = [], MX = [], MXPrio = [], TTL = [], AddPTR = [], Description = [], IsAlias = False\<rparr>"

lemmas dto_defs [go_defs] = enabledCols_def ttlValue_def rowTarget_def bareTarget_def
  fieldsTarget_def hasEnabledChildren_def zeroCols_def

section \<open>Record-set keys\<close>

text \<open>\<^verbatim>\<open>rowKey\<close> of \<^verbatim>\<open>snapshot.go\<close>, ordered by name and then by type as \<^verbatim>\<open>Endpoints\<close> sorts.\<close>

datatype rowKey = RowKey (kname: string) (krr: string)

instantiation rowKey :: linorder
begin

definition less_eq_rowKey :: "rowKey \<Rightarrow> rowKey \<Rightarrow> bool" where
  "less_eq_rowKey a b \<longleftrightarrow> kname a < kname b \<or> kname a = kname b \<and> krr a \<le> krr b"

definition less_rowKey :: "rowKey \<Rightarrow> rowKey \<Rightarrow> bool" where
  "less_rowKey a b \<longleftrightarrow> kname a < kname b \<or> kname a = kname b \<and> krr a < krr b"

instance
  by standard (auto simp: less_eq_rowKey_def less_rowKey_def rowKey.expand)

end

definition rowKeyOf :: "hostRow \<Rightarrow> rowKey" where
  "rowKeyOf r = RowKey (joinName (Hostname (cols r)) (RowDomain (cols r))) (RR (cols r))"

definition fieldsKey :: "hostFields \<Rightarrow> rowKey" where
  "fieldsKey f = RowKey (joinName (fHostname f) (fDomain f)) (fRR f)"

text \<open>
  \<^verbatim>\<open>index\<close> files a row only when it is served: enabled and not an alias.
\<close>

definition indexed :: "hostRow \<Rightarrow> bool" where
  "indexed r \<longleftrightarrow> enabled r \<and> \<not> IsAlias (cols r)"

section \<open>Decoding a row\<close>

text \<open>\<^verbatim>\<open>hostRow.UnmarshalJSON\<close>: every column by its own rule, \<^verbatim>\<open>rr\<close> through \<^verbatim>\<open>optionField\<close>.\<close>

definition dec_cols :: "(string \<times> json) list \<Rightarrow> hostCols option" where
  "dec_cols ps = do {
     uuid \<leftarrow> str_field ''uuid'' ps;
     en \<leftarrow> str_field ''enabled'' ps;
     host \<leftarrow> str_field ''hostname'' ps;
     dom \<leftarrow> str_field ''domain'' ps;
     rr \<leftarrow> dec_field store_option [] ''rr'' ps;
     server \<leftarrow> str_field ''server'' ps;
     txt \<leftarrow> str_field ''txtdata'' ps;
     mx \<leftarrow> str_field ''mx'' ps;
     prio \<leftarrow> str_field ''mxprio'' ps;
     ttl \<leftarrow> str_field ''ttl'' ps;
     ptr \<leftarrow> str_field ''addptr'' ps;
     descr \<leftarrow> str_field ''description'' ps;
     alias \<leftarrow> dec_field store_flexBool False ''isAlias'' ps;
     Some \<lparr>UUID = uuid, Enabled = en, Hostname = host, RowDomain = dom, RR = rr, Server = server,
       TXTData = txt, MX = mx, MXPrio = prio, TTL = ttl, AddPTR = ptr, Description = descr,
       IsAlias = alias\<rparr> }"

function dec_row :: "json \<Rightarrow> hostRow option" where
  "dec_row JNull = Some (HostRow zeroCols [])"
| "dec_row (JObj ps) =
     (case those (map (\<lambda>v. case v of JArr js \<Rightarrow> those (map dec_row js) | JNull \<Rightarrow> Some [] | _ \<Rightarrow> None)
                      (field_values ''_children'' ps)) of
        None \<Rightarrow> None
      | Some kids \<Rightarrow> map_option (\<lambda>c. HostRow c (if kids = [] then [] else last kids)) (dec_cols ps))"
| "dec_row (JBool b) = None"
| "dec_row (JNum s) = None"
| "dec_row (JStr s) = None"
| "dec_row (JArr js) = None"
  by pat_completeness auto
termination
proof (relation "measure size")
  fix ps v js x
  assume v: "v \<in> set (field_values ''_children'' ps)" and js: "v = JArr js" and x: "x \<in> set js"
  have "size x < size v" using x js by (induction js arbitrary: v) auto
  also have "size v < size (JObj ps)" by (rule field_values_size) (rule v)
  finally show "(x, JObj ps) \<in> measure size" by simp
qed simp

section \<open>Response envelopes\<close>

record searchPage =
  pgRows :: "hostRow list"
  pgRowCount :: int
  pgTotal :: int
  pgCurrent :: int

record writeResponse =
  wResult :: string
  wUUID :: string
  wValidations :: "(string \<times> string list) list"

record localData =
  ldName :: string
  ldTTL :: string
  ldType :: string
  ldRRType :: string
  ldValue :: string

fun store_rows :: "hostRow list \<Rightarrow> json \<Rightarrow> hostRow list option" where
  "store_rows x (JArr js) = those (map dec_row js)"
| "store_rows x JNull = Some []"
| "store_rows x _ = None"

fun dec_searchPage :: "json \<Rightarrow> searchPage option" where
  "dec_searchPage JNull = Some \<lparr>pgRows = [], pgRowCount = 0, pgTotal = 0, pgCurrent = 0\<rparr>"
| "dec_searchPage (JObj ps) = do {
     rs \<leftarrow> dec_field store_rows [] ''rows'' ps;
     n \<leftarrow> int_field ''rowCount'' ps;
     t \<leftarrow> int_field ''total'' ps;
     c \<leftarrow> int_field ''current'' ps;
     Some \<lparr>pgRows = rs, pgRowCount = n, pgTotal = t, pgCurrent = c\<rparr> }"
| "dec_searchPage _ = None"

fun store_validations ::
  "(string \<times> string list) list \<Rightarrow> json \<Rightarrow> (string \<times> string list) list option" where
  "store_validations m JNull = Some []"
| "store_validations m (JObj ps) =
     fold (\<lambda>(k, v) acc. case (acc, StringOrList v) of
             (Some m', Some ms) \<Rightarrow> Some (AList.update k ms m') | _ \<Rightarrow> None) ps (Some m)"
| "store_validations m _ = None"

fun dec_writeResponse :: "json \<Rightarrow> writeResponse option" where
  "dec_writeResponse JNull = Some \<lparr>wResult = [], wUUID = [], wValidations = []\<rparr>"
| "dec_writeResponse (JObj ps) = do {
     r \<leftarrow> str_field ''result'' ps;
     u \<leftarrow> str_field ''uuid'' ps;
     v \<leftarrow> dec_field store_validations [] ''validations'' ps;
     Some \<lparr>wResult = r, wUUID = u, wValidations = v\<rparr> }"
| "dec_writeResponse _ = None"

fun dec_statusResponse :: "json \<Rightarrow> string option" where
  "dec_statusResponse JNull = Some []"
| "dec_statusResponse (JObj ps) = str_field ''status'' ps"
| "dec_statusResponse _ = None"

fun store_row :: "hostRow \<Rightarrow> json \<Rightarrow> hostRow option" where
  "store_row x v = dec_row v"

fun dec_getHostResponse :: "json \<Rightarrow> hostRow option" where
  "dec_getHostResponse JNull = Some (HostRow zeroCols [])"
| "dec_getHostResponse (JObj ps) = dec_field store_row (HostRow zeroCols []) ''host'' ps"
| "dec_getHostResponse _ = None"

fun dec_localData :: "json \<Rightarrow> localData option" where
  "dec_localData JNull = Some \<lparr>ldName = [], ldTTL = [], ldType = [], ldRRType = [], ldValue = []\<rparr>"
| "dec_localData (JObj ps) = do {
     n \<leftarrow> str_field ''name'' ps;
     t \<leftarrow> str_field ''ttl'' ps;
     ty \<leftarrow> str_field ''type'' ps;
     rr \<leftarrow> str_field ''rrtype'' ps;
     v \<leftarrow> str_field ''value'' ps;
     Some \<lparr>ldName = n, ldTTL = t, ldType = ty, ldRRType = rr, ldValue = v\<rparr> }"
| "dec_localData _ = None"

fun store_localData :: "localData list \<Rightarrow> json \<Rightarrow> localData list option" where
  "store_localData x (JArr js) = those (map dec_localData js)"
| "store_localData x JNull = Some []"
| "store_localData x _ = None"

fun dec_localDataResponse :: "json \<Rightarrow> localData list option" where
  "dec_localDataResponse JNull = Some []"
| "dec_localDataResponse (JObj ps) =
     (case str_field ''status'' ps of None \<Rightarrow> None | Some _ \<Rightarrow> dec_field store_localData [] ''data'' ps)"
| "dec_localDataResponse _ = None"

section \<open>Request bodies and the outcome of a write\<close>

text \<open>\<^verbatim>\<open>json.Marshal\<close> of a search request and of a write payload: struct fields in order.\<close>

definition searchRequest :: "int \<Rightarrow> int \<Rightarrow> json" where
  "searchRequest current rowCount =
     JObj [(''current'', JNum (format_int current)), (''rowCount'', JNum (format_int rowCount)),
       (''sort'', JObj [(''domain'', JStr ''asc''), (''hostname'', JStr ''asc''),
                        (''rr'', JStr ''asc''), (''server'', JStr ''asc'')]),
       (''searchPhrase'', JStr [])]"

definition hostPayload :: "hostFields \<Rightarrow> json" where
  "hostPayload f = JObj [(''host'', JObj
     [(''enabled'', JStr (fEnabled f)), (''hostname'', JStr (fHostname f)),
      (''domain'', JStr (fDomain f)), (''rr'', JStr (fRR f)), (''server'', JStr (fServer f)),
      (''txtdata'', JStr (fTXTData f)), (''ttl'', JStr (fTTL f)), (''addptr'', JStr (fAddPTR f)),
      (''description'', JStr (fDescription f))])]"

definition opAddHostOverride :: string where "opAddHostOverride = ''add_host_override''"

definition writeErr :: "writeResponse \<Rightarrow> string \<Rightarrow> error option" where
  "writeErr w operation =
     (if wResult w = ''saved'' \<and> operation = opAddHostOverride \<and> wUUID w = [] then
        Some (WriteError operation ''saved without uuid'' [])
      else if wResult w = ''saved'' then None
      else Some (WriteError operation (wResult w) (wValidations w)))"

lemma writeErr_None:
  "writeErr w op = None \<longleftrightarrow> wResult w = ''saved'' \<and> (op = opAddHostOverride \<longrightarrow> wUUID w \<noteq> [])"
  by (auto simp: writeErr_def)

end
