(* ===== verification/Client.thy ===== *)
theory Client
  imports Transport Dto
begin

text \<open>
  \<^verbatim>\<open>internal/opnsense/client.go\<close>: one operation with its retry loop, the decoding of a response
  body, and one definition per API call.  The state a call threads is the outside world together
  with the client's own metrics.  Every mutating call holds the client's write mutex for its
  whole duration, so calls do not overlap and are composed in sequence.
\<close>

record 'w cworld =
  nw :: 'w
  cmets :: metrics

definition count :: "(metrics \<Rightarrow> metrics) \<Rightarrow> 'w cworld \<Rightarrow> 'w cworld" where
  "count f s = s\<lparr>cmets := f (cmets s)\<rparr>"

definition pathSearch :: string where "pathSearch = ''/api/unbound/settings/searchHostOverride''"
definition pathGet :: string where "pathGet = ''/api/unbound/settings/getHostOverride/''"
definition pathAdd :: string where "pathAdd = ''/api/unbound/settings/addHostOverride''"
definition pathSet :: string where "pathSet = ''/api/unbound/settings/setHostOverride/''"
definition pathDel :: string where "pathDel = ''/api/unbound/settings/delHostOverride/''"
definition pathReconfigure :: string where "pathReconfigure = ''/api/unbound/service/reconfigure''"
definition pathStatus :: string where "pathStatus = ''/api/unbound/service/status''"
definition pathListLocal :: string where "pathListLocal = ''/api/unbound/diagnostics/listlocaldata''"

definition maxResponseBytes :: int where "maxResponseBytes = 8 * 2 ^ 20"
definition maxLocalDataBytes :: int where "maxLocalDataBytes = 64 * 2 ^ 20"

lemmas path_defs [go_defs] = pathSearch_def pathGet_def pathAdd_def pathSet_def pathDel_def
  pathReconfigure_def pathStatus_def pathListLocal_def maxResponseBytes_def maxLocalDataBytes_def

section \<open>One attempt and one body\<close>

definition once ::
  "'w net \<Rightarrow> config \<Rightarrow> ctx \<Rightarrow> string \<Rightarrow> string \<Rightarrow> string \<Rightarrow> json option \<Rightarrow> 'w cworld \<Rightarrow> sendResult \<times> 'w cworld" where
  "once n cfg ctx op method path body s =
     (let req = \<lparr>qMethod = method, qURL = cHost cfg @ path, qAuth = (cAPIKey cfg, cAPISecret cfg),
                 qAccept = ''application/json'',
                 qContentType = (if body = None then [] else ''application/json; charset=utf-8''),
                 qBody = body\<rparr>
      in case netSend n (CtxWithTimeout ctx (cRequestTimeout cfg)) req (nw s) of
           (NetFailure e, w) \<Rightarrow> (NetFailure (NetworkError op e), s\<lparr>nw := w\<rparr>)
         | (res, w) \<Rightarrow> (res, s\<lparr>nw := w\<rparr>))"

definition decodeBody :: "httpResp \<Rightarrow> string \<Rightarrow> (json \<Rightarrow> 'a option) \<Rightarrow> int \<Rightarrow> int \<times> 'a result" where
  "decodeBody resp op dest maxBytes =
     (case rBody resp of
        BrokenBody e \<Rightarrow> (0, Inl (DataError op e))
      | Body len j \<Rightarrow>
          if len > maxBytes then (maxBytes + 1, Inl (DataError op (Plain ''response exceeds the limit'')))
          else (case Option.bind j dest of
                  None \<Rightarrow> (len, Inl (DataError op (Plain ''cannot decode'')))
                | Some x \<Rightarrow> (len, Inr x)))"

definition errorBodyBufSize :: nat where "errorBodyBufSize = 512"

definition apiError :: "httpResp \<Rightarrow> string \<Rightarrow> error" where
  "apiError resp op = APIError op (rStatus resp) (trim_space (take errorBodyBufSize (rText resp)))"

definition finalError :: "sendResult \<Rightarrow> string \<Rightarrow> error" where
  "finalError res op =
     (case res of BadRequest e \<Rightarrow> e | NetFailure e \<Rightarrow> e | Response r \<Rightarrow> apiError r op)"

section \<open>The retry loop\<close>

text \<open>
  \<^verbatim>\<open>do\<close>: \<open>left\<close> counts the attempts after this one, so \<open>left = 0\<close> is the code's
  \<^verbatim>\<open>attempt == attempts-1\<close>.  The result carries the size of the decoded body for the metrics.
\<close>

definition succeeded :: "sendResult \<Rightarrow> httpResp option" where
  "succeeded res = (case res of Response r \<Rightarrow> if rStatus r < 400 then Some r else None | _ \<Rightarrow> None)"

definition tooMany :: "sendResult \<Rightarrow> bool" where
  "tooMany res = (case res of Response r \<Rightarrow> rStatus r = 429 | _ \<Rightarrow> False)"

definition statusLabel :: "sendResult \<Rightarrow> string" where
  "statusLabel res = (case res of Response r \<Rightarrow> format_int (rStatus r) | _ \<Rightarrow> ''network'')"

fun doLoop ::
  "'w net \<Rightarrow> config \<Rightarrow> ctx \<Rightarrow> string \<Rightarrow> string \<Rightarrow> string \<Rightarrow> json option \<Rightarrow> (json \<Rightarrow> 'a option) \<Rightarrow> int \<Rightarrow>
   nat \<Rightarrow> nat \<Rightarrow> 'w cworld \<Rightarrow> (int \<times> 'a result) \<times> 'w cworld" where
  "doLoop n cfg ctx op method path body dest maxBytes left attempt s =
     (case (if attempt > 0 then netCtxErr n ctx (nw s) else None) of
        Some cerr \<Rightarrow> ((0, Inl cerr), s)
      | None \<Rightarrow>
          (case once n cfg ctx op method path body s of (res, s) \<Rightarrow>
             (case succeeded res of
                Some r \<Rightarrow> (decodeBody r op dest maxBytes, s)
              | None \<Rightarrow>
                  (let s = (if tooMany res then count (inc (APIRateLimits op)) s else s)
                   in case retryAfter n cfg op res attempt (nw s) of ((retry, wait), w) \<Rightarrow>
                     (let s = s\<lparr>nw := w\<rparr>
                      in if \<not> retry then ((0, Inl (finalError res op)), s)
                         else case left of 0 \<Rightarrow> ((0, Inl (finalError res op)), s)
                         | Suc left' \<Rightarrow>
                             (let s = count (inc (APIRetries op (statusLabel res))) s
                              in case netSleep n ctx wait (nw s) of
                                   (Some serr, w) \<Rightarrow> ((0, Inl serr), s\<lparr>nw := w\<rparr>)
                                 | (None, w) \<Rightarrow>
                                     doLoop n cfg ctx op method path body dest maxBytes left'
                                       (Suc attempt) (s\<lparr>nw := w\<rparr>)))))))"

declare doLoop.simps [simp del]

definition isInl :: "'a + 'b \<Rightarrow> bool" where
  "isInl x = (case x of Inl _ \<Rightarrow> True | Inr _ \<Rightarrow> False)"

definition doCall ::
  "'w net \<Rightarrow> config \<Rightarrow> ctx \<Rightarrow> string \<Rightarrow> string \<Rightarrow> string \<Rightarrow> json option \<Rightarrow> (json \<Rightarrow> 'a option) \<Rightarrow> int \<Rightarrow>
   'w cworld \<Rightarrow> 'a result \<times> 'w cworld" where
  "doCall n cfg ctx op method path body dest maxBytes s =
     (case doLoop n cfg ctx op method path body dest maxBytes (nat (max (cRetryAttempts cfg) 1) - 1) 0 s of
        ((sz, res), s) \<Rightarrow> (res, count (RecordAPICall op sz (isInl res)) s))"

section \<open>The API calls\<close>

definition SearchHostOverrides ::
  "'w net \<Rightarrow> config \<Rightarrow> ctx \<Rightarrow> int \<Rightarrow> int \<Rightarrow> 'w cworld \<Rightarrow> searchPage result \<times> 'w cworld" where
  "SearchHostOverrides n cfg ctx current rowCount s =
     (case doCall n cfg ctx opSearchHostOverride ''POST'' pathSearch (Some (searchRequest current rowCount))
             dec_searchPage maxResponseBytes s of
        (Inl e, s) \<Rightarrow> (Inl e, s)
      | (Inr page, s) \<Rightarrow> (Inr page, count (inc PagesFetched) s))"

definition withUUID :: "string \<Rightarrow> hostRow \<Rightarrow> hostRow" where
  "withUUID u r = HostRow ((cols r)\<lparr>UUID := u\<rparr>) (Children r)"

definition GetHostOverride ::
  "'w net \<Rightarrow> config \<Rightarrow> ctx \<Rightarrow> string \<Rightarrow> 'w cworld \<Rightarrow> hostRow result \<times> 'w cworld" where
  "GetHostOverride n cfg ctx uuid s =
     (case doCall n cfg ctx opGetHostOverride ''GET'' (pathGet @ uuid) None
             dec_getHostResponse maxResponseBytes s of
        (Inl e, s) \<Rightarrow> (Inl e, s)
      | (Inr row, s) \<Rightarrow>
          if Hostname (cols row) = [] \<and> RR (cols row) = []
          then (Inl (APIError opGetHostOverride 404 (''no such uuid '' @ uuid)), s)
          else (Inr (withUUID uuid row), s))"

definition AddHostOverride ::
  "'w net \<Rightarrow> config \<Rightarrow> ctx \<Rightarrow> hostFields \<Rightarrow> 'w cworld \<Rightarrow> string result \<times> 'w cworld" where
  "AddHostOverride n cfg ctx h s =
     (case doCall n cfg ctx opAddHostOverride ''POST'' pathAdd (Some (hostPayload h))
             dec_writeResponse maxResponseBytes s of
        (Inl e, s) \<Rightarrow> (Inl e, s)
      | (Inr out, s) \<Rightarrow>
          (case writeErr out opAddHostOverride of Some e \<Rightarrow> (Inl e, s) | None \<Rightarrow> (Inr (wUUID out), s)))"

definition SetHostOverride ::
  "'w net \<Rightarrow> config \<Rightarrow> ctx \<Rightarrow> string \<Rightarrow> hostFields \<Rightarrow> 'w cworld \<Rightarrow> error option \<times> 'w cworld" where
  "SetHostOverride n cfg ctx uuid h s =
     (case doCall n cfg ctx opSetHostOverride ''POST'' (pathSet @ uuid) (Some (hostPayload h))
             dec_writeResponse maxResponseBytes s of
        (Inl e, s) \<Rightarrow> (Some e, s)
      | (Inr out, s) \<Rightarrow> (writeErr out opSetHostOverride, s))"

text \<open>
  \<^verbatim>\<open>DelHostOverride\<close> answers true for a deleted row and false for one already gone.  A body that
  reports \<^verbatim>\<open>saved\<close> takes the default branch, whose error is nil: the code then returns false
  without an error.
\<close>

definition DelHostOverride ::
  "'w net \<Rightarrow> config \<Rightarrow> ctx \<Rightarrow> string \<Rightarrow> 'w cworld \<Rightarrow> bool result \<times> 'w cworld" where
  "DelHostOverride n cfg ctx uuid s =
     (case doCall n cfg ctx opDelHostOverride ''POST'' (pathDel @ uuid) (Some (JObj []))
             dec_writeResponse maxResponseBytes s of
        (Inl e, s) \<Rightarrow> (Inl e, s)
      | (Inr out, s) \<Rightarrow>
          if wResult out = ''deleted'' then (Inr True, s)
          else if wResult out = ''not found'' then (Inr False, s)
          else (case writeErr out opDelHostOverride of Some e \<Rightarrow> (Inl e, s) | None \<Rightarrow> (Inr False, s)))"

definition ReconfigureCall :: "'w net \<Rightarrow> config \<Rightarrow> ctx \<Rightarrow> 'w cworld \<Rightarrow> error option \<times> 'w cworld" where
  "ReconfigureCall n cfg ctx s =
     (case doCall n cfg ctx opReconfigure ''POST'' pathReconfigure (Some (JObj []))
             dec_statusResponse maxResponseBytes s of
        (Inl e, s) \<Rightarrow> (Some e, s)
      | (Inr status, s) \<Rightarrow>
          if status \<noteq> ''ok'' then (Some (APIError opReconfigure 200 (''status '' @ status)), s)
          else (None, s))"

definition ServiceStatus :: "'w net \<Rightarrow> config \<Rightarrow> ctx \<Rightarrow> 'w cworld \<Rightarrow> error option \<times> 'w cworld" where
  "ServiceStatus n cfg ctx s =
     (case doCall n cfg ctx opServiceStatus ''GET'' pathStatus None
             dec_statusResponse maxResponseBytes s of
        (Inl e, s) \<Rightarrow> (Some e, s)
      | (Inr status, s) \<Rightarrow>
          if status = [] then (Some (APIError opServiceStatus 200 ''empty status''), s) else (None, s))"

definition ListLocalData ::
  "'w net \<Rightarrow> config \<Rightarrow> ctx \<Rightarrow> 'w cworld \<Rightarrow> localData list result \<times> 'w cworld" where
  "ListLocalData n cfg ctx s =
     doCall n cfg ctx opListLocalData ''POST'' pathListLocal (Some (JObj []))
       dec_localDataResponse maxLocalDataBytes s"

section \<open>How often a request is sent\<close>

text \<open>
  The monitor \<open>counted\<close> wraps a network and counts the requests sent through it, so that a bound
  on the count is a bound for any network whatsoever.
\<close>

definition counted :: "'w net \<Rightarrow> ('w \<times> sendResult list) net" where
  "counted n =
     \<lparr>netSend = (\<lambda>c r (w, log). case netSend n c r w of (res, w') \<Rightarrow> (res, (w', log @ [res]))),
      netCtxErr = (\<lambda>c (w, log). netCtxErr n c w),
      netSleep = (\<lambda>c d (w, log). case netSleep n c d w of (e, w') \<Rightarrow> (e, (w', log))),
      netRand = (\<lambda>k (w, log). case netRand n k w of (j, w') \<Rightarrow> (j, (w', log))),
      netUntilDate = (\<lambda>v (w, log). netUntilDate n v w)\<rparr>"


lemma count_nw [simp]: "nw (count f s) = nw s"
  by (simp add: count_def)

lemma retryable_wrap [simp]: "retryable op (NetFailure e) = retryable op (NetFailure e')"
  by (simp add: retryable_def)

lemma counted_once:
  assumes "once (counted n) cfg ctx op method path body s = (res, s')"
  obtains r where "snd (nw s') = snd (nw s) @ [r]" and "retryable op r = retryable op res"
    and "succeeded r = succeeded res"
proof -
  obtain r w where "netSend n (CtxWithTimeout ctx (cRequestTimeout cfg))
      \<lparr>qMethod = method, qURL = cHost cfg @ path, qAuth = (cAPIKey cfg, cAPISecret cfg),
       qAccept = ''application/json'',
       qContentType = (if body = None then [] else ''application/json; charset=utf-8''),
       qBody = body\<rparr> (fst (nw s)) = (r, w)" by fastforce
  with assms show thesis
    by (intro that [of r])
       (auto simp: once_def counted_def Let_def succeeded_def retryable_def
             split: sendResult.splits prod.splits)
qed

lemma counted_retryAfter:
  "retryAfter (counted n) cfg op res attempt w = (x, w') \<Longrightarrow> snd w' = snd w"
  by (auto simp: retryAfter_def backoff_def counted_def Let_def
           split: sendResult.splits prod.splits if_splits)

lemma counted_sleep: "netSleep (counted n) ctx d w = (e, w') \<Longrightarrow> snd w' = snd w"
  by (auto simp: counted_def split: prod.splits)

lemma doLoop_sent:
  assumes "doLoop (counted n) cfg ctx op method path body dest maxBytes left attempt s = (res, s')"
  shows "\<exists>sent. snd (nw s') = snd (nw s) @ sent \<and> length sent \<le> Suc left \<and>
           (\<forall>r \<in> set (butlast sent). retryable op r)"
  using assms
proof (induction left arbitrary: attempt s)
  let ?once = "once (counted n) cfg ctx op method path body"
  let ?D = "doLoop (counted n) cfg ctx op method path body dest maxBytes"
  case 0
  show ?case
  proof (cases "if attempt > 0 then netCtxErr (counted n) ctx (nw s) else None")
    case (Some e)
    with 0 have "s' = s" by (subst (asm) doLoop.simps) simp
    then show ?thesis by (intro exI [of _ "[]"]) simp
  next
    case None
    obtain o1 s1 where o: "?once s = (o1, s1)" by fastforce
    then obtain r where r: "snd (nw s1) = snd (nw s) @ [r]" by (rule counted_once)
    have "snd (nw s') = snd (nw s1)"
      using 0 None o
      by (subst (asm) doLoop.simps)
         (auto simp: Let_def split: option.splits prod.splits if_splits dest: counted_retryAfter)
    with r show ?thesis by (intro exI [of _ "[r]"]) simp
  qed
next
  let ?once = "once (counted n) cfg ctx op method path body"
  case (Suc left)
  show ?case
  proof (cases "if attempt > 0 then netCtxErr (counted n) ctx (nw s) else None")
    case (Some e)
    with Suc.prems have "s' = s" by (subst (asm) doLoop.simps) simp
    then show ?thesis by (intro exI [of _ "[]"]) simp
  next
    case nc: None
    obtain o1 s1 where o: "?once s = (o1, s1)" by fastforce
    then obtain r where r: "snd (nw s1) = snd (nw s) @ [r]" "retryable op r = retryable op o1"
      by (rule counted_once)
    have "snd (nw s') = snd (nw s1) \<or>
        (\<exists>s2. snd (nw s2) = snd (nw s1) \<and> retryable op o1 \<and>
           doLoop (counted n) cfg ctx op method path body dest maxBytes left (Suc attempt) s2 = (res, s'))"
    proof (cases "succeeded o1")
      case (Some r)
      with Suc.prems nc o show ?thesis by (subst (asm) doLoop.simps) simp
    next
      case ns: None
      let ?s2 = "if tooMany o1 then count (inc (APIRateLimits op)) s1 else s1"
      obtain retry wait w where ra: "retryAfter (counted n) cfg op o1 attempt (nw ?s2) = ((retry, wait), w)"
        by (metis surj_pair)
      obtain e w' where sl: "netSleep (counted n) ctx wait w = (e, w')" by (metis surj_pair)
      have w: "snd w = snd (nw s1)" using counted_retryAfter [OF ra] by (simp split: if_splits)
      moreover have "snd w' = snd w" using sl by (rule counted_sleep)
      moreover have "retry = retryable op o1" using ra retryAfter_fst by (metis fst_conv)
      moreover let ?s3 = "(count (inc (APIRetries op (statusLabel o1))) (?s2\<lparr>nw := w\<rparr>))\<lparr>nw := w'\<rparr>"
      have "doLoop (counted n) cfg ctx op method path body dest maxBytes (Suc left) attempt s =
        (if \<not> retry then ((0, Inl (finalError o1 op)), ?s2\<lparr>nw := w\<rparr>)
         else case e of Some serr \<Rightarrow> ((0, Inl serr), ?s3)
              | None \<Rightarrow> doLoop (counted n) cfg ctx op method path body dest maxBytes left (Suc attempt) ?s3)"
        using nc o ns ra sl
        by (subst doLoop.simps) (cases retry; cases e; simp add: Let_def)
      moreover have "snd (nw ?s3) = snd w'" by simp
      ultimately show ?thesis
        using Suc.prems
        by (cases "retry \<and> e = None"; (intro disjI2 exI [of _ ?s3]; simp; fail)?)
           (cases retry; cases e; auto)
    qed
    then show ?thesis
    proof
      assume "snd (nw s') = snd (nw s1)"
      with r show ?thesis by (intro exI [of _ "[r]"]) simp
    next
      assume "\<exists>s2. snd (nw s2) = snd (nw s1) \<and> retryable op o1 \<and>
        doLoop (counted n) cfg ctx op method path body dest maxBytes left (Suc attempt) s2 = (res, s')"
      then obtain s2 where s2: "snd (nw s2) = snd (nw s1)" "retryable op o1"
        "doLoop (counted n) cfg ctx op method path body dest maxBytes left (Suc attempt) s2 = (res, s')"
        by blast
      from Suc.IH [OF s2(3)] obtain sent where
        "snd (nw s') = snd (nw s2) @ sent" "length sent \<le> Suc left" "\<forall>r \<in> set (butlast sent). retryable op r"
        by blast
      with r s2 show ?thesis by (intro exI [of _ "r # sent"]) auto
    qed
  qed
qed

section \<open>Properties\<close>

text \<open>C33: A call sends at most \<^verbatim>\<open>RetryAttempts\<close> requests, and every request but the last ended in an outcome the
retry policy allows to repeat; this holds for any network.\<close>

theorem calls_bounded:
  assumes "doCall (counted n) cfg ctx op method path body dest maxBytes s = (res, s')"
  shows "\<exists>sent. snd (nw s') = snd (nw s) @ sent \<and> int (length sent) \<le> max (cRetryAttempts cfg) 1 \<and>
    list_all (retryable op) (butlast sent)"
proof -
  obtain x s1 where l: "doLoop (counted n) cfg ctx op method path body dest maxBytes
      (nat (max (cRetryAttempts cfg) 1) - 1) 0 s = (x, s1)" by fastforce
  with assms have "nw s' = nw s1" by (auto simp: doCall_def split: prod.splits)
  with doLoop_sent [OF l] show ?thesis by (auto simp: list_all_iff)
qed

text \<open>C34: A create, an update and a reload are never sent again after a network error or a server error: every
request but the last was answered with status 429, so the firewall cannot have acted on it.\<close>

theorem writes_not_repeated:
  assumes "doCall (counted n) cfg ctx op method path body dest maxBytes s = (res, s')"
    and "op = opAddHostOverride \<or> op = opSetHostOverride \<or> op = opReconfigure"
  shows "\<exists>sent. snd (nw s') = snd (nw s) @ sent \<and> list_all tooMany (butlast sent)"
proof -
  obtain x s1 where l: "doLoop (counted n) cfg ctx op method path body dest maxBytes
      (nat (max (cRetryAttempts cfg) 1) - 1) 0 s = (x, s1)" by fastforce
  with assms(1) have "nw s' = nw s1" by (auto simp: doCall_def split: prod.splits)
  moreover have "retryable op r \<Longrightarrow> tooMany r" for r
    using assms(2) by (auto simp: retryable_def tooMany_def idempotentOps_def op_defs opAddHostOverride_def
        split: sendResult.splits)
  ultimately show ?thesis using doLoop_sent [OF l] by (fastforce simp: list_all_iff)
qed

text \<open>A delete the firewall answers with \<^verbatim>\<open>saved\<close> is neither an error nor a deletion: the code falls into
the branch of a row that is already gone.\<close>

theorem delete_saved_is_gone:
  assumes "doCall n cfg ctx opDelHostOverride ''POST'' (pathDel @ uuid) (Some (JObj [])) dec_writeResponse maxResponseBytes s
      = (Inr out, s')" and "wResult out = ''saved''"
  shows "DelHostOverride n cfg ctx uuid s = (Inr False, s')"
  using assms by (simp add: DelHostOverride_def writeErr_def opDelHostOverride_def opAddHostOverride_def)

end
