(* ===== verification/Snapshot.thy ===== *)
theory Snapshot
  imports Client
begin

text \<open>
  \<^verbatim>\<open>internal/opnsense/snapshot.go\<close>, the consistent read and the index of the apply path.  The Go
  code shares each row by pointer between the table and the index, and a write changes the row
  both see: the snapshot has a heap of rows, and \<open>snRows\<close> and \<open>byKey\<close> hold positions in it.
\<close>

section \<open>The paginated read\<close>

fun collect :: "string list \<Rightarrow> hostRow list \<Rightarrow> hostRow list \<Rightarrow> string list \<times> hostRow list" where
  "collect seen rs [] = (seen, rs)"
| "collect seen rs (r # page) =
     (if UUID (cols r) \<in> set seen then collect seen rs page
      else collect (UUID (cols r) # seen) (rs @ [r]) page)"

definition maxPages :: "int \<Rightarrow> int \<Rightarrow> int" where
  "maxPages tot0 pageSize = i64 (go_div (i64 (i64 (tot0 + pageSize) - 1)) pageSize + 1)"

definition finishRead :: "hostRow list \<Rightarrow> int \<Rightarrow> (hostRow list \<times> int) result" where
  "finishRead rs tot0 =
     (if int (length rs) \<noteq> tot0 then Inl (InconsistentError (ShortRead (length rs) tot0))
      else Inr (rs, tot0))"

lemma length_collect_le: "collect seen rs page = (seen', rs') \<Longrightarrow> length seen \<le> length seen'"
  by (induction seen rs page rule: collect.induct) (auto split: if_splits)

lemma collect_Cons_nonempty: "collect seen rs page = (seen', rs') \<Longrightarrow> page \<noteq> [] \<Longrightarrow> seen' \<noteq> []"
  by (induction seen rs page rule: collect.induct) (auto split: if_splits dest: length_collect_le)

text \<open>
  One iteration of \<^verbatim>\<open>readAll\<close> on the page it received: the read stops with a result, or goes on
  with the total and what was collected.  \<open>tot0\<close> is negative until the first page has been read;
  \<open>seen\<close> holds the uuids collected so far and \<open>rs\<close> their rows in the order they arrived.
\<close>

datatype pageOutcome = Stop "(hostRow list \<times> int) result" | More int "string list" "hostRow list"

definition pageStep ::
  "int \<Rightarrow> int \<Rightarrow> int \<Rightarrow> string list \<Rightarrow> hostRow list \<Rightarrow> searchPage \<Rightarrow> pageOutcome" where
  "pageStep pageSize tot0 current seen rs page =
     (if tot0 \<ge> 0 \<and> pgTotal page \<noteq> tot0 then
        Stop (Inl (InconsistentError (TotalChanged tot0 (pgTotal page) (nat current))))
      else let tot = (if tot0 < 0 then pgTotal page else tot0)
        in if tot = 0 then Stop (Inr ([], 0))
           else if current > maxPages tot pageSize then
             Stop (Inl (InconsistentError (TooManyPages (maxPages tot pageSize) tot)))
           else if pgRows page = [] then
             (if int (length seen) = tot then Stop (finishRead rs tot)
              else Stop (Inl (InconsistentError (EmptyPage (nat current) (length seen) tot))))
           else let (seen', rs') = collect seen rs (pgRows page)
             in if int (length seen') > tot then
                  Stop (Inl (InconsistentError (ExceedsTotal (length seen') tot)))
                else if int (length seen') = tot then Stop (finishRead rs' tot)
                else More tot seen' rs')"

lemma pageStep_More:
  assumes "pageStep pageSize tot0 current seen rs page = More tot seen' rs'"
  shows "0 < tot" and "0 \<le> tot0 \<Longrightarrow> tot = tot0" and "tot0 < 0 \<Longrightarrow> tot = pgTotal page"
    and "current \<le> maxPages tot pageSize" and "collect seen rs (pgRows page) = (seen', rs')"
    and "int (length seen') < tot"
  using assms by (auto simp: pageStep_def Let_def split: if_splits prod.splits)

lemma pageStep_bound:
  "pageStep pageSize tot0 current seen rs page = More tot seen' rs' \<Longrightarrow>
   0 < tot \<and> (0 \<le> tot0 \<longrightarrow> tot = tot0) \<and> current \<le> maxPages tot pageSize"
  by (blast dest: pageStep_More)

text \<open>The loop ends because the page number is bounded by a limit that the first page fixes.\<close>

function readPages ::
  "(int \<Rightarrow> 's \<Rightarrow> searchPage result \<times> 's) \<Rightarrow> int \<Rightarrow> int \<Rightarrow> int \<Rightarrow> string list \<Rightarrow> hostRow list \<Rightarrow> 's \<Rightarrow>
   (hostRow list \<times> int) result \<times> 's" where
  "readPages search pageSize tot0 current seen rs s =
     (case search current s of
        (Inl e, s) \<Rightarrow> (Inl e, s)
      | (Inr page, s) \<Rightarrow>
          (case pageStep pageSize tot0 current seen rs page of
             Stop res \<Rightarrow> (res, s)
           | More tot seen' rs' \<Rightarrow> readPages search pageSize tot (current + 1) seen' rs' s))"
  by pat_completeness auto
termination
  by (relation "measures [\<lambda>(f, p, t, c, x). if t < 0 then 1 else 0,
        \<lambda>(f, p, t, c, x). nat (maxPages t p + 1 - c)]") (auto dest!: pageStep_bound)

declare readPages.simps [simp del]

definition readAll ::
  "(int \<Rightarrow> int \<Rightarrow> 's \<Rightarrow> searchPage result \<times> 's) \<Rightarrow> int \<Rightarrow> 's \<Rightarrow> (hostRow list \<times> int) result \<times> 's" where
  "readAll search pageSize = readPages (\<lambda>current. search current pageSize) pageSize (-1) 1 [] []"

section \<open>The snapshot and its index\<close>

record snapshot =
  snTotal :: int
  heap :: "hostRow list"
  snRows :: "nat list"
  byKey :: "rowKey \<Rightarrow> nat list"

definition deref :: "snapshot \<Rightarrow> nat \<Rightarrow> hostRow" where
  "deref sn p = heap sn ! p"

definition indexRow :: "nat \<Rightarrow> snapshot \<Rightarrow> snapshot" where
  "indexRow p sn =
     (let r = deref sn p
      in if \<not> enabled r \<or> IsAlias (cols r) then sn
         else let k = rowKeyOf r in sn\<lparr>byKey := (byKey sn)(k := byKey sn k @ [p])\<rparr>)"

definition buildSnapshot :: "hostRow list \<Rightarrow> int \<Rightarrow> snapshot" where
  "buildSnapshot rs tot0 =
     fold indexRow [0 ..< length rs]
       \<lparr>snTotal = tot0, heap = rs, snRows = [0 ..< length rs], byKey = (\<lambda>_. [])\<rparr>"

definition addSnap :: "hostRow \<Rightarrow> snapshot \<Rightarrow> snapshot" where
  "addSnap r sn =
     (let p = length (heap sn)
      in indexRow p (sn\<lparr>heap := heap sn @ [r], snRows := snRows sn @ [p]\<rparr>))"

definition removeSnap :: "rowKey \<Rightarrow> string \<Rightarrow> snapshot \<Rightarrow> snapshot" where
  "removeSnap k uuid sn =
     sn\<lparr>byKey := (byKey sn)(k := filter (\<lambda>p. UUID (cols (deref sn p)) \<noteq> uuid) (byKey sn k))\<rparr>"

definition rowsFor :: "rowKey \<Rightarrow> snapshot \<Rightarrow> nat list" where
  "rowsFor k sn = byKey sn k"

text \<open>
  \<^verbatim>\<open>Snapshot\<close>: a read that is not consistent is restarted, up to \<^verbatim>\<open>ReadAttempts\<close> times; any other
  error is returned at once.
\<close>

fun snapshotLoop ::
  "('w cworld \<Rightarrow> (hostRow list \<times> int) result \<times> 'w cworld) \<Rightarrow> nat \<Rightarrow> nat \<Rightarrow> 'w cworld \<Rightarrow>
   snapshot result \<times> 'w cworld" where
  "snapshotLoop read 0 attempt s =
     (Inl (Wrap (''after '' @ nat_dec attempt @ '' attempts'') ErrInconsistentRead), s)"
| "snapshotLoop read (Suc left) attempt s =
     (let s = (if attempt > 0 then count (inc ReadRestarts) s else s)
      in case read s of
           (Inr (rs, tot0), s) \<Rightarrow> (Inr (buildSnapshot rs tot0), s)
         | (Inl e, s) \<Rightarrow>
             if \<not> isInconsistent e then (Inl e, s) else snapshotLoop read left (Suc attempt) s)"

definition SnapshotCall ::
  "'w net \<Rightarrow> config \<Rightarrow> ctx \<Rightarrow> 'w cworld \<Rightarrow> snapshot result \<times> 'w cworld" where
  "SnapshotCall n cfg ctx s =
     snapshotLoop (readAll (SearchHostOverrides n cfg ctx) (cPageSize cfg)) (nat (cReadAttempts cfg)) 0 s"

lemmas snapshot_defs [go_defs] = maxPages_def finishRead_def readAll_def deref_def indexRow_def
  buildSnapshot_def addSnap_def removeSnap_def rowsFor_def SnapshotCall_def rowKeyOf_def

section \<open>Consistency of an accepted read\<close>

abbreviation uuids :: "hostRow list \<Rightarrow> string list" where
  "uuids rs \<equiv> map (\<lambda>r. UUID (cols r)) rs"

lemma collect_uuids:
  "collect seen rs page = (seen', rs') \<Longrightarrow> seen = rev (uuids rs) \<Longrightarrow> distinct seen \<Longrightarrow>
   seen' = rev (uuids rs') \<and> distinct seen'"
  by (induction seen rs page rule: collect.induct) (auto split: if_splits)

lemma finishRead_Inr: "finishRead rs tot = Inr (out, t) \<longleftrightarrow> out = rs \<and> t = tot \<and> int (length rs) = tot"
  by (auto simp: finishRead_def)

text \<open>
  The pages one pass over the table received, in the order it asked for them: \<open>pagesFrom search current s pgs s'\<close>
  says that asking for the pages \<open>current\<close>, \<open>current + 1\<close>, \dots one after the other, nothing else in between,
  gave \<open>pgs\<close> and led from \<open>s\<close> to \<open>s'\<close>.
\<close>

inductive pagesFrom :: "(int \<Rightarrow> 's \<Rightarrow> searchPage result \<times> 's) \<Rightarrow> int \<Rightarrow> 's \<Rightarrow> searchPage list \<Rightarrow> 's \<Rightarrow> bool"
  for search :: "int \<Rightarrow> 's \<Rightarrow> searchPage result \<times> 's" where
  pagesFrom_Nil: "pagesFrom search current s [] s"
| pagesFrom_Cons: "search current s = (Inr pg, s1) \<Longrightarrow> pagesFrom search (current + 1) s1 pgs s' \<Longrightarrow>
    pagesFrom search current s (pg # pgs) s'"

text \<open>
  What a table read from \<open>pgs\<close> promises: every page said the same total, the rows are as many, all from
  the pages, of distinct uuids, and no row of a page is missing -- but that a table of total 0 has no row
  whatever its page lists.
\<close>

definition readFrom :: "searchPage list \<Rightarrow> hostRow list \<Rightarrow> int \<Rightarrow> bool" where
  "readFrom pgs out tot \<longleftrightarrow> pgs \<noteq> [] \<and> (\<forall>pg \<in> set pgs. pgTotal pg = tot) \<and> int (length out) = tot \<and>
     distinct (uuids out) \<and> set out \<subseteq> (\<Union>pg \<in> set pgs. set (pgRows pg)) \<and>
     (tot \<noteq> 0 \<longrightarrow> set (uuids out) = (\<Union>pg \<in> set pgs. set (uuids (pgRows pg))))"

lemma collect_set:
  "collect seen rs page = (seen', rs') \<Longrightarrow> seen = rev (uuids rs) \<Longrightarrow>
   set rs' \<subseteq> set rs \<union> set page \<and> set (uuids rs') = set (uuids rs) \<union> set (uuids page)"
proof (induction seen rs page rule: collect.induct)
  case (2 seen rs r page)
  show ?case
  proof (cases "UUID (cols r) \<in> set seen")
    case True
    with 2 have "set rs' \<subseteq> set rs \<union> set page \<and> set (uuids rs') = set (uuids rs) \<union> set (uuids page)" by simp
    moreover have "UUID (cols r) \<in> set (uuids rs)" using True "2.prems"(2) by simp
    ultimately show ?thesis by (simp add: insert_absorb) blast
  next
    case False
    with 2 have "set rs' \<subseteq> set (rs @ [r]) \<union> set page \<and> set (uuids rs') = set (uuids (rs @ [r])) \<union> set (uuids page)" by simp
    then show ?thesis by auto
  qed
qed simp

text \<open>What the loop knows after the pages \<open>pgs\<close>.\<close>

definition gathered :: "searchPage list \<Rightarrow> int \<Rightarrow> string list \<Rightarrow> hostRow list \<Rightarrow> bool" where
  "gathered pgs tot seen rs \<longleftrightarrow> seen = rev (uuids rs) \<and> distinct (uuids rs) \<and>
     (if pgs = [] then tot < 0 \<and> rs = [] else 0 < tot \<and> (\<forall>pg \<in> set pgs. pgTotal pg = tot)) \<and>
     set rs \<subseteq> (\<Union>pg \<in> set pgs. set (pgRows pg)) \<and> set (uuids rs) = (\<Union>pg \<in> set pgs. set (uuids (pgRows pg)))"

lemma gathered_page:
  assumes g: "gathered pgs tot0 seen rs" and total: "\<not> (0 \<le> tot0 \<and> pgTotal page \<noteq> tot0)"
    and tot: "tot = (if tot0 < 0 then pgTotal page else tot0)" and c: "collect seen rs (pgRows page) = (seen', rs')"
  shows "seen' = rev (uuids rs') \<and> distinct (uuids rs') \<and> (\<forall>pg \<in> set (pgs @ [page]). pgTotal pg = tot) \<and>
    set rs' \<subseteq> (\<Union>pg \<in> set (pgs @ [page]). set (pgRows pg)) \<and>
    set (uuids rs') = (\<Union>pg \<in> set (pgs @ [page]). set (uuids (pgRows pg)))"
proof -
  have s: "seen = rev (uuids rs)" "distinct seen" using g by (auto simp: gathered_def)
  have "\<forall>pg \<in> set (pgs @ [page]). pgTotal pg = tot"
    using g total tot by (cases "pgs = []") (auto simp: gathered_def)
  with collect_uuids [OF c s] collect_set [OF c s(1)] g show ?thesis
    by (auto simp: gathered_def)
qed

lemma pageStep_Stop:
  assumes st: "pageStep pageSize tot0 current seen rs page = Stop (Inr (out, tot))" and g: "gathered pgs tot0 seen rs"
  shows "readFrom (pgs @ [page]) out tot"
proof -
  let ?tot = "if tot0 < 0 then pgTotal page else tot0"
  have total: "\<not> (0 \<le> tot0 \<and> pgTotal page \<noteq> tot0)" using st by (intro notI) (simp add: pageStep_def)
  obtain seen' rs' where c: "collect seen rs (pgRows page) = (seen', rs')" by fastforce
  note gp = gathered_page [OF g total refl c]
  have "?tot = 0 \<and> out = [] \<and> tot = 0 \<or> out = rs' \<and> tot = ?tot \<and> int (length rs') = tot"
    using st total c by (cases "pgRows page = []") (auto simp: pageStep_def Let_def finishRead_Inr split: if_splits)
  then show ?thesis
  proof
    assume "?tot = 0 \<and> out = [] \<and> tot = 0"
    with gp show ?thesis by (simp add: readFrom_def)
  next
    assume "out = rs' \<and> tot = ?tot \<and> int (length rs') = tot"
    with gp show ?thesis by (simp add: readFrom_def)
  qed
qed

lemma pageStep_gathered:
  assumes st: "pageStep pageSize tot0 current seen rs page = More tot seen' rs'" and g: "gathered pgs tot0 seen rs"
  shows "gathered (pgs @ [page]) tot seen' rs'"
proof -
  have total: "\<not> (0 \<le> tot0 \<and> pgTotal page \<noteq> tot0)" using st by (intro notI) (simp add: pageStep_def)
  have "tot = (if tot0 < 0 then pgTotal page else tot0)" using pageStep_More(2,3) [OF st] by simp
  from gathered_page [OF g total this pageStep_More(5) [OF st]] pageStep_More(1) [OF st] show ?thesis
    by (simp add: gathered_def)
qed

lemma readPages_Inr:
  "readPages search pageSize tot0 current seen rs s = (Inr (out, tot), s') \<Longrightarrow> gathered pgs tot0 seen rs \<Longrightarrow>
   \<exists>more. pagesFrom search current s more s' \<and> readFrom (pgs @ more) out tot"
proof (induction search pageSize tot0 current seen rs s arbitrary: pgs rule: readPages.induct)
  case (1 search pageSize tot0 current seen rs s)
  from "1.prems"(1) obtain page s1 where r: "search current s = (Inr page, s1)"
    by (subst (asm) readPages.simps) (auto split: prod.splits sum.splits)
  show ?case
  proof (cases "pageStep pageSize tot0 current seen rs page")
    case (Stop res)
    with r "1.prems"(1) have st: "pageStep pageSize tot0 current seen rs page = Stop (Inr (out, tot))" and "s1 = s'"
      by (subst (asm) readPages.simps, simp)+
    then have "pagesFrom search current s [page] s'" using r by (auto intro: pagesFrom.intros)
    with pageStep_Stop [OF st "1.prems"(2)] show ?thesis by blast
  next
    case (More t seen' rs')
    with "1.prems"(1) r
    have "readPages search pageSize t (current + 1) seen' rs' s1 = (Inr (out, tot), s')"
      by (subst (asm) readPages.simps) simp
    from "1.IH" [OF r [symmetric] refl More this pageStep_gathered [OF More "1.prems"(2)]]
    obtain more where "pagesFrom search (current + 1) s1 more s'" "readFrom ((pgs @ [page]) @ more) out tot" by blast
    with pagesFrom_Cons [OF r this(1)] show ?thesis by (intro exI [of _ "page # more"]) simp
  qed
qed

lemma readAll_Inr:
  assumes "readAll search pageSize s = (Inr (out, tot), s')"
  shows "\<exists>pgs. pagesFrom (\<lambda>current. search current pageSize) 1 s pgs s' \<and> readFrom pgs out tot"
proof -
  have "gathered [] (- 1) [] []" by (simp add: gathered_def)
  from readPages_Inr [OF assms [unfolded readAll_def] this] show ?thesis by simp
qed

lemma snapshotLoop_read:
  assumes "snapshotLoop (readAll search pageSize) left attempt s = (Inr sn, s')"
  shows "\<exists>rs tot s0 pgs. sn = buildSnapshot rs tot \<and> pagesFrom (\<lambda>current. search current pageSize) 1 s0 pgs s' \<and> readFrom pgs rs tot"
  using assms
proof (induction left arbitrary: attempt s)
  case (Suc left)
  obtain res s1 where r: "readAll search pageSize (if attempt > 0 then count (inc ReadRestarts) s else s) = (res, s1)"
    by fastforce
  show ?case
  proof (cases res)
    case (Inl e)
    with r Suc.prems have "snapshotLoop (readAll search pageSize) left (Suc attempt) s1 = (Inr sn, s')"
      by (auto simp: Let_def split: if_splits)
    then show ?thesis by (rule Suc.IH)
  next
    case (Inr x)
    then obtain rs tot where "x = (rs, tot)" by (cases x) auto
    with r Suc.prems Inr have "sn = buildSnapshot rs tot" "s1 = s'" by (auto simp: Let_def)
    with readAll_Inr [of search pageSize _ rs tot s'] r Inr \<open>x = (rs, tot)\<close> show ?thesis by blast
  qed
qed simp

lemma SnapshotCall_Inr:
  assumes "SnapshotCall n cfg ctx s = (Inr sn, s')"
  shows "\<exists>rs. sn = buildSnapshot rs (int (length rs)) \<and> distinct (uuids rs)"
proof -
  obtain rs tot pgs where "sn = buildSnapshot rs tot" "readFrom pgs rs tot"
    using snapshotLoop_read [OF assms [unfolded SnapshotCall_def]] by blast
  then show ?thesis by (auto simp: readFrom_def)
qed

section \<open>Completeness: a table that does not move is read whole\<close>

lemma collect_append:
  "distinct (uuids (rs @ page)) \<Longrightarrow>
   collect (rev (uuids rs)) rs page = (rev (uuids (rs @ page)), rs @ page)"
proof (induction page arbitrary: rs)
  case (Cons r page)
  then have "collect (rev (uuids (rs @ [r]))) (rs @ [r]) page =
      (rev (uuids ((rs @ [r]) @ page)), (rs @ [r]) @ page)"
    by (intro Cons.IH) simp
  with Cons.prems show ?case by auto
qed simp

lemma maxPages_exact:
  assumes "0 < tot" "tot < 2 ^ 62" "1 \<le> p" "p \<le> 2 ^ 61"
  shows "maxPages tot p = (tot + p - 1) div p + 1"
proof -
  have "(tot + p - 1) div p \<le> tot + p - 1" using assms zdiv_mono2 [of "tot + p - 1" 1 p] by simp
  moreover have "0 \<le> (tot + p - 1) div p" using assms by (simp add: pos_imp_zdiv_nonneg_iff)
  ultimately show ?thesis
    using assms by (simp add: maxPages_def i64_id go_div_nonneg)
qed

text \<open>
  The contract of a paged listing: while nothing writes, every page shows the total and its slice
  of one fixed table.
\<close>

locale pager =
  fixes search :: "int \<Rightarrow> int \<Rightarrow> 's \<Rightarrow> searchPage result \<times> 's"
    and table :: "'s \<Rightarrow> hostRow list"
    and ok :: "'s \<Rightarrow> bool"
    and largest :: int
  assumes search_page:
    "ok s \<Longrightarrow> int m < 2 ^ 62 \<Longrightarrow> int (Suc N) \<le> largest \<Longrightarrow> \<exists>page s'. search (int m + 1) (int (Suc N)) s = (Inr page, s') \<and> ok s' \<and> table s' = table s \<and>
       pgTotal page = int (length (table s)) \<and> pgRows page = take (Suc N) (drop (m * Suc N) (table s))"
    and table_distinct: "ok s \<Longrightarrow> distinct (uuids (table s))"
    and table_small: "ok s \<Longrightarrow> int (length (table s)) < 2 ^ 62"
    and largest_small: "largest \<le> 2 ^ 61"
begin

lemma pageStep_slice:
  assumes "ok s" and m: "m * Suc N < length (table s)" and N: "int (Suc N) \<le> largest"
    and tot0: "tot0 < 0 \<or> tot0 = int (length (table s))"
    and pg: "pgTotal page = int (length (table s))" "pgRows page = take (Suc N) (drop (m * Suc N) (table s))"
  shows "pageStep (int (Suc N)) tot0 (int m + 1) (rev (uuids (take (m * Suc N) (table s)))) (take (m * Suc N) (table s)) page =
    (let rs = take (Suc m * Suc N) (table s)
     in if length (table s) \<le> Suc m * Suc N then Stop (Inr (table s, int (length (table s))))
        else More (int (length (table s))) (rev (uuids rs)) rs)"
proof -
  let ?T = "table s" and ?L = "int (length (table s))"
  have app: "take (m * Suc N) ?T @ pgRows page = take (Suc m * Suc N) ?T"
    by (simp only: pg(2) take_add [symmetric] mult_Suc add.commute)
  have "distinct (uuids (take (Suc m * Suc N) ?T))"
    using table_distinct [OF assms(1)] by (simp only: take_map [symmetric] distinct_take)
  then have c: "collect (rev (uuids (take (m * Suc N) ?T))) (take (m * Suc N) ?T) (pgRows page) =
      (rev (uuids (take (Suc m * Suc N) ?T)), take (Suc m * Suc N) ?T)"
    using collect_append [of "take (m * Suc N) ?T" "pgRows page"] by (simp only: app)
  have ne: "pgRows page \<noteq> []" "0 < ?L" using m pg(2) by auto
  have "int m * int (Suc N) + 1 \<le> ?L" using m by (metis of_nat_Suc of_nat_mult zless_imp_add1_zle of_nat_less_iff add.commute)
  then have "int m * int (Suc N) + int (Suc N) \<le> ?L + int (Suc N) - 1" by linarith
  then have "(int m + 1) * int (Suc N) \<le> ?L + int (Suc N) - 1" by (simp add: distrib_right)
  then have "int m + 1 \<le> (?L + int (Suc N) - 1) div int (Suc N)"
    using zdiv_mono1 [of "(int m + 1) * int (Suc N)" "?L + int (Suc N) - 1" "int (Suc N)"]
    by (simp only: nonzero_mult_div_cancel_right)
  then have mp: "\<not> maxPages ?L (int (Suc N)) < int m + 1"
    using maxPages_exact [of ?L "int (Suc N)"] ne(2) table_small [OF assms(1)] N largest_small by simp
  have T: "(if tot0 < 0 then pgTotal page else tot0) = ?L" using tot0 pg(1) by auto
  define J where "J = m * Suc N"
  define K where "K = Suc m * Suc N"
  show ?thesis
    using tot0 pg(1) ne c mp unfolding J_def [symmetric] K_def [symmetric]
    by (auto simp: pageStep_def Let_def T finishRead_def min_def)
qed

lemma readPages_from:
  assumes "ok s" and "m * Suc N < length (table s)" and "int (Suc N) \<le> largest"
    and "tot0 < 0 \<or> tot0 = int (length (table s))"
  shows "\<exists>s'. readPages (\<lambda>c. search c (int (Suc N))) (int (Suc N)) tot0 (int m + 1)
      (rev (uuids (take (m * Suc N) (table s)))) (take (m * Suc N) (table s)) s =
      (Inr (table s, int (length (table s))), s') \<and> ok s' \<and> table s' = table s"
  using assms
proof (induction "length (table s) - m * Suc N" arbitrary: m s tot0 rule: less_induct)
  case less
  have "m \<le> m * Suc N" by simp
  with less.prems(2) table_small [OF less.prems(1)] have "int m < 2 ^ 62" by linarith
  from search_page [OF less.prems(1) this less.prems(3)] obtain page s1
    where pg: "search (int m + 1) (int (Suc N)) s = (Inr page, s1)" "ok s1" "table s1 = table s"
      "pgTotal page = int (length (table s))" "pgRows page = take (Suc N) (drop (m * Suc N) (table s))"
    by blast
  note step = pageStep_slice [OF less.prems pg(4,5)]
  show ?case
  proof (cases "length (table s) \<le> Suc m * Suc N")
    case True
    with step pg show ?thesis
      by (subst readPages.simps) (simp add: Let_def)
  next
    case False
    have "length (table s1) - Suc m * Suc N < length (table s) - m * Suc N"
      using False pg(3) by simp
    from less.hyps [OF this, where ?tot0.0 = "int (length (table s))"] False pg(2,3) less.prems(3)
    obtain s' where "readPages (\<lambda>c. search c (int (Suc N))) (int (Suc N)) (int (length (table s))) (int (Suc m) + 1)
      (rev (uuids (take (Suc m * Suc N) (table s)))) (take (Suc m * Suc N) (table s)) s1 =
      (Inr (table s, int (length (table s))), s')" "ok s'" "table s' = table s"
      by auto
    with step False pg show ?thesis
      by (subst readPages.simps) (simp add: Let_def add.commute)
  qed
qed

lemma readAll_table:
  assumes "ok s" and "1 \<le> pageSize" and "pageSize \<le> largest"
  shows "\<exists>s'. readAll search pageSize s = (Inr (table s, int (length (table s))), s') \<and>
    ok s' \<and> table s' = table s"
proof -
  obtain N where N: "pageSize = int (Suc N)"
    using assms(2) by (metis int_one_le_iff_zero_less Suc_pred of_nat_0_less_iff pos_int_cases)
  show ?thesis
  proof (cases "table s = []")
    case True
    from search_page [OF assms(1), of 0 N] assms(3) N obtain page s1
      where "search 1 pageSize s = (Inr page, s1)" "ok s1" "table s1 = table s" "pgTotal page = 0"
      using True by auto
    with True show ?thesis
      by (simp add: readAll_def readPages.simps pageStep_def)
  next
    case False
    with readPages_from [OF assms(1), of 0 N "-1"] assms(3) N show ?thesis
      by (simp add: readAll_def)
  qed
qed

end

section \<open>Property\<close>

text \<open>C20: A snapshot that is handed out is one pass over the firewall's pages: the pages 1, 2, ... asked for one after
the other all said the total of the snapshot; its rows are as many as that total, of distinct uuids, all from those
pages, and every uuid of those pages is among them (but that a table of total 0 has no row whatever its page lists).\<close>

theorem snapshot_consistent:
  assumes "SnapshotCall n cfg ctx s = (Inr sn, s')"
  shows "\<exists>s0 pgs. pagesFrom (\<lambda>current. SearchHostOverrides n cfg ctx current (cPageSize cfg)) 1 s0 pgs s' \<and> pgs \<noteq> [] \<and>
    (\<forall>pg \<in> set pgs. pgTotal pg = snTotal sn) \<and> int (length (heap sn)) = snTotal sn \<and> distinct (uuids (heap sn)) \<and>
    set (heap sn) \<subseteq> (\<Union>pg \<in> set pgs. set (pgRows pg)) \<and>
    (snTotal sn \<noteq> 0 \<longrightarrow> set (uuids (heap sn)) = (\<Union>pg \<in> set pgs. set (uuids (pgRows pg))))"
proof -
  obtain rs tot s0 pgs where rs: "sn = buildSnapshot rs tot" "readFrom pgs rs tot"
    "pagesFrom (\<lambda>current. SearchHostOverrides n cfg ctx current (cPageSize cfg)) 1 s0 pgs s'"
    using snapshotLoop_read [OF assms [unfolded SnapshotCall_def]] by blast
  have h: "heap (fold indexRow ps x) = heap x \<and> snTotal (fold indexRow ps x) = snTotal x" for ps x
    by (induction ps arbitrary: x) (auto simp: indexRow_def Let_def)
  then have "heap sn = rs" "snTotal sn = tot" using rs(1) by (simp_all add: buildSnapshot_def)
  with rs(2) show ?thesis by (intro exI [of _ s0] exI [of _ pgs] conjI rs(3)) (simp_all add: readFrom_def)
qed

end
