(* ===== verification/Index.thy ===== *)
theory Index
  imports Snapshot
begin

text \<open>
  The interface between the apply path and the snapshot index of \<^verbatim>\<open>snapshot.go\<close>: what is served
  under a key, and how adding and removing a row changes it.
\<close>

section \<open>The contract\<close>

locale row_index =
  fixes view :: "'i \<Rightarrow> rowKey \<Rightarrow> hostRow list"
    and add :: "hostRow \<Rightarrow> 'i \<Rightarrow> 'i"
    and remove :: "rowKey \<Rightarrow> string \<Rightarrow> 'i \<Rightarrow> 'i"
    and inv :: "'i \<Rightarrow> bool"
  assumes view_add: "inv i \<Longrightarrow>
      view (add r i) k = view i k @ (if indexed r \<and> rowKeyOf r = k then [r] else [])"
    and view_remove: "inv i \<Longrightarrow>
      view (remove k u i) k' = (if k' = k then filter (\<lambda>r. UUID (cols r) \<noteq> u) (view i k) else view i k')"
    and view_key: "inv i \<Longrightarrow> r \<in> set (view i k) \<Longrightarrow> indexed r \<and> rowKeyOf r = k"
    and inv_add: "inv i \<Longrightarrow> inv (add r i)"
    and inv_remove: "inv i \<Longrightarrow> inv (remove k u i)"
begin

lemma removed_gone: "inv i \<Longrightarrow> u \<notin> set (uuids (view (remove k u i) k))"
  by (auto simp: view_remove)

lemma remove_other: "inv i \<Longrightarrow> k' \<noteq> k \<Longrightarrow> view (remove k u i) k' = view i k'"
  by (simp add: view_remove)

lemma add_other: "inv i \<Longrightarrow> rowKeyOf r \<noteq> k \<Longrightarrow> view (add r i) k = view i k"
  by (simp add: view_add)

lemma add_served: "inv i \<Longrightarrow> indexed r \<Longrightarrow> r \<in> set (view (add r i) (rowKeyOf r))"
  by (simp add: view_add)

text \<open>A row that is not served (disabled, or an alias) never enters the index.\<close>

lemma add_unserved: "inv i \<Longrightarrow> \<not> indexed r \<Longrightarrow> view (add r i) k = view i k"
  by (simp add: view_add)

lemma view_keys_disjoint: "inv i \<Longrightarrow> k \<noteq> k' \<Longrightarrow> set (view i k) \<inter> set (view i k') = {}"
  using view_key by blast

lemma remove_added:
  "inv i \<Longrightarrow> UUID (cols r) \<notin> set (uuids (view i (rowKeyOf r))) \<Longrightarrow>
   view (remove (rowKeyOf r) (UUID (cols r)) (add r i)) k = view i k"
  by (auto simp: view_remove view_add inv_add image_iff intro!: filter_True)

end

section \<open>The snapshot provides it\<close>

definition snapView :: "snapshot \<Rightarrow> rowKey \<Rightarrow> hostRow list" where
  "snapView sn k = map (deref sn) (rowsFor k sn)"

text \<open>Every pointer filed under a key is live and points to a served row with that key.\<close>

definition snapOk :: "snapshot \<Rightarrow> bool" where
  "snapOk sn \<longleftrightarrow>
     (\<forall>k. distinct (byKey sn k) \<and>
          (\<forall>p \<in> set (byKey sn k). p < length (heap sn) \<and> indexed (deref sn p) \<and> rowKeyOf (deref sn p) = k))"

lemma snapOkD:
  "snapOk sn \<Longrightarrow> p \<in> set (byKey sn k) \<Longrightarrow>
   p < length (heap sn) \<and> indexed (deref sn p) \<and> rowKeyOf (deref sn p) = k"
  by (auto simp: snapOk_def)

lemma snapOk_distinct: "snapOk sn \<Longrightarrow> distinct (byKey sn k)"
  by (simp add: snapOk_def)

lemma snapOk_ptr_key: "snapOk sn \<Longrightarrow> p \<in> set (byKey sn k) \<Longrightarrow> p \<in> set (byKey sn k') \<Longrightarrow> k = k'"
  using snapOkD by blast

lemma indexRow_heap [simp]: "heap (indexRow p sn) = heap sn"
  by (simp add: indexRow_def Let_def)

lemma indexRow_byKey:
  "byKey (indexRow p sn) k =
     byKey sn k @ (if indexed (deref sn p) \<and> rowKeyOf (deref sn p) = k then [p] else [])"
  by (auto simp: indexRow_def Let_def indexed_def)

lemma deref_indexRow [simp]: "deref (indexRow p sn) q = deref sn q"
  by (simp add: deref_def)

lemma fold_indexRow:
  "heap (fold indexRow ps sn) = heap sn \<and>
   byKey (fold indexRow ps sn) k =
     byKey sn k @ filter (\<lambda>p. indexed (deref sn p) \<and> rowKeyOf (deref sn p) = k) ps"
  by (induction ps arbitrary: sn) (auto simp: indexRow_byKey)

lemma heap_buildSnapshot [simp]: "heap (buildSnapshot rs t) = rs"
  by (simp add: buildSnapshot_def fold_indexRow)

lemma byKey_buildSnapshot:
  "byKey (buildSnapshot rs t) k =
     filter (\<lambda>p. indexed (rs ! p) \<and> rowKeyOf (rs ! p) = k) [0 ..< length rs]"
  by (simp add: buildSnapshot_def fold_indexRow deref_def)

lemma snapOk_buildSnapshot: "snapOk (buildSnapshot rs t)"
  by (simp add: snapOk_def byKey_buildSnapshot deref_def)

lemma snapView_buildSnapshot:
  "snapView (buildSnapshot rs t) k = filter (\<lambda>r. indexed r \<and> rowKeyOf r = k) rs"
proof -
  have "snapView (buildSnapshot rs t) k =
      map ((!) rs) (filter ((\<lambda>r. indexed r \<and> rowKeyOf r = k) \<circ> (!) rs) [0 ..< length rs])"
    by (simp add: snapView_def rowsFor_def deref_def byKey_buildSnapshot comp_def)
  also have "\<dots> = filter (\<lambda>r. indexed r \<and> rowKeyOf r = k) (map ((!) rs) [0 ..< length rs])"
    by (simp only: filter_map)
  finally show ?thesis by (simp add: map_nth)
qed

lemma addSnap_byKey:
  "byKey (addSnap r sn) k =
     byKey sn k @ (if indexed r \<and> rowKeyOf r = k then [length (heap sn)] else [])"
  by (simp add: addSnap_def Let_def indexRow_byKey deref_def)

lemma addSnap_heap [simp]: "heap (addSnap r sn) = heap sn @ [r]"
  by (simp add: addSnap_def Let_def)

lemma deref_addSnap: "p < length (heap sn) \<Longrightarrow> deref (addSnap r sn) p = deref sn p"
  by (simp add: deref_def nth_append)

lemma deref_addSnap_new [simp]: "deref (addSnap r sn) (length (heap sn)) = r"
  by (simp add: deref_def)

lemma snapOk_addSnap: "snapOk sn \<Longrightarrow> snapOk (addSnap r sn)"
  unfolding snapOk_def by (auto simp: addSnap_byKey deref_addSnap less_Suc_eq split: if_splits)

lemma removeSnap_byKey:
  "byKey (removeSnap k u sn) k' =
     (if k' = k then filter (\<lambda>p. UUID (cols (deref sn p)) \<noteq> u) (byKey sn k) else byKey sn k')"
  by (simp add: removeSnap_def)

lemma removeSnap_heap [simp]: "heap (removeSnap k u sn) = heap sn"
  by (simp add: removeSnap_def)

lemma deref_removeSnap [simp]: "deref (removeSnap k u sn) p = deref sn p"
  by (simp add: deref_def)

lemma snapOk_removeSnap: "snapOk sn \<Longrightarrow> snapOk (removeSnap k u sn)"
  by (auto simp: snapOk_def removeSnap_byKey)

interpretation snap: row_index snapView addSnap removeSnap snapOk
proof
  fix sn r k assume "snapOk sn"
  then show "snapView (addSnap r sn) k = snapView sn k @ (if indexed r \<and> rowKeyOf r = k then [r] else [])"
    by (auto simp: snapView_def rowsFor_def addSnap_byKey deref_addSnap dest: snapOkD)
next
  fix sn k u k' assume "snapOk sn"
  then show "snapView (removeSnap k u sn) k' =
      (if k' = k then filter (\<lambda>r. UUID (cols r) \<noteq> u) (snapView sn k) else snapView sn k')"
    by (auto simp: snapView_def rowsFor_def removeSnap_byKey filter_map comp_def)
next
  fix sn r k assume "snapOk sn" "r \<in> set (snapView sn k)"
  then show "indexed r \<and> rowKeyOf r = k"
    by (auto simp: snapView_def rowsFor_def dest: snapOkD)
qed (auto intro: snapOk_addSnap snapOk_removeSnap)

section \<open>Rewriting a row in place\<close>

text \<open>A write through a pointer: the heap cell changes, the index does not.\<close>

definition putRow :: "nat \<Rightarrow> hostRow \<Rightarrow> snapshot \<Rightarrow> snapshot" where
  "putRow p r sn = sn\<lparr>heap := (heap sn)[p := r]\<rparr>"

lemma putRow_byKey [simp]: "byKey (putRow p r sn) = byKey sn"
  by (simp add: putRow_def)

lemma deref_putRow: "p < length (heap sn) \<Longrightarrow> deref (putRow p r sn) q = (if q = p then r else deref sn q)"
  by (simp add: deref_def putRow_def nth_list_update)

lemma length_heap_putRow [simp]: "length (heap (putRow p r sn)) = length (heap sn)"
  by (simp add: putRow_def)

text \<open>
  The index stays right exactly because the new row is served under the same key: this is what
  \<^verbatim>\<open>retarget\<close> checks before it writes.
\<close>

lemma snapOk_putRow:
  assumes "snapOk sn" and "p \<in> set (byKey sn k)" and "indexed r" and "rowKeyOf r = k"
  shows "snapOk (putRow p r sn)"
proof -
  have p: "p < length (heap sn)" using assms(1,2) by (auto dest: snapOkD)
  have "indexed (deref (putRow p r sn) q) \<and> rowKeyOf (deref (putRow p r sn) q) = k'"
    if q: "q \<in> set (byKey sn k')" for k' q
  proof (cases "q = p")
    case True
    with q assms have "k' = k" using snapOk_ptr_key by blast
    with True p assms show ?thesis by (simp add: deref_putRow)
  next
    case False
    with q p assms(1) show ?thesis by (simp add: deref_putRow snapOkD)
  qed
  then show ?thesis
    using assms(1) by (simp add: snapOk_def)
qed

lemma snapView_putRow_other:
  assumes "snapOk sn" and "p \<in> set (byKey sn k)" and "k' \<noteq> k"
  shows "snapView (putRow p r sn) k' = snapView sn k'"
proof -
  have "p \<notin> set (byKey sn k')" using assms snapOk_ptr_key by blast
  with assms show ?thesis
    by (auto simp: snapView_def rowsFor_def deref_putRow dest: snapOkD)
qed

section \<open>Property\<close>

text \<open>C21: The index of the apply path refines a table filed by key: building it files exactly the served rows
under their keys, adding a row files it once under its own key and only when it is served, and removing a
uuid from a key takes out exactly that row and touches no other key.\<close>

theorem index_refines:
  "snapView (buildSnapshot rs t) k = filter (\<lambda>r. indexed r \<and> rowKeyOf r = k) rs \<and>
   snapView (addSnap r (buildSnapshot rs t)) k =
     filter (\<lambda>r. indexed r \<and> rowKeyOf r = k) (rs @ [r]) \<and>
   snapView (removeSnap k' u (buildSnapshot rs t)) k =
     filter (\<lambda>r. indexed r \<and> rowKeyOf r = k) (filter (\<lambda>r. \<not> (rowKeyOf r = k' \<and> UUID (cols r) = u)) rs)"
  using snap.view_add [OF snapOk_buildSnapshot, of r rs t k]
    snap.view_remove [OF snapOk_buildSnapshot, of k' u rs t k]
  by (auto simp: snapView_buildSnapshot intro: filter_cong)

end
