(* ===== verification/Endpoints.thy ===== *)
theory Endpoints
  imports Index
begin

text \<open>
  \<^verbatim>\<open>Snapshot.Endpoints\<close> of \<^verbatim>\<open>internal/opnsense/snapshot.go\<close>: the rows grouped into one record set
  per name and type.  \<^verbatim>\<open>endpoint.NewEndpointWithTTL\<close> belongs to external-dns and is the argument
  \<open>newEndpoint\<close>.  It is taken to return an endpoint: external-dns returns nil for a name with a label of more than 63
  bytes, and then the caller in \<^verbatim>\<open>provider.go\<close> would dereference it.
\<close>

section \<open>Groups\<close>

text \<open>The map \<^verbatim>\<open>seen\<close> of a group holds exactly the elements of its targets.\<close>

record group =
  gTargets :: "string list"
  gTTL :: int
  haveTTL :: bool
  sawUnset :: bool
  differs :: bool

definition emptyGroup :: group where
  "emptyGroup = \<lparr>gTargets = [], gTTL = 0, haveTTL = False, sawUnset = False, differs = False\<rparr>"

definition groupAdd :: "string \<Rightarrow> int \<Rightarrow> group \<Rightarrow> group" where
  "groupAdd target ttl g =
     (let g = (if target \<in> set (gTargets g) then g else g\<lparr>gTargets := gTargets g @ [target]\<rparr>)
      in if ttl = 0 then g\<lparr>sawUnset := True, differs := differs g \<or> haveTTL g\<rparr>
         else if \<not> haveTTL g then g\<lparr>gTTL := ttl, haveTTL := True, differs := differs g \<or> sawUnset g\<rparr>
         else if ttl \<noteq> gTTL g then g\<lparr>differs := True, gTTL := (if ttl < gTTL g then ttl else gTTL g)\<rparr>
         else g)"

type_synonym groups = "(rowKey \<times> group) list"

definition putTarget :: "rowKey \<times> string \<times> int \<Rightarrow> groups \<Rightarrow> groups" where
  "putTarget = (\<lambda>(k, target, ttl) gs.
     AList.update k (groupAdd target ttl (case map_of gs k of None \<Rightarrow> emptyGroup | Some g \<Rightarrow> g)) gs)"

section \<open>Rows\<close>

definition publishedTypes :: "string list" where
  "publishedTypes = [recordTypeA, recordTypeAAAA, recordTypeTXT, recordTypeMX]"

definition childKey :: "hostRow \<Rightarrow> hostRow \<Rightarrow> rowKey" where
  "childKey r child =
     (let host = (if Hostname (cols child) = [] then Hostname (cols r) else Hostname (cols child));
          domain = (if RowDomain (cols child) = [] then RowDomain (cols r) else RowDomain (cols child))
      in RowKey (joinName host domain) (RR (cols r)))"

definition putRowTargets :: "hostRow \<Rightarrow> groups \<Rightarrow> groups" where
  "putRowTargets r gs =
     (if \<not> enabled r \<or> IsAlias (cols r) then gs
      else if RR (cols r) \<notin> set publishedTypes then gs
      else fold (\<lambda>child gs. if \<not> enabled child then gs
                           else putTarget (childKey r child, rowTarget r, ttlValue r) gs)
             (Children r) (putTarget (rowKeyOf r, rowTarget r, ttlValue r) gs))"

definition groupRows :: "hostRow list \<Rightarrow> groups" where
  "groupRows rs = fold putRowTargets rs []"

definition Endpoints :: "(string \<Rightarrow> string \<Rightarrow> int \<Rightarrow> string list \<Rightarrow> 'e) \<Rightarrow> snapshot \<Rightarrow> 'e list" where
  "Endpoints newEndpoint sn =
     (let groups = groupRows (map (deref sn) (snRows sn));
          keys = sort (map fst groups)
      in map (\<lambda>k. let g = the (map_of groups k)
                  in newEndpoint (kname k) (krr k) (gTTL g) (sort (gTargets g))) keys)"

lemmas endpoints_defs [go_defs] = emptyGroup_def groupAdd_def putTarget_def publishedTypes_def
  childKey_def putRowTargets_def groupRows_def Endpoints_def

section \<open>The record sets, as a specification\<close>

text \<open>What a row publishes: itself, and a copy at the name of every enabled alias below it.\<close>

definition published :: "hostRow \<Rightarrow> (rowKey \<times> string \<times> int) list" where
  "published r =
     (if indexed r \<and> RR (cols r) \<in> set publishedTypes
      then map (\<lambda>k. (k, rowTarget r, ttlValue r))
             (rowKeyOf r # map (childKey r) (filter enabled (Children r)))
      else [])"

definition allPublished :: "hostRow list \<Rightarrow> (rowKey \<times> string \<times> int) list" where
  "allPublished rs = concat (map published rs)"

definition targetsOf :: "hostRow list \<Rightarrow> rowKey \<Rightarrow> string set" where
  "targetsOf rs k = {t. \<exists>ttl. (k, t, ttl) \<in> set (allPublished rs)}"

definition explicitTTLs :: "hostRow list \<Rightarrow> rowKey \<Rightarrow> int set" where
  "explicitTTLs rs k = {ttl. ttl \<noteq> 0 \<and> (\<exists>t. (k, t, ttl) \<in> set (allPublished rs))}"

definition recordTTL :: "hostRow list \<Rightarrow> rowKey \<Rightarrow> int" where
  "recordTTL rs k = (if explicitTTLs rs k = {} then 0 else Min (explicitTTLs rs k))"

lemma putRowTargets_eq: "putRowTargets r gs = fold putTarget (published r) gs"
proof -
  have "fold (\<lambda>child gs. if \<not> enabled child then gs
               else putTarget (childKey r child, rowTarget r, ttlValue r) gs) cs gs =
        fold putTarget (map (\<lambda>k. (k, rowTarget r, ttlValue r)) (map (childKey r) (filter enabled cs))) gs"
    for cs gs by (induction cs arbitrary: gs) auto
  then show ?thesis by (auto simp: putRowTargets_def published_def indexed_def)
qed

lemma groupRows_eq: "groupRows rs = fold putTarget (allPublished rs) []"
proof -
  have "fold putRowTargets rs gs = fold putTarget (allPublished rs) gs" for gs
    by (induction rs arbitrary: gs) (auto simp: putRowTargets_eq allPublished_def)
  then show ?thesis by (simp add: groupRows_def)
qed

definition addAll :: "(string \<times> int) list \<Rightarrow> group \<Rightarrow> group" where
  "addAll ps g = fold (\<lambda>(t, ttl). groupAdd t ttl) ps g"

lemma map_of_putTarget:
  "map_of (putTarget (k, t, ttl) gs) =
     (map_of gs)(k \<mapsto> groupAdd t ttl (case map_of gs k of None \<Rightarrow> emptyGroup | Some g \<Rightarrow> g))"
  by (simp add: putTarget_def update_conv')

lemma fold_putTarget:
  "map_of (fold putTarget ps gs) k =
     (let mine = map snd (filter (\<lambda>p. fst p = k) ps)
      in if mine = [] then map_of gs k
         else Some (addAll mine (case map_of gs k of None \<Rightarrow> emptyGroup | Some g \<Rightarrow> g)))"
proof (induction ps arbitrary: gs)
  case (Cons p ps)
  obtain k' t ttl where p: "p = (k', t, ttl)" by (cases p) auto
  show ?case
    by (simp add: Cons p map_of_putTarget addAll_def Let_def)
qed simp

lemma distinct_fold_putTarget:
  "distinct (map fst gs) \<Longrightarrow> distinct (map fst (fold putTarget ps gs))"
  by (induction ps arbitrary: gs) (auto simp: putTarget_def distinct_update)

lemma keys_groupRows:
  "distinct (map fst (groupRows rs))" "set (map fst (groupRows rs)) = fst ` set (allPublished rs)"
proof -
  show d: "distinct (map fst (groupRows rs))"
    by (simp add: groupRows_eq distinct_fold_putTarget)
  have "k \<in> fst ` set (groupRows rs) \<longleftrightarrow> k \<in> fst ` set (allPublished rs)" for k
  proof -
    have "k \<in> fst ` set (groupRows rs) \<longleftrightarrow> map_of (groupRows rs) k \<noteq> None"
      by (simp add: map_of_eq_None_iff)
    also have "\<dots> \<longleftrightarrow> filter (\<lambda>p. fst p = k) (allPublished rs) \<noteq> []"
      by (simp add: groupRows_eq fold_putTarget Let_def)
    also have "\<dots> \<longleftrightarrow> k \<in> fst ` set (allPublished rs)"
      by (auto simp: filter_empty_conv image_iff)
    finally show ?thesis .
  qed
  then show "set (map fst (groupRows rs)) = fst ` set (allPublished rs)" by auto
qed

text \<open>The group of a list of additions: its targets, and the smallest explicit TTL.\<close>

definition groupInv :: "(string \<times> int) list \<Rightarrow> group \<Rightarrow> bool" where
  "groupInv ps g \<longleftrightarrow>
     distinct (gTargets g) \<and> set (gTargets g) = fst ` set ps \<and>
     (let es = snd ` set ps - {0}
      in haveTTL g = (es \<noteq> {}) \<and> gTTL g = (if es = {} then 0 else Min es)) \<and>
     sawUnset g = (0 \<in> snd ` set ps) \<and>
     differs g = (\<exists>a \<in> snd ` set ps. \<exists>b \<in> snd ` set ps. a \<noteq> b)"

lemma min_if: "min (a::int) b = (if a < b then a else b)"
  by auto

lemma Min_insert_int:
  assumes "finite A" and "A \<noteq> {}"
  shows "Min (insert (a::int) A) = (if a < Min A then a else Min A)"
  using Min_insert [OF assms, of a] by (simp only: min_if)

lemma differs_insert: "((\<exists>a \<in> A. \<exists>b \<in> A. a \<noteq> b) \<or> (\<exists>a \<in> A. a \<noteq> x)) = (\<exists>a \<in> insert x A. \<exists>b \<in> insert x A. a \<noteq> b)"
proof
  assume "(\<exists>a \<in> A. \<exists>b \<in> A. a \<noteq> b) \<or> (\<exists>a \<in> A. a \<noteq> x)"
  then show "\<exists>a \<in> insert x A. \<exists>b \<in> insert x A. a \<noteq> b" by (metis insertI1 insertI2)
next
  assume "\<exists>a \<in> insert x A. \<exists>b \<in> insert x A. a \<noteq> b"
  then show "(\<exists>a \<in> A. \<exists>b \<in> A. a \<noteq> b) \<or> (\<exists>a \<in> A. a \<noteq> x)" by (metis insertE)
qed

lemma groupInv_add:
  assumes "groupInv ps g"
  shows "groupInv (ps @ [(t, ttl)]) (groupAdd t ttl g)"
proof -
  let ?es = "snd ` set ps - {0}"
  have fin: "finite ?es" by simp
  have g: "distinct (gTargets g)" "set (gTargets g) = fst ` set ps" "haveTTL g = (?es \<noteq> {})"
    "gTTL g = (if ?es = {} then 0 else Min ?es)" "sawUnset g = (0 \<in> snd ` set ps)"
    "differs g = (\<exists>a \<in> snd ` set ps. \<exists>b \<in> snd ` set ps. a \<noteq> b)"
    using assms by (auto simp: groupInv_def Let_def)
  have targets: "distinct (gTargets (groupAdd t ttl g))"
    "set (gTargets (groupAdd t ttl g)) = fst ` set (ps @ [(t, ttl)])"
    using g(1,2) by (auto simp: groupAdd_def Let_def)
  have es: "snd ` set (ps @ [(t, ttl)]) - {0} = (if ttl = 0 then ?es else insert ttl ?es)"
    by auto
  define E where "E = ?es"
  have fE: "finite E" and gE: "haveTTL g = (E \<noteq> {})" "gTTL g = (if E = {} then 0 else Min E)"
    using fin g(3,4) by (simp_all only: E_def)
  have ttls: "haveTTL (groupAdd t ttl g) = (snd ` set (ps @ [(t, ttl)]) - {0} \<noteq> {})"
    "gTTL (groupAdd t ttl g) = (if snd ` set (ps @ [(t, ttl)]) - {0} = {} then 0
        else Min (snd ` set (ps @ [(t, ttl)]) - {0}))"
  proof -
    consider "ttl = 0" | "ttl \<noteq> 0" "E = {}" | "ttl \<noteq> 0" "E \<noteq> {}" by blast
    then have "haveTTL (groupAdd t ttl g) = ((if ttl = 0 then E else insert ttl E) \<noteq> {}) \<and>
      gTTL (groupAdd t ttl g) = (if (if ttl = 0 then E else insert ttl E) = {} then 0
        else Min (if ttl = 0 then E else insert ttl E))"
    proof cases
      case 3
      then have "Min (insert ttl E) = (if ttl < Min E then ttl else Min E)"
        using fE by (intro Min_insert_int)
      with 3 gE show ?thesis by (simp add: groupAdd_def Let_def del: Min_insert)
    qed (use gE in \<open>simp_all add: groupAdd_def Let_def\<close>)
    then show "haveTTL (groupAdd t ttl g) = (snd ` set (ps @ [(t, ttl)]) - {0} \<noteq> {})"
      "gTTL (groupAdd t ttl g) = (if snd ` set (ps @ [(t, ttl)]) - {0} = {} then 0
        else Min (snd ` set (ps @ [(t, ttl)]) - {0}))"
      by (simp_all only: es E_def)
  qed
  have unset: "sawUnset (groupAdd t ttl g) = (0 \<in> snd ` set (ps @ [(t, ttl)]))"
    using g(5) by (auto simp: groupAdd_def Let_def)
  define A where "A = snd ` set ps"
  have A: "E = A - {0}" "sawUnset g = (0 \<in> A)" "differs g = (\<exists>a \<in> A. \<exists>b \<in> A. a \<noteq> b)"
    using g(5,6) by (simp_all only: A_def E_def)
  have dg: "differs (groupAdd t ttl g) = (differs g \<or> (\<exists>a \<in> A. a \<noteq> ttl))"
  proof -
    consider "ttl = 0" | "ttl \<noteq> 0" "E = {}" | "ttl \<noteq> 0" "E \<noteq> {}" by blast
    then show ?thesis
    proof cases
      case 1
      with gE(1) A(1) show ?thesis by (auto simp: groupAdd_def Let_def)
    next
      case 2
      with A(1) have "A \<subseteq> {0}" by auto
      with 2 gE(1) A(2) show ?thesis by (auto simp: groupAdd_def Let_def)
    next
      case 3
      then have "Min E \<in> E" using fE by (intro Min_in)
      then have "Min E \<in> A" using A(1) by auto
      with 3 gE A(3) show ?thesis by (cases "ttl = Min E") (auto simp: groupAdd_def Let_def)
    qed
  qed
  have "differs (groupAdd t ttl g) =
      (\<exists>a \<in> snd ` set (ps @ [(t, ttl)]). \<exists>b \<in> snd ` set (ps @ [(t, ttl)]). a \<noteq> b)"
  proof -
    have "snd ` set (ps @ [(t, ttl)]) = insert ttl A" by (simp add: A_def)
    moreover have "(differs g \<or> (\<exists>a \<in> A. a \<noteq> ttl)) = (\<exists>a \<in> insert ttl A. \<exists>b \<in> insert ttl A. a \<noteq> b)"
      unfolding A(3) by (rule differs_insert)
    ultimately show ?thesis using dg by simp
  qed
  with targets ttls unset show ?thesis by (simp add: groupInv_def Let_def)
qed

lemma groupInv_addAll: "groupInv ps (addAll ps emptyGroup)"
proof (induction ps rule: rev_induct)
  case Nil
  then show ?case by (simp add: groupInv_def addAll_def emptyGroup_def)
next
  case (snoc p ps)
  then show ?case using groupInv_add by (cases p) (auto simp: addAll_def)
qed

lemma group_of_key:
  assumes "k \<in> fst ` set (allPublished rs)"
  obtains g where "map_of (groupRows rs) k = Some g" and "distinct (gTargets g)"
    and "set (gTargets g) = targetsOf rs k" and "gTTL g = recordTTL rs k"
proof -
  let ?mine = "map snd (filter (\<lambda>p. fst p = k) (allPublished rs))"
  have ne: "?mine \<noteq> []" using assms by (auto simp: filter_empty_conv)
  have "map_of (groupRows rs) k = Some (addAll ?mine emptyGroup)"
    using ne by (simp add: groupRows_eq fold_putTarget Let_def)
  moreover have "fst ` set ?mine = targetsOf rs k"
    by (force simp: targetsOf_def)
  moreover have "snd ` set ?mine - {0} = explicitTTLs rs k"
    by (force simp: explicitTTLs_def)
  moreover have "groupInv ?mine (addAll ?mine emptyGroup)" by (rule groupInv_addAll)
  ultimately show thesis
    by (intro that [of "addAll ?mine emptyGroup"]) (simp_all only: groupInv_def Let_def recordTTL_def)
qed

lemma Endpoints_eq:
  "Endpoints newEndpoint sn =
     (let rs = map (deref sn) (snRows sn)
      in map (\<lambda>k. newEndpoint (kname k) (krr k) (recordTTL rs k) (sorted_list_of_set (targetsOf rs k)))
           (sorted_list_of_set (fst ` set (allPublished rs))))"
proof -
  let ?rs = "map (deref sn) (snRows sn)"
  have keys: "sort (map fst (groupRows ?rs)) = sorted_list_of_set (fst ` set (allPublished ?rs))"
    using keys_groupRows [of ?rs] by (simp only: sort_distinct)
  have "newEndpoint (kname k) (krr k) (gTTL (the (map_of (groupRows ?rs) k)))
          (sort (gTargets (the (map_of (groupRows ?rs) k)))) =
        newEndpoint (kname k) (krr k) (recordTTL ?rs k) (sorted_list_of_set (targetsOf ?rs k))"
    if k: "k \<in> set (sorted_list_of_set (fst ` set (allPublished ?rs)))" for k
  proof -
    from k have "k \<in> fst ` set (allPublished ?rs)" by simp
    then obtain g where "map_of (groupRows ?rs) k = Some g" "distinct (gTargets g)"
      "set (gTargets g) = targetsOf ?rs k" "gTTL g = recordTTL ?rs k" by (rule group_of_key)
    then show ?thesis by (simp add: sort_distinct)
  qed
  then show ?thesis unfolding Endpoints_def Let_def keys by (intro map_cong) auto
qed

section \<open>Property\<close>

text \<open>C22: Reading refines the specification of the record sets: one endpoint per name and type that some row
publishes, sorted, with the set of its targets in order and the smallest explicit TTL.\<close>

theorem endpoints_refine:
  "Endpoints newEndpoint (buildSnapshot rs t) =
     map (\<lambda>k. newEndpoint (kname k) (krr k) (recordTTL rs k) (sorted_list_of_set (targetsOf rs k)))
       (sorted_list_of_set (fst ` set (allPublished rs)))"
proof -
  have rows: "snRows (fold indexRow ps x) = snRows x" for ps x
    by (induction ps arbitrary: x) (simp_all add: indexRow_def Let_def)
  have "snRows (buildSnapshot rs t) = [0 ..< length rs]"
    by (simp add: buildSnapshot_def rows)
  then have "map (deref (buildSnapshot rs t)) (snRows (buildSnapshot rs t)) = rs"
    by (auto simp: deref_def intro: nth_equalityI)
  then show ?thesis by (simp add: Endpoints_eq)
qed

end
