(* ===== verification/Provider_State.thy ===== *)
theory Provider_State
  imports Index
begin

text \<open>
  What the provider of \<^verbatim>\<open>internal/opnsense/provider.go\<close> keeps between calls, the operations of
  the client it calls, and the reload of the running resolver.  \<open>'w\<close> is the state the client's
  calls act on; \<open>liveClient\<close> puts the real client in place of the record.
\<close>

record 'w client =
  cSnapshot :: "ctx \<Rightarrow> 'w \<Rightarrow> snapshot result \<times> 'w"
  cSearch :: "ctx \<Rightarrow> int \<Rightarrow> int \<Rightarrow> 'w \<Rightarrow> searchPage result \<times> 'w"
  cAdd :: "ctx \<Rightarrow> hostFields \<Rightarrow> 'w \<Rightarrow> string result \<times> 'w"
  cSet :: "ctx \<Rightarrow> string \<Rightarrow> hostFields \<Rightarrow> 'w \<Rightarrow> error option \<times> 'w"
  cDel :: "ctx \<Rightarrow> string \<Rightarrow> 'w \<Rightarrow> bool result \<times> 'w"
  cReconfigure :: "ctx \<Rightarrow> 'w \<Rightarrow> error option \<times> 'w"
  cServiceStatus :: "ctx \<Rightarrow> 'w \<Rightarrow> error option \<times> 'w"
  cListLocalData :: "ctx \<Rightarrow> 'w \<Rightarrow> localData list result \<times> 'w"

text \<open>The client of \<^verbatim>\<open>NewClient\<close>: every operation is the API call of \<^verbatim>\<open>client.go\<close>.\<close>

definition liveClient :: "'w net \<Rightarrow> config \<Rightarrow> 'w cworld client" where
  "liveClient n cfg =
     \<lparr>cSnapshot = SnapshotCall n cfg, cSearch = SearchHostOverrides n cfg,
      cAdd = AddHostOverride n cfg, cSet = SetHostOverride n cfg, cDel = DelHostOverride n cfg,
      cReconfigure = ReconfigureCall n cfg, cServiceStatus = ServiceStatus n cfg,
      cListLocalData = ListLocalData n cfg\<rparr>"

record 'w prov =
  world :: 'w
  pending :: bool
  pmets :: metrics

definition meter :: "(metrics \<Rightarrow> metrics) \<Rightarrow> 'w prov \<Rightarrow> 'w prov" where
  "meter f p = p\<lparr>pmets := f (pmets p)\<rparr>"

definition setPending :: "bool \<Rightarrow> 'w prov \<Rightarrow> 'w prov" where
  "setPending v p = meter (setGauge PendingReconfigure (if v then 1 else 0)) (p\<lparr>pending := v\<rparr>)"

text \<open>
  \<^verbatim>\<open>reconfigure\<close> runs under its own context and clears the pending flag only when the firewall
  confirmed the reload.  A repair finds nothing to do once the flag is clear.
\<close>

definition reconfigure :: "'w client \<Rightarrow> config \<Rightarrow> bool \<Rightarrow> 'w prov \<Rightarrow> error option \<times> 'w prov" where
  "reconfigure c cfg repair p =
     (if repair \<and> \<not> pending p then (None, p)
      else case cReconfigure c (CtxWithTimeout CtxBackground (cReconfigureTimeout cfg)) (world p) of
        (err, w) \<Rightarrow>
          (let p = meter (RecordReconfigure (err \<noteq> None)) (p\<lparr>world := w\<rparr>)
           in case err of Some e \<Rightarrow> (Some e, setPending True p) | None \<Rightarrow> (None, setPending False p)))"

definition NewProvider ::
  "(string \<Rightarrow> (string \<times> string \<times> string) option) \<Rightarrow> (string \<Rightarrow> string result) \<Rightarrow> (string \<Rightarrow> bool) \<Rightarrow>
     config \<Rightarrow> metrics \<Rightarrow> 'w \<Rightarrow> (config \<times> httpTransport \<times> 'w prov) result" where
  "NewProvider parse_url readFile appendCerts cfg m w =
     (case Validate parse_url cfg of
        Inl e \<Rightarrow> Inl (Wrap ''invalid opnsense configuration'' e)
      | Inr cfg \<Rightarrow>
          (case newHTTPTransport readFile appendCerts cfg of
             Inl e \<Rightarrow> Inl (Wrap ''creating opnsense client'' e)
           | Inr t \<Rightarrow> Inr (cfg, t, setPending False \<lparr>world = w, pending = False, pmets = m\<rparr>)))"

lemma meter_simps [simp]:
  "world (meter f p) = world p" "pending (meter f p) = pending p" "pmets (meter f p) = f (pmets p)"
  by (simp_all add: meter_def)

lemma setPending_simps [simp]:
  "world (setPending v p) = world p" "pending (setPending v p) = v"
  by (simp_all add: setPending_def)

text \<open>The gauge shows the flag; every provider operation keeps this.\<close>

definition gaugeOk :: "'w prov \<Rightarrow> bool" where
  "gaugeOk p \<longleftrightarrow> pmets p PendingReconfigure = Some (if pending p then 1 else 0)"

lemma gaugeOk_setPending [simp]: "gaugeOk (setPending v p)"
  by (simp add: gaugeOk_def setPending_def setGauge_def)

lemma reconfigure_cases:
  assumes "reconfigure c cfg repair p = (err, p')"
  obtains (idle) "repair" "\<not> pending p" "err = None" "p' = p"
  | (ok) w where "cReconfigure c (CtxWithTimeout CtxBackground (cReconfigureTimeout cfg)) (world p) = (None, w)"
      "err = None" "world p' = w" "\<not> pending p'" "gaugeOk p'"
  | (failed) e w where "cReconfigure c (CtxWithTimeout CtxBackground (cReconfigureTimeout cfg)) (world p) = (Some e, w)"
      "err = Some e" "world p' = w" "pending p'" "gaugeOk p'"
  using assms by (auto simp: reconfigure_def Let_def split: if_splits prod.splits option.splits)

text \<open>The flag after a reload says whether it failed.\<close>

lemma reconfigure_pending:
  "reconfigure c cfg repair p = (err, p') \<Longrightarrow> pending p' \<longleftrightarrow> err \<noteq> None"
  by (erule reconfigure_cases) auto

end
