(* ===== verification/Plan.thy ===== *)
theory Plan
  imports Provider_State
begin

text \<open>
  \<^verbatim>\<open>foldChanges\<close> of \<^verbatim>\<open>internal/opnsense/apply.go\<close>: external-dns's plan turned into one desired set
  per key.  The endpoint and plan types are external-dns's; only the fields the source reads are
  named, \<^verbatim>\<open>endpoint_scheme\<close> leaves room for the rest.
\<close>

record endpoint =
  DNSName :: string
  Targets :: "string list"
  RecordType :: string
  SetIdentifier :: string
  RecordTTL :: int

record 'm changes =
  Create :: "'m endpoint_scheme list"
  UpdateOld :: "'m endpoint_scheme list"
  UpdateNew :: "'m endpoint_scheme list"
  Delete :: "'m endpoint_scheme list"

text \<open>The Go map \<^verbatim>\<open>targets\<close> is a list without duplicates.\<close>

record desiredSet =
  dsKey :: rowKey
  dsHost :: string
  dsDomain :: string
  dsTargets :: "string list"
  dsTTL :: int
  dsFailed :: bool

definition addTarget :: "string \<Rightarrow> string list \<Rightarrow> string list" where
  "addTarget t ts = (if t \<in> set ts then ts else ts @ [t])"

definition sameSet :: "desiredSet \<Rightarrow> desiredSet \<Rightarrow> bool" where
  "sameSet a b \<longleftrightarrow>
     dsTTL a = dsTTL b \<and> length (dsTargets a) = length (dsTargets b) \<and>
     list_all (\<lambda>t. t \<in> set (dsTargets b)) (dsTargets a)"

definition isTXT :: "string \<Rightarrow> bool" where "isTXT rr \<longleftrightarrow> rr = recordTypeTXT"
definition isData :: "string \<Rightarrow> bool" where "isData rr \<longleftrightarrow> rr \<noteq> recordTypeTXT"

record foldState =
  fsSets :: "(rowKey \<times> desiredSet) list"
  fsConflicted :: "rowKey list"
  fsRejected :: "rowKey list"
  fsErrs :: "error list"
  fsMets :: metrics

definition foldErr :: "error \<Rightarrow> foldState \<Rightarrow> foldState" where
  "foldErr e st = st\<lparr>fsErrs := fsErrs st @ [e]\<rparr>"

text \<open>
  The loop over the targets of one endpoint: an invalid TXT value and an unsupported type both
  end it with an error, of which only the first marks the key as rejected.
\<close>

datatype targetError = InvalidTXT error | Unsupported error

fun foldTargets :: "string \<Rightarrow> string \<Rightarrow> string list \<Rightarrow> string list \<Rightarrow> targetError + string list" where
  "foldTargets rr name acc [] = Inr acc"
| "foldTargets rr name acc (t # ts) =
     (if rr = recordTypeA \<or> rr = recordTypeAAAA then foldTargets rr name (addTarget t acc) ts
      else if rr = recordTypeTXT then
        (case validateTXT t of
           Inl e \<Rightarrow> Inl (InvalidTXT (Wrap (''TXT '' @ name) e))
         | Inr bare \<Rightarrow> foldTargets rr name (addTarget bare acc) ts)
      else Inl (Unsupported (Wrap (rr @ '' '' @ name) ErrUnsupportedType)))"

definition define_ep :: "config \<Rightarrow> bool \<Rightarrow> 'm endpoint_scheme \<Rightarrow> foldState \<Rightarrow> foldState" where
  "define_ep cfg emptied e st =
     (let name = normaliseName (DNSName e)
      in case splitName name (cDomains cfg) of
           Inl err \<Rightarrow> foldErr (Wrap (RecordType e @ '' '' @ name) err) st
         | Inr (host, domain) \<Rightarrow>
             if \<not> emptied \<and> Targets e = [] then
               foldErr (Wrap (RecordType e @ '' '' @ name) (Plain ''no targets'')) st
             else let k = RowKey name (RecordType e)
               in if k \<in> set (fsConflicted st) then st
                  else case (if emptied then Inr [] else foldTargets (RecordType e) name [] (Targets e)) of
                    Inl (InvalidTXT err) \<Rightarrow>
                      foldErr err (st\<lparr>fsMets := inc TXTInvalid (fsMets st),
                                      fsRejected := List.insert k (fsRejected st)\<rparr>)
                  | Inl (Unsupported err) \<Rightarrow> foldErr err st
                  | Inr ts \<Rightarrow>
                      let ds = \<lparr>dsKey = k, dsHost = host, dsDomain = domain, dsTargets = ts,
                                 dsTTL = clampTTL (RecordTTL e), dsFailed = False\<rparr>
                      in (case map_of (fsSets st) k of
                            Some prev \<Rightarrow>
                              if \<not> sameSet prev ds then
                                foldErr (Wrap (RecordType e @ '' '' @ name)
                                           (Plain ''the plan describes this record two ways''))
                                  (st\<lparr>fsSets := AList.delete k (fsSets st),
                                      fsConflicted := k # fsConflicted st\<rparr>)
                              else st\<lparr>fsSets := AList.update k ds (fsSets st)\<rparr>
                          | None \<Rightarrow> st\<lparr>fsSets := AList.update k ds (fsSets st)\<rparr>))"

definition foldChanges ::
  "config \<Rightarrow> 'm changes \<Rightarrow> metrics \<Rightarrow> foldState" where
  "foldChanges cfg ch m =
     fold (define_ep cfg False) (UpdateNew ch)
       (fold (define_ep cfg False) (Create ch)
          (fold (define_ep cfg True) (Delete ch)
             \<lparr>fsSets = [], fsConflicted = [], fsRejected = [], fsErrs = [], fsMets = m\<rparr>))"

lemmas plan_defs [go_defs] = addTarget_def sameSet_def isTXT_def isData_def foldErr_def define_ep_def
  foldChanges_def

section \<open>The invariant of the fold\<close>

text \<open>
  A set is filed under its own key, its host and domain are the split of the key's name, its
  targets are distinct and fit its type, its TTL fits the model; a conflicted key has no set.
\<close>

definition setOk :: "config \<Rightarrow> rowKey \<Rightarrow> desiredSet \<Rightarrow> bool" where
  "setOk cfg k s \<longleftrightarrow>
     dsKey s = k \<and> splitName (kname k) (cDomains cfg) = Inr (dsHost s, dsDomain s) \<and>
     distinct (dsTargets s) \<and> 0 \<le> dsTTL s \<and> dsTTL s \<le> maxTTL \<and>
     (dsTargets s \<noteq> [] \<longrightarrow> krr k \<in> {recordTypeA, recordTypeAAAA, recordTypeTXT}) \<and>
     (krr k = recordTypeTXT \<longrightarrow> list_all validBare (dsTargets s))"

definition foldOk :: "config \<Rightarrow> foldState \<Rightarrow> bool" where
  "foldOk cfg st \<longleftrightarrow>
     distinct (map fst (fsSets st)) \<and> distinct (fsRejected st) \<and>
     (\<forall>(k, s) \<in> set (fsSets st). setOk cfg k s \<and> \<not> dsFailed s) \<and>
     fst ` set (fsSets st) \<inter> set (fsConflicted st) = {}"

lemma addTarget_props [simp]:
  "distinct ts \<Longrightarrow> distinct (addTarget t ts)" "set (addTarget t ts) = insert t (set ts)"
  "addTarget t ts \<noteq> []"
  by (auto simp: addTarget_def)

lemma foldTargets_Inr:
  "foldTargets rr name acc ts = Inr out \<Longrightarrow> distinct acc \<Longrightarrow>
     (acc \<noteq> [] \<longrightarrow> rr \<in> {recordTypeA, recordTypeAAAA, recordTypeTXT}) \<Longrightarrow>
     (rr = recordTypeTXT \<longrightarrow> list_all validBare acc) \<Longrightarrow>
   distinct out \<and> (out \<noteq> [] \<longrightarrow> rr \<in> {recordTypeA, recordTypeAAAA, recordTypeTXT}) \<and>
     (rr = recordTypeTXT \<longrightarrow> list_all validBare out)"
proof (induction ts arbitrary: acc)
  case (Cons t ts)
  show ?case
  proof (cases "rr = recordTypeTXT")
    case True
    then have "rr \<noteq> recordTypeA" "rr \<noteq> recordTypeAAAA" by (auto simp: record_types)
    with Cons.prems(1) True obtain bare where v: "validateTXT t = Inr bare"
      and r: "foldTargets rr name (addTarget bare acc) ts = Inr out"
      by (auto split: sum.splits)
    from v have "validBare bare" by (simp add: validateTXT_iff)
    with True Cons.prems show ?thesis
      by (intro Cons.IH [OF r]) (auto simp: list_all_iff)
  next
    case False
    with Cons.prems(1) have "rr = recordTypeA \<or> rr = recordTypeAAAA"
      and r: "foldTargets rr name (addTarget t acc) ts = Inr out"
      by (auto split: if_splits)
    with False Cons.prems show ?thesis by (intro Cons.IH [OF r]) auto
  qed
qed simp

lemma foldOk_foldErr [simp]: "foldOk cfg (foldErr e st) = foldOk cfg st"
  by (simp add: foldOk_def foldErr_def)

lemma set_update: "x \<in> set (AList.update k s xs) \<Longrightarrow> x = (k, s) \<or> x \<in> set xs"
  by (induction xs) (auto split: if_splits)

lemma set_delete: "set (AList.delete k xs) = {x \<in> set xs. fst x \<noteq> k}"
  by (auto simp: AList.delete_eq)

lemma foldOk_update:
  assumes "foldOk cfg st" and "setOk cfg k s" and "\<not> dsFailed s" and "k \<notin> set (fsConflicted st)"
  shows "foldOk cfg (st\<lparr>fsSets := AList.update k s (fsSets st)\<rparr>)"
  using assms set_update [of _ k s "fsSets st"]
  by (fastforce simp: foldOk_def distinct_update dom_update)

lemma foldOk_delete:
  assumes "foldOk cfg st"
  shows "foldOk cfg (st\<lparr>fsSets := AList.delete k (fsSets st), fsConflicted := k # fsConflicted st\<rparr>)"
  using assms unfolding foldOk_def
  by (auto simp: set_delete distinct_delete)

lemma define_ep_ok:
  assumes "foldOk cfg st"
  shows "foldOk cfg (define_ep cfg emptied e st)"
proof (cases "splitName (normaliseName (DNSName e)) (cDomains cfg)")
  case (Inl err)
  with assms show ?thesis by (simp add: define_ep_def Let_def)
next
  case (Inr hd)
  obtain h d where hd: "hd = (h, d)" by fastforce
  let ?k = "RowKey (normaliseName (DNSName e)) (RecordType e)"
  let ?ft = "if emptied then Inr [] else foldTargets (RecordType e) (normaliseName (DNSName e)) [] (Targets e)"
  show ?thesis
  proof (cases "\<not> emptied \<and> Targets e = [] \<or> ?k \<in> set (fsConflicted st)")
    case True
    with assms Inr hd show ?thesis by (auto simp: define_ep_def Let_def)
  next
    case nc: False
    show ?thesis
    proof (cases ?ft)
      case err: (Inl te)
      with assms Inr hd nc show ?thesis
        by (cases te) (auto simp: define_ep_def Let_def, auto simp: foldOk_def foldErr_def)
    next
      case ts: (Inr ts)
      let ?s = "\<lparr>dsKey = ?k, dsHost = h, dsDomain = d, dsTargets = ts,
                 dsTTL = clampTTL (RecordTTL e), dsFailed = False\<rparr>"
      have "setOk cfg ?k ?s"
        using Inr hd ts foldTargets_Inr [of "RecordType e" _ "[]" "Targets e" ts] clampTTL_range
        by (auto simp: setOk_def split: if_splits)
      then have "foldOk cfg (st\<lparr>fsSets := AList.update ?k ?s (fsSets st)\<rparr>)"
        using assms nc by (intro foldOk_update) auto
      moreover have "foldOk cfg (st\<lparr>fsSets := AList.delete ?k (fsSets st), fsConflicted := ?k # fsConflicted st\<rparr>)"
        using assms by (rule foldOk_delete)
      ultimately show ?thesis
        using Inr hd nc ts by (auto simp: define_ep_def Let_def split: option.splits)
    qed
  qed
qed

lemma fold_define_ok: "foldOk cfg st \<Longrightarrow> foldOk cfg (fold (define_ep cfg emptied) es st)"
  by (induction es arbitrary: st) (auto intro: define_ep_ok)

lemma foldChanges_ok: "foldOk cfg (foldChanges cfg ch m)"
proof -
  have "foldOk cfg \<lparr>fsSets = [], fsConflicted = [], fsRejected = [], fsErrs = [], fsMets = m\<rparr>"
    by (simp add: foldOk_def)
  then show ?thesis unfolding foldChanges_def by (intro fold_define_ok)
qed

section \<open>What the plan says of a key\<close>

text \<open>
  What one endpoint says by itself: a key, its targets and its TTL, when its name is in a managed domain, its
  type is supported and every TXT value is valid.  \<open>says cfg ch k\<close> collects what the endpoints of a plan say
  of the key \<open>k\<close>, a deleted one saying that it has no targets.
\<close>

definition described :: "config \<Rightarrow> bool \<Rightarrow> 'm endpoint_scheme \<Rightarrow> (rowKey \<times> string set \<times> int) option" where
  "described cfg emptied e =
     (let name = normaliseName (DNSName e)
      in case splitName name (cDomains cfg) of
           Inl err \<Rightarrow> None
         | Inr (host, domain) \<Rightarrow>
             if emptied then Some (RowKey name (RecordType e), {}, clampTTL (RecordTTL e))
             else if Targets e = [] then None
             else (case foldTargets (RecordType e) name [] (Targets e) of
                     Inl err \<Rightarrow> None
                   | Inr ts \<Rightarrow> Some (RowKey name (RecordType e), set ts, clampTTL (RecordTTL e))))"

definition says :: "config \<Rightarrow> 'm changes \<Rightarrow> rowKey \<Rightarrow> (string set \<times> int) set" where
  "says cfg ch k =
     {x. Some (k, x) \<in> described cfg True ` set (Delete ch) \<union> described cfg False ` (set (Create ch) \<union> set (UpdateNew ch))}"

definition twoWays :: "rowKey \<Rightarrow> error" where
  "twoWays k = Wrap (krr k @ '' '' @ kname k) (Plain ''the plan describes this record two ways'')"

definition disagree :: "(string set \<times> int) set \<Rightarrow> bool" where
  "disagree X \<longleftrightarrow> (\<exists>a b. a \<in> X \<and> b \<in> X \<and> a \<noteq> b)"

text \<open>A key has a set when the plan says one thing of it, and an error when it says two.\<close>

definition keySays :: "(string set \<times> int) set \<Rightarrow> desiredSet option \<Rightarrow> bool \<Rightarrow> bool \<Rightarrow> bool" where
  "keySays X found conflicted reported \<longleftrightarrow>
     (case found of
        Some s \<Rightarrow> X = {(set (dsTargets s), dsTTL s)}
      | None \<Rightarrow> if conflicted then disagree X \<and> reported else X = {})"

definition foldSays :: "(rowKey \<Rightarrow> (string set \<times> int) set) \<Rightarrow> foldState \<Rightarrow> bool" where
  "foldSays S st \<longleftrightarrow>
     (\<forall>k. keySays (S k) (map_of (fsSets st) k) (k \<in> set (fsConflicted st)) (twoWays k \<in> set (fsErrs st)))"

lemma keySays_simps [simp]:
  "keySays X (Some s) c r \<longleftrightarrow> X = {(set (dsTargets s), dsTTL s)}"
  "keySays X None c r \<longleftrightarrow> (if c then disagree X \<and> r else X = {})"
  by (simp_all add: keySays_def)

lemma disagree_mono: "disagree X \<Longrightarrow> X \<subseteq> Y \<Longrightarrow> disagree Y"
  unfolding disagree_def by blast

lemma keySays_mono:
  "keySays X found c r \<Longrightarrow> X \<subseteq> Y \<Longrightarrow> (r \<Longrightarrow> r') \<Longrightarrow> (Y = X \<or> found = None \<and> c) \<Longrightarrow> keySays Y found c r'"
  by (cases found) (auto split: if_splits intro: disagree_mono)

lemma sameSet_iff:
  assumes "distinct (dsTargets a)" "distinct (dsTargets b)"
  shows "sameSet a b \<longleftrightarrow> dsTTL a = dsTTL b \<and> set (dsTargets a) = set (dsTargets b)"
proof -
  have "set (dsTargets a) = set (dsTargets b)"
    if "length (dsTargets a) = length (dsTargets b)" "set (dsTargets a) \<subseteq> set (dsTargets b)"
    using that assms by (intro card_subset_eq) (simp_all add: distinct_card)
  moreover have "length (dsTargets a) = length (dsTargets b)" if "set (dsTargets a) = set (dsTargets b)"
    using that assms by (metis distinct_card)
  ultimately show ?thesis by (auto simp: sameSet_def list_all_iff)
qed

text \<open>A description that is new for its key is filed, one that repeats it changes nothing, another one conflicts.\<close>

lemma foldSays_same:
  assumes says: "foldSays S st" and st': "fsSets st' = fsSets st" "fsConflicted st' = fsConflicted st" "set (fsErrs st) \<subseteq> set (fsErrs st')"
    and S': "\<And>k. S k \<subseteq> S' k" "\<And>k. k \<notin> set (fsConflicted st) \<Longrightarrow> S' k = S k" and ok: "foldOk cfg st"
  shows "foldSays S' st'"
  unfolding foldSays_def
proof
  fix k
  have "map_of (fsSets st) k = None" if "k \<in> set (fsConflicted st)"
    using ok that by (auto simp: foldOk_def map_of_eq_None_iff)
  then have "S' k = S k \<or> map_of (fsSets st) k = None \<and> k \<in> set (fsConflicted st)" using S'(2) by blast
  with keySays_mono [OF says [unfolded foldSays_def, rule_format, of k] S'(1)] st' 
  show "keySays (S' k) (map_of (fsSets st') k) (k \<in> set (fsConflicted st')) (twoWays k \<in> set (fsErrs st'))"
    by (metis subsetD)
qed

lemma foldSays_file:
  assumes says: "foldSays S st" and k: "k \<notin> set (fsConflicted st)"
    and old: "map_of (fsSets st) k = None \<or> S k = {(set (dsTargets s), dsTTL s)}"
  shows "foldSays (S(k := insert (set (dsTargets s), dsTTL s) (S k))) (st\<lparr>fsSets := AList.update k s (fsSets st)\<rparr>)"
proof -
  have "S k \<subseteq> {(set (dsTargets s), dsTTL s)}" using old says [unfolded foldSays_def, rule_format, of k] k by auto
  then have "insert (set (dsTargets s), dsTTL s) (S k) = {(set (dsTargets s), dsTTL s)}" by blast
  then show ?thesis
    using says by (simp add: foldSays_def update_conv')
qed

lemma foldSays_conflict:
  assumes says: "foldSays S st" and old: "map_of (fsSets st) k = Some s" and new: "x \<noteq> (set (dsTargets s), dsTTL s)"
    and errs: "twoWays k \<in> set (fsErrs st')" "set (fsErrs st) \<subseteq> set (fsErrs st')"
    and st': "fsSets st' = AList.delete k (fsSets st)" "fsConflicted st' = k # fsConflicted st"
  shows "foldSays (S(k := insert x (S k))) st'"
  unfolding foldSays_def
proof
  fix k'
  let ?S = "S(k := insert x (S k))"
  have here: "keySays (S k) (map_of (fsSets st) k) (k \<in> set (fsConflicted st)) (twoWays k \<in> set (fsErrs st))" for k
    using says by (simp add: foldSays_def)
  show "keySays (?S k') (map_of (fsSets st') k') (k' \<in> set (fsConflicted st')) (twoWays k' \<in> set (fsErrs st'))"
  proof (cases "k' = k")
    case True
    have "S k = {(set (dsTargets s), dsTTL s)}" using here [of k] old by simp
    then have "disagree (insert x (S k))" using new unfolding disagree_def by blast
    with True errs(1) st' show ?thesis by (simp add: delete_conv')
  next
    case False
    with st' have "map_of (fsSets st') k' = map_of (fsSets st) k'" "k' \<in> set (fsConflicted st') \<longleftrightarrow> k' \<in> set (fsConflicted st)" "?S k' = S k'"
      by (simp_all add: delete_conv')
    moreover have "keySays (S k') (map_of (fsSets st) k') (k' \<in> set (fsConflicted st)) (twoWays k' \<in> set (fsErrs st'))"
      using errs(2) by (intro keySays_mono [OF here [of k']]) auto
    ultimately show ?thesis by (simp only:)
  qed
qed

text \<open>One endpoint adds what it says.\<close>

lemma define_ep_says:
  assumes ok: "foldOk cfg st" and says: "foldSays S st"
    and S': "S' = (\<lambda>k. S k \<union> {x. described cfg emptied e = Some (k, x)})"
  shows "foldSays S' (define_ep cfg emptied e st)"
proof -
  let ?k = "RowKey (normaliseName (DNSName e)) (RecordType e)"
  let ?ft = "if emptied then Inr [] else foldTargets (RecordType e) (normaliseName (DNSName e)) [] (Targets e)"
  note same = foldSays_same [OF says _ _ _ _ _ ok]
  show ?thesis
  proof (cases "splitName (normaliseName (DNSName e)) (cDomains cfg)")
    case (Inl err)
    then have "S' = S" unfolding S' by (simp add: described_def Let_def)
    with Inl show ?thesis by (intro same) (auto simp: define_ep_def Let_def foldErr_def)
  next
    case (Inr hd)
    obtain h d where hd: "hd = (h, d)" by fastforce
    show ?thesis
    proof (cases "\<not> emptied \<and> Targets e = []")
      case True
      then have "S' = S" using Inr hd unfolding S' by (simp add: described_def Let_def)
      with True Inr hd show ?thesis by (intro same) (auto simp: define_ep_def Let_def foldErr_def)
    next
      case ne: False
      show ?thesis
      proof (cases ?ft)
        case (Inl te)
        then have "S' = S" using Inr hd ne unfolding S' by (auto simp: described_def Let_def split: if_splits)
        with Inl Inr hd ne show ?thesis
          by (intro same) (cases te; auto simp: define_ep_def Let_def foldErr_def)+
      next
        case ts: (Inr ts)
        define s where "s = \<lparr>dsKey = ?k, dsHost = h, dsDomain = d, dsTargets = ts, dsTTL = clampTTL (RecordTTL e), dsFailed = False\<rparr>"
        have "described cfg emptied e = Some (?k, set ts, clampTTL (RecordTTL e))"
          using Inr hd ne ts by (auto simp: described_def Let_def split: if_splits)
        then have S'': "S' = S(?k := insert (set (dsTargets s), dsTTL s) (S ?k))" unfolding S' s_def by (auto simp: fun_eq_iff)
        show ?thesis
        proof (cases "?k \<in> set (fsConflicted st)")
          case True
          then have "define_ep cfg emptied e st = st" using Inr hd ne by (auto simp: define_ep_def Let_def)
          with True show ?thesis by (intro same) (auto simp: S'')
        next
          case nc: False
          have def: "define_ep cfg emptied e st =
            (case map_of (fsSets st) ?k of
               Some prev \<Rightarrow> if \<not> sameSet prev s then foldErr (twoWays ?k) (st\<lparr>fsSets := AList.delete ?k (fsSets st), fsConflicted := ?k # fsConflicted st\<rparr>)
                 else st\<lparr>fsSets := AList.update ?k s (fsSets st)\<rparr>
             | None \<Rightarrow> st\<lparr>fsSets := AList.update ?k s (fsSets st)\<rparr>)"
            using Inr hd ne nc ts unfolding s_def twoWays_def rowKey.sel by (cases emptied) (auto simp: define_ep_def Let_def)
          have ds: "distinct (dsTargets s)"
            using ts foldTargets_Inr [of "RecordType e" _ "[]" "Targets e" ts] by (auto simp: s_def split: if_splits)
          show ?thesis
          proof (cases "map_of (fsSets st) ?k")
            case None
            with foldSays_file [OF says nc, of s] def show ?thesis by (simp add: S'')
          next
            case (Some prev)
            have "distinct (dsTargets prev)"
              using ok map_of_SomeD [OF Some] by (auto simp: foldOk_def setOk_def)
            note iff = sameSet_iff [OF this ds]
            show ?thesis
            proof (cases "sameSet prev s")
              case True
              then have "S ?k = {(set (dsTargets s), dsTTL s)}" using says [unfolded foldSays_def, rule_format, of ?k] Some iff by simp
              with foldSays_file [OF says nc, of s] def Some True show ?thesis by (simp add: S'')
            next
              case False
              then have "(set (dsTargets s), dsTTL s) \<noteq> (set (dsTargets prev), dsTTL prev)" using iff by auto
              from foldSays_conflict [OF says Some this] def Some False show ?thesis
                unfolding S'' by (simp add: foldErr_def subset_insertI)
            qed
          qed
        qed
      qed
    qed
  qed
qed

lemma fold_define_says:
  "foldOk cfg st \<Longrightarrow> foldSays S st \<Longrightarrow>
   foldSays (\<lambda>k. S k \<union> {x. Some (k, x) \<in> described cfg emptied ` set es}) (fold (define_ep cfg emptied) es st)"
proof (induction es arbitrary: S st)
  case (Cons e es)
  from Cons.IH [OF define_ep_ok [OF Cons.prems(1)] define_ep_says [OF Cons.prems refl, of emptied e]]
  have "foldSays (\<lambda>k. (S k \<union> {x. described cfg emptied e = Some (k, x)}) \<union> {x. Some (k, x) \<in> described cfg emptied ` set es})
    (fold (define_ep cfg emptied) es (define_ep cfg emptied e st))" .
  moreover have "(\<lambda>k. (S k \<union> {x. described cfg emptied e = Some (k, x)}) \<union> {x. Some (k, x) \<in> described cfg emptied ` set es}) =
    (\<lambda>k. S k \<union> {x. Some (k, x) \<in> described cfg emptied ` set (e # es)})" by (auto simp: fun_eq_iff)
  ultimately show ?case by simp
qed simp

lemma foldChanges_says: "foldSays (says cfg ch) (foldChanges cfg ch m)"
proof -
  let ?st = "\<lparr>fsSets = [], fsConflicted = [], fsRejected = [], fsErrs = [], fsMets = m\<rparr>"
  have ok: "foldOk cfg ?st" and none: "foldSays (\<lambda>k. {}) ?st" by (simp_all add: foldOk_def foldSays_def keySays_def)
  from fold_define_says [OF fold_define_ok [OF fold_define_ok [OF ok]] fold_define_says [OF fold_define_ok [OF ok] fold_define_says [OF ok none]]]
  have "foldSays (\<lambda>k. ({} \<union> {x. Some (k, x) \<in> described cfg True ` set (Delete ch)}) \<union>
      {x. Some (k, x) \<in> described cfg False ` set (Create ch)} \<union> {x. Some (k, x) \<in> described cfg False ` set (UpdateNew ch)})
    (foldChanges cfg ch m)" unfolding foldChanges_def .
  moreover have "(\<lambda>k. ({} \<union> {x. Some (k, x) \<in> described cfg True ` set (Delete ch)}) \<union>
      {x. Some (k, x) \<in> described cfg False ` set (Create ch)} \<union> {x. Some (k, x) \<in> described cfg False ` set (UpdateNew ch)}) = says cfg ch"
    by (auto simp: says_def fun_eq_iff)
  ultimately show ?thesis by simp
qed

section \<open>Properties\<close>


end
