(* ===== verification/Apply.thy ===== *)
theory Apply
  imports Plan
begin

text \<open>
  \<^verbatim>\<open>internal/opnsense/apply.go\<close>: the mutable state of one \<^verbatim>\<open>ApplyChanges\<close>, the write helpers,
  \<^verbatim>\<open>converge\<close> in its two modes, the four gated phases with their verification reads, and the
  trailing reconfigure.  The keys of a phase converge one after the other, which is the code at
  \<^verbatim>\<open>ApplyWorkers\<close> 1: the error group then starts a goroutine only when the one before has ended.
  \<open>Workers\<close> has the goroutines, their interleavings and the apply over them.
\<close>

section \<open>The state of a run\<close>

definition changeCreate :: string where "changeCreate = ''create''"
definition changeUpdate :: string where "changeUpdate = ''update''"
definition changeDelete :: string where "changeDelete = ''delete''"

record writeRecord =
  wrOp :: string
  wrKey :: rowKey
  wrUUID :: string
  wrWant :: hostFields

text \<open>
  \<^verbatim>\<open>sets\<close> holds pointers; the only field written through one is \<^verbatim>\<open>failed\<close>, so a set is passed
  by value and its flag is looked up under its key.  Rows are pointers into the snapshot's heap.
\<close>

record 'w applyRun =
  arP :: "'w prov"
  arSnap :: snapshot
  arSets :: "rowKey \<rightharpoonup> desiredSet"
  arErrs :: "error list"
  wrote :: bool
  phaseFailed :: nat
  writes :: "writeRecord list"

definition markSet :: "rowKey \<Rightarrow> (rowKey \<rightharpoonup> desiredSet) \<Rightarrow> rowKey \<rightharpoonup> desiredSet" where
  "markSet k sets = (case sets k of Some s \<Rightarrow> sets(k \<mapsto> s\<lparr>dsFailed := True\<rparr>) | None \<Rightarrow> sets)"

definition failSet :: "desiredSet \<Rightarrow> error \<Rightarrow> 'w applyRun \<Rightarrow> 'w applyRun" where
  "failSet s e run = run\<lparr>arErrs := arErrs run @ [e], phaseFailed := phaseFailed run + 1,
                         arSets := markSet (dsKey s) (arSets run)\<rparr>"

definition markFailed :: "desiredSet \<Rightarrow> 'w applyRun \<Rightarrow> 'w applyRun" where
  "markFailed s run =
     (if dsTargets s \<noteq> [] then run\<lparr>arSets := markSet (dsKey s) (arSets run)\<rparr> else run)"

definition lost :: "rowKey \<Rightarrow> error \<Rightarrow> 'w applyRun \<Rightarrow> 'w applyRun" where
  "lost k e run = run\<lparr>arErrs := arErrs run @ [e], arSets := markSet k (arSets run)\<rparr>"

definition didFail :: "desiredSet \<Rightarrow> 'w applyRun \<Rightarrow> bool" where
  "didFail s run = (case arSets run (dsKey s) of Some s' \<Rightarrow> dsFailed s' | None \<Rightarrow> dsFailed s)"

definition onProv :: "('w prov \<Rightarrow> 'w prov) \<Rightarrow> 'w applyRun \<Rightarrow> 'w applyRun" where
  "onProv g run = run\<lparr>arP := g (arP run)\<rparr>"

definition putWorld :: "'w \<Rightarrow> 'w applyRun \<Rightarrow> 'w applyRun" where
  "putWorld w run = onProv (\<lambda>p. p\<lparr>world := w\<rparr>) run"

definition markWrite :: "'w applyRun \<Rightarrow> 'w applyRun" where
  "markWrite run = (if wrote run then run else onProv (setPending True) (run\<lparr>wrote := True\<rparr>))"

definition addErr :: "error \<Rightarrow> 'w applyRun \<Rightarrow> 'w applyRun" where
  "addErr e run = run\<lparr>arErrs := arErrs run @ [e]\<rparr>"

definition recordWrite :: "string \<Rightarrow> rowKey \<Rightarrow> string \<Rightarrow> hostFields \<Rightarrow> 'w applyRun \<Rightarrow> 'w applyRun" where
  "recordWrite op k u f run =
     run\<lparr>writes := writes run @ [\<lparr>wrOp = op, wrKey = k, wrUUID = u, wrWant = f\<rparr>]\<rparr>"

definition takeWrites :: "'w applyRun \<Rightarrow> writeRecord list \<times> 'w applyRun" where
  "takeWrites run = (writes run, run\<lparr>writes := []\<rparr>)"

definition startPhase :: "'w applyRun \<Rightarrow> 'w applyRun" where
  "startPhase run = run\<lparr>phaseFailed := 0\<rparr>"

definition addRow :: "hostRow \<Rightarrow> 'w applyRun \<Rightarrow> 'w applyRun" where
  "addRow r run = run\<lparr>arSnap := addSnap r (arSnap run)\<rparr>"

definition removeRow :: "rowKey \<Rightarrow> string \<Rightarrow> 'w applyRun \<Rightarrow> 'w applyRun" where
  "removeRow k u run = run\<lparr>arSnap := removeSnap k u (arSnap run)\<rparr>"

definition rowAt :: "'w applyRun \<Rightarrow> nat \<Rightarrow> hostRow" where
  "rowAt run p = deref (arSnap run) p"

text \<open>\<^verbatim>\<open>retarget\<close>: the columns a write carries; the rest of the row stays as it was read.\<close>

definition retargetRow :: "hostFields \<Rightarrow> hostRow \<Rightarrow> hostRow" where
  "retargetRow f r = HostRow ((cols r)\<lparr>Hostname := fHostname f, RowDomain := fDomain f, RR := fRR f,
     Server := fServer f, TXTData := fTXTData f, TTL := fTTL f, AddPTR := fAddPTR f,
     Description := fDescription f\<rparr>) (Children r)"

definition retarget :: "rowKey \<Rightarrow> nat \<Rightarrow> hostFields \<Rightarrow> (error, 'w applyRun) act" where
  "retarget k p f run =
     (if fieldsKey f \<noteq> k then (Panicked, run)
      else (Done, run\<lparr>arSnap := putRow p (retargetRow f (rowAt run p)) (arSnap run)\<rparr>))"

lemmas run_defs [go_defs] = failSet_def markFailed_def lost_def didFail_def onProv_def putWorld_def
  markWrite_def addErr_def recordWrite_def takeWrites_def startPhase_def addRow_def removeRow_def

section \<open>Writes\<close>

definition writeFields :: "config \<Rightarrow> desiredSet \<Rightarrow> string \<Rightarrow> hostFields" where
  "writeFields cfg s target =
     (let ptr = (if cAddPTR cfg then ''1'' else ''0'');
          txt = (krr (dsKey s) = recordTypeTXT)
      in \<lparr>fEnabled = ''1'', fHostname = dsHost s, fDomain = dsDomain s, fRR = krr (dsKey s),
           fServer = (if txt then [] else target), fTXTData = (if txt then target else []),
           fTTL = ttlField (dsTTL s), fAddPTR = (if txt then ''0'' else ptr),
           fDescription = cOwnerMarker cfg\<rparr>)"

definition sortedTargets :: "string list \<Rightarrow> string list" where
  "sortedTargets ts = sort ts"

definition zeroFields :: hostFields where
  "zeroFields = \<lparr>fEnabled = [], fHostname = [], fDomain = [], fRR = [], fServer = [], fTXTData = [],
     fTTL = [], fAddPTR = [], fDescription = []\<rparr>"

definition setRow ::
  "'w client \<Rightarrow> ctx \<Rightarrow> rowKey \<Rightarrow> nat \<Rightarrow> hostFields \<Rightarrow> string \<Rightarrow> (error, 'w applyRun) act" where
  "setRow c ctx k p f target run0 =
     (let run = markWrite run0;
          u = UUID (cols (rowAt run p))
      in case cSet c ctx u f (world (arP run)) of
           (Some e, w) \<Rightarrow>
             (Fail (Wrap (''set '' @ krr k @ '' '' @ kname k @ '' -> '' @ target @ '' ('' @ u @ '')'') e),
              putWorld w run)
         | (None, w) \<Rightarrow>
             andThen (retarget k p f)
               (\<lambda>run. (Done, onProv (meter (RecordChange changeUpdate (krr k)))
                              (recordWrite changeUpdate k u f run)))
               (putWorld w run))"

text \<open>The row a create leaves in the snapshot: what was written under the id the firewall gave.\<close>

definition createdRow :: "string \<Rightarrow> hostFields \<Rightarrow> hostRow" where
  "createdRow u f = HostRow (zeroCols\<lparr>UUID := u, Enabled := fEnabled f, Hostname := fHostname f,
     RowDomain := fDomain f, RR := fRR f, Server := fServer f, TXTData := fTXTData f, TTL := fTTL f,
     AddPTR := fAddPTR f, Description := fDescription f\<rparr>) []"

definition createRow ::
  "'w client \<Rightarrow> ctx \<Rightarrow> rowKey \<Rightarrow> hostFields \<Rightarrow> string \<Rightarrow> (error, 'w applyRun) act" where
  "createRow c ctx k f target run0 =
     (let run = markWrite run0
      in case cAdd c ctx f (world (arP run)) of
           (Inl e, w) \<Rightarrow>
             (Fail (Wrap (''add '' @ krr k @ '' '' @ kname k @ '' -> '' @ target) e), putWorld w run)
         | (Inr u, w) \<Rightarrow>
             (Done, onProv (meter (RecordChange changeCreate (krr k)))
                      (recordWrite changeCreate k u f (addRow (createdRow u f) (putWorld w run)))))"

definition deleteError :: "rowKey \<Rightarrow> string \<Rightarrow> error \<Rightarrow> error" where
  "deleteError k u e = Wrap (''delete '' @ krr k @ '' '' @ kname k @ '' ('' @ u @ '')'') e"

text \<open>The body of the loop of \<^verbatim>\<open>removeSurplus\<close>: keep, refuse, or delete.\<close>

definition removeOne :: "'w client \<Rightarrow> ctx \<Rightarrow> desiredSet \<Rightarrow> nat \<Rightarrow> (error, 'w applyRun) act" where
  "removeOne c ctx s p run0 =
     (let r = rowAt run0 p; u = UUID (cols r); k = dsKey s
      in if bareTarget r \<in> set (dsTargets s) then (Done, run0)
         else if hasEnabledChildren r then
           (Fail (deleteError k u ErrAliasChildren), onProv (meter (inc DeleteBlocked)) run0)
         else let run = markWrite run0
           in case cDel c ctx u (world (arP run)) of
                (Inl e, w) \<Rightarrow> (Fail (deleteError k u e), putWorld w run)
              | (Inr deleted, w) \<Rightarrow>
                  (Done,
                   (if deleted then onProv (meter (RecordChange changeDelete (krr k))) else id)
                     (recordWrite changeDelete k u zeroFields (removeRow k u (putWorld w run)))))"

definition removeSurplus ::
  "'w client \<Rightarrow> ctx \<Rightarrow> desiredSet \<Rightarrow> nat list \<Rightarrow> (error, 'w applyRun) act" where
  "removeSurplus c ctx s existing run =
     (if dsTargets s \<noteq> [] \<and> didFail s run then (Done, run)
      else forEach (removeOne c ctx s) existing run)"

section \<open>Converging one key\<close>

text \<open>\<^verbatim>\<open>byTarget\<close>: of two rows with the same target the later one is kept.\<close>

definition byTarget :: "snapshot \<Rightarrow> nat list \<Rightarrow> string \<rightharpoonup> nat" where
  "byTarget sn ps = map_of (rev (map (\<lambda>p. (bareTarget (deref sn p), p)) ps))"

definition inLine :: "config \<Rightarrow> desiredSet \<Rightarrow> string \<Rightarrow> hostRow \<Rightarrow> bool" where
  "inLine cfg s t r \<longleftrightarrow>
     (let f = writeFields cfg s t in ttlValue r = dsTTL s \<and> Description (cols r) = fDescription f \<and> AddPTR (cols r) = fAddPTR f)"

definition refreshTarget ::
  "'w client \<Rightarrow> config \<Rightarrow> ctx \<Rightarrow> desiredSet \<Rightarrow> (string \<rightharpoonup> nat) \<Rightarrow> string \<Rightarrow> (error, 'w applyRun) act" where
  "refreshTarget c cfg ctx s bt t run =
     (case bt t of
        None \<Rightarrow> (Done, run)
      | Some p \<Rightarrow>
          if inLine cfg s t (rowAt run p) then (Done, run)
          else setRow c ctx (dsKey s) p (writeFields cfg s t) t run)"

definition reuseRow ::
  "'w client \<Rightarrow> config \<Rightarrow> ctx \<Rightarrow> desiredSet \<Rightarrow> nat \<times> string \<Rightarrow> (error, 'w applyRun) act" where
  "reuseRow c cfg ctx s pt = setRow c ctx (dsKey s) (fst pt) (writeFields cfg s (snd pt)) (snd pt)"

definition createTarget ::
  "'w client \<Rightarrow> config \<Rightarrow> ctx \<Rightarrow> desiredSet \<Rightarrow> string \<Rightarrow> (error, 'w applyRun) act" where
  "createTarget c cfg ctx s t = createRow c ctx (dsKey s) (writeFields cfg s t) t"

definition missing :: "(string \<rightharpoonup> nat) \<Rightarrow> string list \<Rightarrow> string list" where
  "missing bt ts = filter (\<lambda>t. bt t = None) ts"

definition surplus :: "desiredSet \<Rightarrow> nat list \<Rightarrow> 'w applyRun \<Rightarrow> nat list" where
  "surplus s existing run = filter (\<lambda>p. bareTarget (rowAt run p) \<notin> set (dsTargets s)) existing"

definition placeMissing ::
  "'w client \<Rightarrow> config \<Rightarrow> ctx \<Rightarrow> desiredSet \<Rightarrow> nat list \<Rightarrow> string list \<Rightarrow> (error, 'w applyRun) act" where
  "placeMissing c cfg ctx s existing miss run =
     (let sur = surplus s existing run;
          reused = min (length miss) (length sur)
      in andThen (forEach (reuseRow c cfg ctx s) (zip (take reused sur) (take reused miss)))
           (forEach (createTarget c cfg ctx s) (drop reused miss)) run)"

definition addSet ::
  "'w client \<Rightarrow> config \<Rightarrow> ctx \<Rightarrow> desiredSet \<Rightarrow> nat list \<Rightarrow> (error, 'w applyRun) act" where
  "addSet c cfg ctx s existing run =
     (let bt = byTarget (arSnap run) existing; targets = sortedTargets (dsTargets s)
      in andThen (forEach (refreshTarget c cfg ctx s bt) targets)
           (placeMissing c cfg ctx s existing (missing bt targets)) run)"

datatype convergeMode = modeAddSet | modeRemove

definition converge ::
  "'w client \<Rightarrow> config \<Rightarrow> ctx \<Rightarrow> convergeMode \<Rightarrow> desiredSet \<Rightarrow> (error, 'w applyRun) act" where
  "converge c cfg ctx mode s run =
     (let existing = rowsFor (dsKey s) (arSnap run)
      in case mode of modeRemove \<Rightarrow> removeSurplus c ctx s existing run
                    | modeAddSet \<Rightarrow> addSet c cfg ctx s existing run)"

section \<open>The verification read\<close>

datatype problem =
    RowStillPresent
  | RowMissing
  | ReadsKey string string
  | TargetReads string
  | TTLReads string
  | DescriptionReads string
  | AddPTRReads string

text \<open>The first way a row does not read as the write described it.\<close>

definition differsFrom :: "hostRow \<Rightarrow> hostFields \<Rightarrow> problem option" where
  "differsFrom r want =
     (let c = cols r; name = joinName (Hostname c) (RowDomain c)
      in if name \<noteq> joinName (fHostname want) (fDomain want) \<or> RR c \<noteq> fRR want then Some (ReadsKey (RR c) name)
         else if bareTarget r \<noteq> fieldsTarget want then Some (TargetReads (bareTarget r))
         else if ttlValue r \<noteq> parseTTL (fTTL want) then Some (TTLReads (TTL c))
         else if Description c \<noteq> fDescription want then Some (DescriptionReads (Description c))
         else if AddPTR c \<noteq> fAddPTR want then Some (AddPTRReads (AddPTR c))
         else None)"

text \<open>The texts of the problems; the quoting of \<^verbatim>\<open>%q\<close> is reduced to the quotes around the value.\<close>

definition quotedText :: "string \<Rightarrow> string" where
  "quotedText s = [CHR 0x22] @ s @ [CHR 0x22]"

fun problemText :: "problem \<Rightarrow> string" where
  "problemText RowStillPresent = ''row still present''"
| "problemText RowMissing = ''row missing''"
| "problemText (ReadsKey rr name) = ''row reads '' @ rr @ '' '' @ name"
| "problemText (TargetReads s) = ''target reads '' @ quotedText s"
| "problemText (TTLReads s) = ''ttl reads '' @ quotedText s"
| "problemText (DescriptionReads s) = ''description reads '' @ quotedText s"
| "problemText (AddPTRReads s) = ''addptr reads '' @ quotedText s"

definition writeProblem :: "(string \<rightharpoonup> hostRow) \<Rightarrow> writeRecord \<Rightarrow> problem option" where
  "writeProblem byUUID w =
     (case byUUID (wrUUID w) of
        Some row \<Rightarrow> if wrOp w = changeDelete then Some RowStillPresent else differsFrom row (wrWant w)
      | None \<Rightarrow> if wrOp w = changeDelete then None else Some RowMissing)"

definition lostError :: "writeRecord \<Rightarrow> problem \<Rightarrow> error" where
  "lostError w pr =
     Wrap (wrOp w @ '' '' @ krr (wrKey w) @ '' '' @ kname (wrKey w) @ '' ('' @ wrUUID w @ ''): '' @ problemText pr)
       ErrLostWrite"

fun checkWrites ::
  "(string \<rightharpoonup> hostRow) \<Rightarrow> writeRecord list \<Rightarrow> 'w applyRun \<Rightarrow> nat \<times> 'w applyRun" where
  "checkWrites byUUID [] run = (0, run)"
| "checkWrites byUUID (w # ws) run =
     (case writeProblem byUUID w of
        None \<Rightarrow> checkWrites byUUID ws run
      | Some pr \<Rightarrow>
          (case checkWrites byUUID ws
                  (lost (wrKey w) (lostError w pr) (onProv (meter (inc (LostWrites (wrOp w)))) run)) of
             (n, run) \<Rightarrow> (Suc n, run)))"

definition verifyPhase :: "'w client \<Rightarrow> ctx \<Rightarrow> 'w applyRun \<Rightarrow> nat \<times> 'w applyRun" where
  "verifyPhase c ctx run0 =
     (case takeWrites run0 of (ws, run) \<Rightarrow>
        if ws = [] then (0, run)
        else case cSnapshot c ctx (world (arP run)) of
          (Inl e, w) \<Rightarrow> (0, onProv (meter (inc VerifyReadsFailed)) (putWorld w run))
        | (Inr sn, w) \<Rightarrow>
            checkWrites (map_of (rev (map (\<lambda>r. (UUID (cols r), r)) (heap sn)))) ws (putWorld w run))"

section \<open>The phases\<close>

record phase =
  phSelects :: "string \<Rightarrow> bool"
  phMode :: convergeMode
  phGatedOn :: "nat option"

definition phaseTXTAdd :: nat where "phaseTXTAdd = 0"
definition phaseDataAdd :: nat where "phaseDataAdd = 1"
definition phaseDataRemove :: nat where "phaseDataRemove = 2"
definition phaseTXTRemove :: nat where "phaseTXTRemove = 3"

lemmas phase_indices = phaseTXTAdd_def phaseDataAdd_def phaseDataRemove_def phaseTXTRemove_def

definition applyPhases :: "phase list" where
  "applyPhases =
     [\<lparr>phSelects = isTXT, phMode = modeAddSet, phGatedOn = None\<rparr>,
      \<lparr>phSelects = isData, phMode = modeAddSet, phGatedOn = Some phaseTXTAdd\<rparr>,
      \<lparr>phSelects = isData, phMode = modeRemove, phGatedOn = None\<rparr>,
      \<lparr>phSelects = isTXT, phMode = modeRemove, phGatedOn = Some phaseDataRemove\<rparr>]"

text \<open>One goroutine: its error marks the key, and the group goes on with the next key.\<close>

definition convergeKey ::
  "'w client \<Rightarrow> config \<Rightarrow> ctx \<Rightarrow> convergeMode \<Rightarrow> desiredSet \<Rightarrow> (error, 'w applyRun) act" where
  "convergeKey c cfg ctx mode s run =
     (case converge c cfg ctx mode s run of
        (Fail e, run) \<Rightarrow> (Done, failSet s e run)
      | (Done, run) \<Rightarrow> (Done, run)
      | (Panicked, run) \<Rightarrow> (Panicked, run))"

text \<open>
  The loop over the phases.  \<open>failures\<close> is the slice of the same name, \<open>i\<close> the index of the
  phase; the remove phases and the gates read what the phases before them left in it.
\<close>

definition selected :: "(string \<Rightarrow> bool) \<Rightarrow> rowKey list \<Rightarrow> (rowKey \<rightharpoonup> desiredSet) \<Rightarrow> desiredSet list" where
  "selected sel keys sets = List.map_filter (\<lambda>k. if sel (krr k) then sets k else None) keys"

definition runPhase ::
  "'w client \<Rightarrow> config \<Rightarrow> ctx \<Rightarrow> rowKey list \<Rightarrow> nat \<Rightarrow> phase \<Rightarrow> nat list \<Rightarrow> 'w applyRun \<Rightarrow>
     nat list option \<times> 'w applyRun" where
  "runPhase c cfg ctx keys i ph failures run =
     (let sel = selected (phSelects ph) keys (arSets run);
          gated = (case phGatedOn ph of None \<Rightarrow> False | Some j \<Rightarrow> 0 < failures ! j)
      in if gated then (Some failures, fold markFailed sel run)
         else case forEach (convergeKey c cfg (CtxGroup ctx) (phMode ph)) sel (startPhase run) of
                (Panicked, run) \<Rightarrow> (None, run)
              | (_, run) \<Rightarrow>
                  (case verifyPhase c ctx run of
                     (n, run') \<Rightarrow> (Some (failures[i := failures ! i + phaseFailed run + n]), run')))"

fun runPhases ::
  "'w client \<Rightarrow> config \<Rightarrow> ctx \<Rightarrow> rowKey list \<Rightarrow> nat \<Rightarrow> phase list \<Rightarrow> nat list \<Rightarrow> 'w applyRun \<Rightarrow>
     nat list option \<times> 'w applyRun" where
  "runPhases c cfg ctx keys i [] failures run = (Some failures, run)"
| "runPhases c cfg ctx keys i (ph # phs) failures run =
     (case runPhase c cfg ctx keys i ph failures run of
        (None, run) \<Rightarrow> (None, run)
      | (Some failures, run) \<Rightarrow> runPhases c cfg ctx keys (Suc i) phs failures run)"

section \<open>The apply\<close>

text \<open>
  \<open>shuffle\<close> is the order in which Go's map iteration delivers the keys; sorting them by name
  alone leaves keys of one name in that order.
\<close>

definition finishApply :: "'w client \<Rightarrow> config \<Rightarrow> 'w applyRun \<Rightarrow> error option \<times> 'w prov" where
  "finishApply c cfg run =
     (let run =
        (if wrote run \<or> pending (arP run) then
           (case reconfigure c cfg False (arP run) of
              (Some e, p) \<Rightarrow> addErr (Wrap ''reconfigure'' e) (run\<lparr>arP := p\<rparr>)
            | (None, p) \<Rightarrow> run\<lparr>arP := p\<rparr>)
         else run)
      in (joinErrors (arErrs run), arP run))"

definition beginRun :: "snapshot \<Rightarrow> foldState \<Rightarrow> 'w prov \<Rightarrow> 'w applyRun" where
  "beginRun sn st p =
     \<lparr>arP = p\<lparr>pmets := fsMets st\<rparr>, arSnap = sn, arSets = map_of (fsSets st), arErrs = fsErrs st,
      wrote = False, phaseFailed = 0, writes = []\<rparr>"

definition planKeys :: "(rowKey list \<Rightarrow> rowKey list) \<Rightarrow> foldState \<Rightarrow> rowKey list" where
  "planKeys shuffle st = sort_key kname (shuffle (map fst (fsSets st)))"

definition apply_plan ::
  "'w client \<Rightarrow> config \<Rightarrow> (rowKey list \<Rightarrow> rowKey list) \<Rightarrow> ctx \<Rightarrow> 'm changes \<Rightarrow> (error, 'w prov) act" where
  "apply_plan c cfg shuffle ctx ch p =
     (case cSnapshot c ctx (world p) of
        (Inl e, w) \<Rightarrow> (Fail e, p\<lparr>world := w\<rparr>)
      | (Inr sn, w) \<Rightarrow>
          (let st = foldChanges cfg ch (pmets p);
               run = beginRun sn st (p\<lparr>world := w\<rparr>)
           in case runPhases c cfg ctx (planKeys shuffle st) 0 applyPhases [length (fsRejected st), 0, 0, 0] run of
                (None, run) \<Rightarrow> (Panicked, arP run)
              | (Some _, run) \<Rightarrow>
                  (case finishApply c cfg run of
                     (None, p) \<Rightarrow> (Done, p)
                   | (Some e, p) \<Rightarrow> (Fail e, p))))"

end
