(* ===== verification/Tasks.thy ===== *)
theory Tasks
  imports Prelude "HOL-Library.Multiset"
begin

text \<open>
  Goroutines that share a state.  A task is a sequence of atomic steps on the shared state, each of which
  decides how the task goes on; a pool runs at most \<open>limit\<close> tasks at a time, in any interleaving, as
  an \<^verbatim>\<open>errgroup\<close> with \<^verbatim>\<open>SetLimit\<close> does for functions that return nil.
\<close>

section \<open>Tasks\<close>

datatype ('e, 's) task = Return "'e outcome" | Atom "'s \<Rightarrow> 's \<times> ('e, 's) task"

lemma task_induct [case_names Return Atom, induct type: task]:
  assumes "\<And>out. P (Return out)" and "\<And>f. (\<And>s. P (snd (f s))) \<Longrightarrow> P (Atom f)"
  shows "P t"
proof (induction t rule: task.induct)
  case (Atom f)
  have "P (snd (f s))" for s by (rule Atom [of "f s"]) (simp_all add: snds.simps)
  then show ?case by (rule assms(2))
qed (rule assms(1))

primrec runTask :: "('e, 's) task \<Rightarrow> ('e, 's) act" where
  "runTask (Return out) = (\<lambda>s. (out, s))"
| "runTask (Atom f) = (\<lambda>s. case map_prod id runTask (f s) of (s', r) \<Rightarrow> r s')"

primrec bindT :: "('e, 's) task \<Rightarrow> ('e, 's) task \<Rightarrow> ('e, 's) task" where
  "bindT (Return out) b = (if out = Done then b else Return out)"
| "bindT (Atom f) b = Atom (\<lambda>s. map_prod id (\<lambda>t. bindT t b) (f s))"

text \<open>A failed task hands its error to \<open>h\<close>.\<close>

primrec catchT :: "('e, 's) task \<Rightarrow> ('e \<Rightarrow> 's \<Rightarrow> 's) \<Rightarrow> ('e, 's) task" where
  "catchT (Return out) h = (case out of Fail e \<Rightarrow> Atom (\<lambda>s. (h e s, Return Done)) | _ \<Rightarrow> Return out)"
| "catchT (Atom f) h = Atom (\<lambda>s. map_prod id (\<lambda>t. catchT t h) (f s))"

fun eachT :: "('x \<Rightarrow> ('e, 's) task) \<Rightarrow> 'x list \<Rightarrow> ('e, 's) task" where
  "eachT f [] = Return Done"
| "eachT f (x # xs) = bindT (f x) (eachT f xs)"

definition readT :: "('s \<Rightarrow> ('e, 's) task) \<Rightarrow> ('e, 's) task" where
  "readT k = Atom (\<lambda>s. (s, k s))"

definition doT :: "('s \<Rightarrow> 's) \<Rightarrow> ('e, 's) task" where
  "doT g = Atom (\<lambda>s. (g s, Return Done))"

definition actT :: "('e, 's) act \<Rightarrow> ('e, 's) task" where
  "actT a = Atom (\<lambda>s. case a s of (out, s') \<Rightarrow> (s', Return out))"

lemma runTask_Atom [simp]: "runTask (Atom f) s = runTask (snd (f s)) (fst (f s))"
  by (cases "f s") simp

declare runTask.simps(2) [simp del]

lemma runTask_readT [simp]: "runTask (readT k) s = runTask (k s) s"
  by (simp add: readT_def)

lemma runTask_doT [simp]: "runTask (doT g) s = (Done, g s)"
  by (simp add: doT_def)

lemma runTask_actT [simp]: "runTask (actT a) s = a s"
  by (simp add: actT_def split: prod.split)

lemma runTask_bindT [simp]: "runTask (bindT t b) s = andThen (runTask t) (runTask b) s"
proof (induction t arbitrary: s)
  case (Return out)
  then show ?case by (cases out) (simp_all add: andThen_def)
next
  case (Atom f)
  have "runTask (bindT (snd (f s)) b) (fst (f s)) = andThen (runTask (snd (f s))) (runTask b) (fst (f s))"
    by (rule Atom)
  then show ?case by (simp add: andThen_def)
qed

lemma runTask_eachT [simp]: "runTask (eachT f xs) = forEach (\<lambda>x. runTask (f x)) xs"
proof
  show "runTask (eachT f xs) s = forEach (\<lambda>x. runTask (f x)) xs s" for s
    by (induction xs arbitrary: s) (simp_all add: andThen_def split: prod.split outcome.split)
qed

lemma runTask_catchT [simp]:
  "runTask (catchT t h) s = (case runTask t s of (Fail e, s') \<Rightarrow> (Done, h e s') | r \<Rightarrow> r)"
proof (induction t arbitrary: s)
  case (Return out)
  then show ?case by (cases out) simp_all
next
  case (Atom f)
  have "runTask (catchT (snd (f s)) h) (fst (f s)) = (case runTask (snd (f s)) (fst (f s)) of (Fail e, s') \<Rightarrow> (Done, h e s') | r \<Rightarrow> r)"
    by (rule Atom)
  then show ?case by simp
qed

text \<open>A task is shorter after each step.\<close>

definition nextTask :: "(('e, 's) task \<times> ('e, 's) task) set" where
  "nextTask = {(t, u). \<exists>f s. u = Atom f \<and> t = snd (f s)}"

lemma wf_nextTask: "wf (nextTask :: (('e, 's) task \<times> ('e, 's) task) set)"
proof (rule wfUNIVI)
  fix P :: "('e, 's) task \<Rightarrow> bool" and t
  assume step: "\<forall>t. (\<forall>u. (u, t) \<in> nextTask \<longrightarrow> P u) \<longrightarrow> P t"
  show "P t"
  proof (induction t)
    case (Return out)
    show ?case using step [THEN spec, of "Return out"] by (auto simp: nextTask_def)
  next
    case (Atom f)
    then show ?case using step [THEN spec, of "Atom f"] by (auto simp: nextTask_def)
  qed
qed

section \<open>The pool\<close>

text \<open>The shared state, the functions not yet started and the running tasks.\<close>

type_synonym ('x, 'e, 's) pool = "'s \<times> 'x list \<times> ('e, 's) task list"

inductive poolStep :: "('x \<Rightarrow> ('e, 's) task) \<Rightarrow> nat \<Rightarrow> ('x, 'e, 's) pool \<Rightarrow> ('x, 'e, 's) pool \<Rightarrow> bool"
  for body limit where
  start: "length ts < limit \<Longrightarrow> poolStep body limit (s, x # xs, ts) (s, xs, ts @ [body x])"
| move: "i < length ts \<Longrightarrow> ts ! i = Atom f \<Longrightarrow> poolStep body limit (s, xs, ts) (fst (f s), xs, ts[i := snd (f s)])"
| leave: "i < length ts \<Longrightarrow> ts ! i = Return Done \<Longrightarrow> poolStep body limit (s, xs, ts) (s, xs, take i ts @ drop (Suc i) ts)"

inductive_cases poolStepE: "poolStep body limit (s, xs, ts) st"

abbreviation poolRun :: "('x \<Rightarrow> ('e, 's) task) \<Rightarrow> nat \<Rightarrow> ('x, 'e, 's) pool \<Rightarrow> ('x, 'e, 's) pool \<Rightarrow> bool" where
  "poolRun body limit \<equiv> (poolStep body limit)\<^sup>*\<^sup>*"

lemma mset_others:
  assumes "i < length ts"
  obtains I where "mset ts = I + {#ts ! i#}" "mset (ts[i := t]) = I + {#t#}" "mset (take i ts @ drop (Suc i) ts) = I"
proof (rule that [of "mset (take i ts @ drop (Suc i) ts)"])
  show "mset ts = mset (take i ts @ drop (Suc i) ts) + {#ts ! i#}"
    by (subst (1) id_take_nth_drop [OF assms]) simp
  show "mset (ts[i := t]) = mset (take i ts @ drop (Suc i) ts) + {#t#}"
    using assms by (simp add: upd_conv_take_nth_drop)
qed simp

text \<open>No pool runs forever: a step starts a function, shortens a task or removes one, whatever the state.\<close>

definition poolOrder :: "(('x list \<times> ('e, 's) task list) \<times> ('x list \<times> ('e, 's) task list)) set" where
  "poolOrder = inv_image (less_than <*lex*> mult nextTask) (\<lambda>(xs, ts). (length xs, mset ts))"

lemma wf_poolOrder: "wf poolOrder"
  unfolding poolOrder_def by (intro wf_inv_image wf_lex_prod wf_less_than wf_mult wf_nextTask)

lemma poolStep_order: "poolStep body limit (s, xs, ts) (s', xs', ts') \<Longrightarrow> ((xs', ts'), (xs, ts)) \<in> poolOrder"
proof (erule poolStep.cases, goal_cases start move leave)
  case (move i us f s0 ys)
  obtain I where I: "mset us = I + {#us ! i#}" "mset (us[i := snd (f s0)]) = I + {#snd (f s0)#}"
    using mset_others [OF move(3)] by metis
  have "(snd (f s0), us ! i) \<in> nextTask" using move(4) by (auto simp: nextTask_def)
  then have "(mset (us[i := snd (f s0)]), mset us) \<in> mult nextTask"
    unfolding I by (intro one_step_implies_mult) simp_all
  with move show ?case by (simp add: poolOrder_def)
next
  case (leave i us s0 ys)
  obtain I where I: "mset us = I + {#us ! i#}" "mset (take i us @ drop (Suc i) us) = I"
    using mset_others [OF leave(3)] by metis
  have "(I + {#}, I + {#us ! i#}) \<in> mult nextTask" by (intro one_step_implies_mult) simp_all
  then have "(mset (take i us @ drop (Suc i) us), mset us) \<in> mult nextTask" using I by simp
  with leave show ?case by (simp add: poolOrder_def)
qed (simp add: poolOrder_def)

lemma wf_poolStep: "wf {(b, a). poolStep body limit a b}"
proof (rule wf_subset)
  show "wf (inv_image poolOrder (snd :: 's \<times> 'x list \<times> ('e, 's) task list \<Rightarrow> _))"
    by (intro wf_inv_image wf_poolOrder)
qed (auto dest: poolStep_order)

text \<open>While there is work, some goroutine can go on, unless all that are left have panicked.\<close>

definition resting :: "('x, 'e, 's) pool \<Rightarrow> bool" where
  "resting st \<longleftrightarrow> (case st of (s, xs, ts) \<Rightarrow> xs = [] \<and> ts = [])"

definition crashed :: "('x, 'e, 's) pool \<Rightarrow> bool" where
  "crashed st \<longleftrightarrow> (case st of (s, xs, ts) \<Rightarrow> \<exists>out. Return out \<in> set ts \<and> out \<noteq> Done)"

lemma pool_progress:
  assumes "0 < limit" "\<not> resting st" "\<not> crashed st"
  shows "\<exists>st'. poolStep body limit st st'"
proof -
  obtain s xs ts where st: "st = (s, xs, ts)" by (cases st)
  show ?thesis
  proof (cases ts)
    case Nil
    with assms st obtain x xs' where "xs = x # xs'" by (cases xs) (auto simp: resting_def)
    with Nil assms(1) st poolStep.start [of ts limit body s x xs'] show ?thesis by auto
  next
    case (Cons t ts')
    show ?thesis
    proof (cases t)
      case (Return out)
      with Cons assms(3) st have "out = Done" by (auto simp: crashed_def)
      with Cons Return st show ?thesis using poolStep.leave [of 0 ts body limit s xs] by auto
    next
      case (Atom f)
      with Cons st show ?thesis using poolStep.move [of 0 ts f body limit s xs] by auto
    qed
  qed
qed

text \<open>So every pool can be run to an end.\<close>

lemma pool_ends:
  assumes "0 < limit"
  shows "\<exists>st'. poolRun body limit st st' \<and> (resting st' \<or> crashed st')"
  using wf_poolStep [of body limit]
proof (induction st rule: wf_induct_rule)
  case (less st)
  show ?case
  proof (cases "resting st \<or> crashed st")
    case False
    with pool_progress assms obtain st1 where st1: "poolStep body limit st st1" by blast
    with less.IH [of st1] obtain st' where "poolRun body limit st1 st'" "resting st' \<or> crashed st'" by auto
    with st1 show ?thesis by (meson converse_rtranclp_into_rtranclp)
  qed blast
qed

section \<open>At most \<open>limit\<close> at a time\<close>

lemma pool_limited: "poolRun body limit (s, xs, []) (s', xs', ts') \<Longrightarrow> length ts' \<le> limit"
proof -
  have "poolRun body limit st st' \<Longrightarrow> length (snd (snd st)) \<le> limit \<Longrightarrow> length (snd (snd st')) \<le> limit" for st st'
    by (induction rule: rtranclp_induct) (auto elim!: poolStep.cases)
  from this [of "(s, xs, [])" "(s', xs', ts')"] show "poolRun body limit (s, xs, []) (s', xs', ts') \<Longrightarrow> length ts' \<le> limit" by simp
qed

section \<open>One at a time\<close>

text \<open>What is still to be done, one task after the other.\<close>

definition inTurn :: "('x \<Rightarrow> ('e, 's) task) \<Rightarrow> ('x, 'e, 's) pool \<Rightarrow> 'e outcome \<times> 's" where
  "inTurn body st = (case st of (s, xs, ts) \<Rightarrow>
     andThen (forEach runTask ts) (forEach (\<lambda>x. runTask (body x)) xs) s)"

lemma inTurn_step:
  assumes "poolStep body 1 st st'" "length (snd (snd st)) \<le> 1"
  shows "inTurn body st' = inTurn body st \<and> length (snd (snd st')) \<le> 1"
  using assms
proof cases
  case (start ts s x xs)
  then show ?thesis by (simp add: inTurn_def andThen_def split: prod.split outcome.split)
next
  case (move i ts f s xs)
  with assms(2) have "ts = [Atom f]" "i = 0" by (cases ts; simp)+
  with move show ?thesis by (simp add: inTurn_def andThen_def)
next
  case (leave i ts s xs)
  with assms(2) have "ts = [Return Done]" "i = 0" by (cases ts; simp)+
  with leave show ?thesis by (simp add: inTurn_def andThen_def)
qed

lemma inTurn_run:
  "poolRun body 1 st st' \<Longrightarrow> length (snd (snd st)) \<le> 1 \<Longrightarrow> inTurn body st' = inTurn body st \<and> length (snd (snd st')) \<le> 1"
proof (induction rule: rtranclp_induct)
  case (step y z)
  with inTurn_step [OF step.hyps(2)] show ?case by simp
qed simp

text \<open>With one worker the pool is the loop.\<close>

lemma pool_of_one:
  "poolRun body 1 (s, xs, []) (s', [], []) \<longleftrightarrow> forEach (\<lambda>x. runTask (body x)) xs s = (Done, s')"
proof
  assume "poolRun body 1 (s, xs, []) (s', [], [])"
  from inTurn_run [OF this] show "forEach (\<lambda>x. runTask (body x)) xs s = (Done, s')"
    by (simp add: inTurn_def andThen_def)
next
  assume d: "forEach (\<lambda>x. runTask (body x)) xs s = (Done, s')"
  obtain st' where st': "poolRun body 1 (s, xs, []) st'" "resting st' \<or> crashed st'" using pool_ends [of 1 body, OF zero_less_one] by blast
  obtain s2 xs2 ts2 where e: "st' = (s2, xs2, ts2)" by (cases st')
  from inTurn_run [OF st'(1)] d have t: "inTurn body st' = (Done, s')" "length ts2 \<le> 1"
    by (simp_all add: inTurn_def andThen_def e)
  show "poolRun body 1 (s, xs, []) (s', [], [])"
  proof (cases "crashed st'")
    case True
    with t e obtain out where "ts2 = [Return out]" "out \<noteq> Done" by (cases ts2) (auto simp: crashed_def)
    with t e show ?thesis by (cases out) (simp_all add: inTurn_def andThen_def)
  next
    case False
    with st' e have "st' = (s2, [], [])" by (simp add: resting_def)
    with t st'(1) show ?thesis by (simp add: inTurn_def andThen_def)
  qed
qed

lemma pool_of_one_stuck:
  "(\<exists>xs' ts'. poolRun body 1 (s, xs, []) (s', xs', ts') \<and> crashed (s', xs', ts')) \<longleftrightarrow>
     (\<exists>out. out \<noteq> Done \<and> forEach (\<lambda>x. runTask (body x)) xs s = (out, s'))"
proof
  assume "\<exists>xs' ts'. poolRun body 1 (s, xs, []) (s', xs', ts') \<and> crashed (s', xs', ts')"
  then obtain xs' ts' where p: "poolRun body 1 (s, xs, []) (s', xs', ts')" "crashed (s', xs', ts')" by blast
  from inTurn_run [OF p(1)] p(2) obtain out where "ts' = [Return out]" "out \<noteq> Done"
    by (cases ts') (auto simp: crashed_def)
  moreover from this inTurn_run [OF p(1)] have "(out, s') = forEach (\<lambda>x. runTask (body x)) xs s"
    by (cases out) (simp_all add: inTurn_def andThen_def)
  ultimately show "\<exists>out. out \<noteq> Done \<and> forEach (\<lambda>x. runTask (body x)) xs s = (out, s')" by metis
next
  assume "\<exists>out. out \<noteq> Done \<and> forEach (\<lambda>x. runTask (body x)) xs s = (out, s')"
  then obtain out where d: "out \<noteq> Done" "forEach (\<lambda>x. runTask (body x)) xs s = (out, s')" by blast
  obtain st' where st': "poolRun body 1 (s, xs, []) st'" "resting st' \<or> crashed st'" using pool_ends [of 1 body, OF zero_less_one] by blast
  obtain s2 xs2 ts2 where e: "st' = (s2, xs2, ts2)" by (cases st')
  from inTurn_run [OF st'(1)] d have t: "inTurn body st' = (out, s')" "length ts2 \<le> 1"
    by (simp_all add: inTurn_def andThen_def e)
  have "crashed st'" using st'(2) t(1) d(1) e by (auto simp: resting_def inTurn_def andThen_def)
  then obtain out' where "ts2 = [Return out']" "out' \<noteq> Done" using t(2) e by (cases ts2) (auto simp: crashed_def)
  with t(1) e have "s2 = s'" by (cases out') (auto simp: inTurn_def andThen_def)
  with st'(1) \<open>crashed st'\<close> e show "\<exists>xs' ts'. poolRun body 1 (s, xs, []) (s', xs', ts') \<and> crashed (s', xs', ts')" by blast
qed

text \<open>More workers allow more schedules.\<close>

lemma poolRun_more: "poolRun body limit st st' \<Longrightarrow> limit \<le> limit' \<Longrightarrow> poolRun body limit' st st'"
proof (induction rule: rtranclp_induct)
  case (step y z)
  from step.hyps(2) step.prems have "poolStep body limit' y z" by cases (auto intro: poolStep.intros)
  with step.IH [OF step.prems] show ?case by simp
qed simp

section \<open>What every schedule keeps\<close>

text \<open>
  Each running task holds a token, and \<open>Inv\<close> relates the shared state to the tokens held.  A task honours its token if
  each of its steps, from any state the others may have left, trades the token for one with which \<open>Inv\<close>
  holds again; it gives the token back when it ends, and panics only if \<open>brk\<close> allows it.
\<close>

primrec honours :: "bool \<Rightarrow> ('s \<Rightarrow> 'g multiset \<Rightarrow> bool) \<Rightarrow> ('e, 's) task \<Rightarrow> 'g \<Rightarrow> bool" where
  "honours brk Inv (Return out) = (\<lambda>g. out = Done \<and> (\<forall>s G. Inv s (add_mset g G) \<longrightarrow> Inv s G) \<or> out = Panicked \<and> brk)"
| "honours brk Inv (Atom f) = (\<lambda>g. \<forall>s G. Inv s (add_mset g G) \<longrightarrow>
     (\<exists>g'. Inv (fst (f s)) (add_mset g' G) \<and> snd (map_prod id (honours brk Inv) (f s)) g'))"

lemma honours_Atom [simp]:
  "honours brk Inv (Atom f) g \<longleftrightarrow> (\<forall>s G. Inv s (add_mset g G) \<longrightarrow>
     (\<exists>g'. Inv (fst (f s)) (add_mset g' G) \<and> honours brk Inv (snd (f s)) g'))"
  by simp

declare honours.simps(2) [simp del]

definition poolInv ::
  "bool \<Rightarrow> ('s \<Rightarrow> 'g multiset \<Rightarrow> bool) \<Rightarrow> 'g \<Rightarrow> ('x \<Rightarrow> ('e, 's) task) \<Rightarrow> ('x, 'e, 's) pool \<Rightarrow> bool" where
  "poolInv brk Inv g0 body st \<longleftrightarrow> (case st of (s, xs, ts) \<Rightarrow> (\<forall>x \<in> set xs. honours brk Inv (body x) g0) \<and>
     (\<exists>gs. list_all2 (honours brk Inv) ts gs \<and> Inv s (mset gs)))"

lemma poolInv_step:
  assumes "poolStep body limit st st'" "poolInv brk Inv g0 body st" and fresh: "\<And>s G. Inv s G \<Longrightarrow> Inv s (add_mset g0 G)"
  shows "poolInv brk Inv g0 body st'"
  using assms(1)
proof cases
  case (start ts s x xs)
  with assms(2) obtain gs where "list_all2 (honours brk Inv) ts gs" "Inv s (mset gs)" "honours brk Inv (body x) g0"
    by (auto simp: poolInv_def)
  then have "list_all2 (honours brk Inv) (ts @ [body x]) (gs @ [g0])" "Inv s (mset (gs @ [g0]))"
    by (simp_all add: list_all2_appendI fresh)
  with start assms(2) show ?thesis unfolding poolInv_def by auto
next
  case (move i ts f s xs)
  with assms(2) obtain gs where gs: "list_all2 (honours brk Inv) ts gs" "Inv s (mset gs)" by (auto simp: poolInv_def)
  then have "i < length gs" using move(3) by (simp add: list_all2_lengthD)
  then obtain G where G: "mset gs = G + {#gs ! i#}" "\<And>g. mset (gs[i := g]) = G + {#g#}"
    using mset_others by (metis add_right_imp_eq)
  have "honours brk Inv (Atom f) (gs ! i)" using list_all2_nthD [OF gs(1) move(3)] move(4) by simp
  then have "Inv s (add_mset (gs ! i) G) \<Longrightarrow> \<exists>g'. Inv (fst (f s)) (add_mset g' G) \<and> honours brk Inv (snd (f s)) g'" by simp
  moreover have "Inv s (add_mset (gs ! i) G)" using gs(2) G(1) by simp
  ultimately obtain g' where g': "Inv (fst (f s)) (add_mset g' G)" "honours brk Inv (snd (f s)) g'" by blast
  have "Inv (fst (f s)) (mset (gs[i := g']))" using g'(1) G(2) by simp
  moreover have "list_all2 (honours brk Inv) (ts[i := snd (f s)]) (gs[i := g'])"
    using gs(1) g'(2) by (rule list_all2_update_cong)
  ultimately show ?thesis using move assms(2) unfolding poolInv_def by auto
next
  case (leave i ts s xs)
  with assms(2) obtain gs where gs: "list_all2 (honours brk Inv) ts gs" "Inv s (mset gs)" by (auto simp: poolInv_def)
  then have "i < length gs" using leave(3) by (simp add: list_all2_lengthD)
  then obtain G where G: "mset gs = G + {#gs ! i#}" "mset (take i gs @ drop (Suc i) gs) = G" using mset_others by metis
  have "honours brk Inv (ts ! i) (gs ! i)" using list_all2_nthD [OF gs(1) leave(3)] .
  with gs(2) G leave(4) have "Inv s (mset (take i gs @ drop (Suc i) gs))" by auto
  moreover have "list_all2 (honours brk Inv) (take i ts @ drop (Suc i) ts) (take i gs @ drop (Suc i) gs)"
    using gs(1) by (intro list_all2_appendI list_all2_takeI list_all2_dropI)
  ultimately show ?thesis using leave assms(2) unfolding poolInv_def by blast
qed

text \<open>Whatever the schedule and the limit: nothing panics unless \<open>brk\<close> allows it, and \<open>Inv\<close> holds for some tokens, none at rest.\<close>

lemma pool_invariant:
  assumes run: "poolRun body limit (s, xs, []) (s', xs', ts')" and "Inv s {#}" and "\<forall>x \<in> set xs. honours brk Inv (body x) g0"
    and fresh: "\<And>s G. Inv s G \<Longrightarrow> Inv s (add_mset g0 G)"
  shows "crashed (s', xs', ts') \<Longrightarrow> brk \<and> Return Panicked \<in> set ts'" and "\<exists>G. Inv s' G \<and> size G = length ts'"
proof -
  have "poolInv brk Inv g0 body (s, xs, [])" using assms(2,3) by (auto simp: poolInv_def)
  with run have "poolInv brk Inv g0 body (s', xs', ts')"
  proof (induction rule: rtranclp_induct)
    case (step y z)
    from step.hyps(2) step.IH [OF step.prems] fresh show ?case by (rule poolInv_step)
  qed
  then obtain gs where gs: "list_all2 (honours brk Inv) ts' gs" "Inv s' (mset gs)" by (auto simp: poolInv_def)
  have "out = Done \<or> out = Panicked \<and> brk" if "Return out \<in> set ts'" for out
  proof -
    from that obtain i where "i < length ts'" "ts' ! i = Return out" by (auto simp: in_set_conv_nth)
    with list_all2_nthD [OF gs(1)] have "honours brk Inv (Return out :: ('c, 'a) task) (gs ! i)" by fastforce
    then show ?thesis by auto
  qed
  then show "crashed (s', xs', ts') \<Longrightarrow> brk \<and> Return Panicked \<in> set ts'" by (auto simp: crashed_def)
  show "\<exists>G. Inv s' G \<and> size G = length ts'" using gs by (intro exI [of _ "mset gs"]) (simp add: list_all2_lengthD)
qed

text \<open>Rules for the combinators: \<open>Q\<close> describes the outcome and the token with which a part ends.\<close>

primrec earns ::
  "('s \<Rightarrow> 'g multiset \<Rightarrow> bool) \<Rightarrow> ('e outcome \<Rightarrow> 'g \<Rightarrow> bool) \<Rightarrow> ('e, 's) task \<Rightarrow> 'g \<Rightarrow> bool" where
  "earns Inv Q (Return out) = Q out"
| "earns Inv Q (Atom f) = (\<lambda>g. \<forall>s G. Inv s (add_mset g G) \<longrightarrow>
     (\<exists>g'. Inv (fst (f s)) (add_mset g' G) \<and> snd (map_prod id (earns Inv Q) (f s)) g'))"

lemma earns_AtomI:
  assumes "\<And>s G. Inv s (add_mset g G) \<Longrightarrow> \<exists>g'. Inv (fst (f s)) (add_mset g' G) \<and> earns Inv Q (snd (f s)) g'"
  shows "earns Inv Q (Atom f) g"
  using assms by simp

lemma earns_AtomD:
  "earns Inv Q (Atom f) g \<Longrightarrow> Inv s (add_mset g G) \<Longrightarrow> \<exists>g'. Inv (fst (f s)) (add_mset g' G) \<and> earns Inv Q (snd (f s)) g'"
  by simp

declare earns.simps(2) [simp del]

lemma earns_bindT:
  assumes "earns Inv R t g" and R: "\<And>g. R Done g \<Longrightarrow> earns Inv Q b g" "\<And>out g. R out g \<Longrightarrow> out \<noteq> Done \<Longrightarrow> Q out g"
  shows "earns Inv Q (bindT t b) g"
  using assms(1)
proof (induction t arbitrary: g)
  case (Return out)
  then show ?case using R by (cases "out = Done") simp_all
next
  case (Atom f)
  have "\<exists>g'. Inv (fst (f s)) (add_mset g' G) \<and> earns Inv Q (bindT (snd (f s)) b) g'" if "Inv s (add_mset g G)" for s G
    using earns_AtomD [OF Atom.prems that] Atom.IH by blast
  then show ?case unfolding bindT.simps by (intro earns_AtomI) simp
qed

lemma earns_eachT:
  assumes "Q Done g" and "\<And>x g. x \<in> set xs \<Longrightarrow> Q Done g \<Longrightarrow> earns Inv Q (f x) g"
  shows "earns Inv Q (eachT f xs) g"
  using assms
proof (induction xs arbitrary: g)
  case (Cons x xs)
  have "earns Inv Q (f x) g" using Cons.prems by simp
  moreover have "earns Inv Q (eachT f xs) g'" if "Q Done g'" for g'
    using Cons.IH [OF that Cons.prems(2)] by simp
  ultimately show ?case unfolding eachT.simps by (rule earns_bindT)
qed simp

lemma earns_readT: "(\<And>s G. Inv s (add_mset g G) \<Longrightarrow> earns Inv Q (k s) g) \<Longrightarrow> earns Inv Q (readT k) g"
  unfolding readT_def by (intro earns_AtomI exI [of _ g]) simp

lemma earns_doT: "(\<And>s G. Inv s (add_mset g G) \<Longrightarrow> Inv (h s) (add_mset g' G)) \<Longrightarrow> Q Done g' \<Longrightarrow> earns Inv Q (doT h) g"
  unfolding doT_def by (intro earns_AtomI exI [of _ g']) simp

lemma earns_thenT:
  assumes "\<And>s G. Inv s (add_mset g G) \<Longrightarrow> Inv (h s) (add_mset g' G)" and "earns Inv Q b g'"
  shows "earns Inv Q (bindT (doT h) b) g"
  unfolding doT_def bindT.simps using assms by (intro earns_AtomI exI [of _ g']) simp

lemma honours_catchT:
  fixes t :: "('e, 's) task"
  assumes "earns Inv Q t g"
    and "\<And>s G g e. Q (Fail e) g \<Longrightarrow> Inv s (add_mset g G) \<Longrightarrow> \<exists>g'. Inv (h e s) (add_mset g' G) \<and> Q Done g'"
    and "\<And>s G g. Q Done g \<Longrightarrow> Inv s (add_mset g G) \<Longrightarrow> Inv s G" and "\<And>g. Q Panicked g \<Longrightarrow> brk"
  shows "honours brk Inv (catchT t h) g"
  using assms(1)
proof (induction t arbitrary: g)
  case (Return out)
  then have g: "Q out g" by simp
  have d: "honours brk Inv (Return Done :: ('e, 's) task) g'" if "Q Done g'" for g' using assms(3) [OF that] by simp
  show ?case
  proof (cases out)
    case (Fail e)
    have "\<exists>g'. Inv (h e s) (add_mset g' G) \<and> honours brk Inv (Return Done :: ('e, 's) task) g'" if "Inv s (add_mset g G)" for s G
      using assms(2) [OF g [unfolded Fail] that] d by blast
    with Fail show ?thesis by simp
  qed (use d g assms(4) in auto)
next
  case (Atom f)
  have "\<exists>g'. Inv (fst (f s)) (add_mset g' G) \<and> honours brk Inv (catchT (snd (f s)) h) g'" if "Inv s (add_mset g G)" for s G
    using earns_AtomD [OF Atom.prems that] Atom.IH by blast
  then show ?case by simp
qed

end
