(* ===== verification/Workers.thy ===== *)
theory Workers
  imports Apply Tasks
begin

text \<open>
  Several apply workers.  Each goroutine of a phase is a task on the shared \<open>applyRun\<close>: its atomic steps are the
  accessors that take the mutex of the run and the calls of the client, which the client's own mutex makes
  exclusive; the rows a goroutine touches belong to its key alone.  A task run on its own is the
  operation of \<open>Apply\<close>.  The relations \<open>phase_with\<close> and \<open>apply_with\<close> are a phase and an apply whose goroutines run in
  any schedule of a number of workers; with one worker they are the functions of \<open>Apply\<close>.
\<close>

section \<open>The goroutines\<close>

text \<open>A call of the client: it acts on the world alone.\<close>

definition callT :: "('w \<Rightarrow> 'r \<times> 'w) \<Rightarrow> ('r \<Rightarrow> (error, 'w applyRun) task) \<Rightarrow> (error, 'w applyRun) task" where
  "callT call k = Atom (\<lambda>run. case call (world (arP run)) of (r, w) \<Rightarrow> (putWorld w run, k r))"

definition setRowT ::
  "'w client \<Rightarrow> ctx \<Rightarrow> rowKey \<Rightarrow> nat \<Rightarrow> hostFields \<Rightarrow> string \<Rightarrow> (error, 'w applyRun) task" where
  "setRowT c ctx k p f target =
     bindT (doT markWrite)
       (readT (\<lambda>run. let u = UUID (cols (rowAt run p)) in
          callT (cSet c ctx u f)
            (\<lambda>err. case err of
               Some e \<Rightarrow> Return (Fail (Wrap (''set '' @ krr k @ '' '' @ kname k @ '' -> '' @ target @ '' ('' @ u @ '')'') e))
             | None \<Rightarrow>
                 bindT (actT (retarget k p f))
                   (bindT (doT (recordWrite changeUpdate k u f))
                      (doT (onProv (meter (RecordChange changeUpdate (krr k)))))))))"

definition createRowT ::
  "'w client \<Rightarrow> ctx \<Rightarrow> rowKey \<Rightarrow> hostFields \<Rightarrow> string \<Rightarrow> (error, 'w applyRun) task" where
  "createRowT c ctx k f target =
     bindT (doT markWrite)
       (callT (cAdd c ctx f)
          (\<lambda>res. case res of
             Inl e \<Rightarrow> Return (Fail (Wrap (''add '' @ krr k @ '' '' @ kname k @ '' -> '' @ target) e))
           | Inr u \<Rightarrow>
               bindT (doT (addRow (createdRow u f)))
                 (bindT (doT (recordWrite changeCreate k u f))
                    (doT (onProv (meter (RecordChange changeCreate (krr k))))))))"

definition removeOneT :: "'w client \<Rightarrow> ctx \<Rightarrow> desiredSet \<Rightarrow> nat \<Rightarrow> (error, 'w applyRun) task" where
  "removeOneT c ctx s p =
     readT (\<lambda>run. let r = rowAt run p; u = UUID (cols r); k = dsKey s
       in if bareTarget r \<in> set (dsTargets s) then Return Done
          else if hasEnabledChildren r then
            bindT (doT (onProv (meter (inc DeleteBlocked)))) (Return (Fail (deleteError k u ErrAliasChildren)))
          else
            bindT (doT markWrite)
              (callT (cDel c ctx u)
                 (\<lambda>res. case res of
                    Inl e \<Rightarrow> Return (Fail (deleteError k u e))
                  | Inr deleted \<Rightarrow>
                      bindT (doT (removeRow k u))
                        (bindT (doT (recordWrite changeDelete k u zeroFields))
                           (if deleted then doT (onProv (meter (RecordChange changeDelete (krr k)))) else Return Done)))))"

definition removeSurplusT ::
  "'w client \<Rightarrow> ctx \<Rightarrow> desiredSet \<Rightarrow> nat list \<Rightarrow> (error, 'w applyRun) task" where
  "removeSurplusT c ctx s existing =
     readT (\<lambda>run. if dsTargets s \<noteq> [] \<and> didFail s run then Return Done
                  else eachT (removeOneT c ctx s) existing)"

definition refreshTargetT ::
  "'w client \<Rightarrow> config \<Rightarrow> ctx \<Rightarrow> desiredSet \<Rightarrow> (string \<rightharpoonup> nat) \<Rightarrow> string \<Rightarrow> (error, 'w applyRun) task" where
  "refreshTargetT c cfg ctx s bt t =
     (case bt t of
        None \<Rightarrow> Return Done
      | Some p \<Rightarrow> readT (\<lambda>run. if inLine cfg s t (rowAt run p) then Return Done
                              else setRowT c ctx (dsKey s) p (writeFields cfg s t) t))"

definition placeMissingT ::
  "'w client \<Rightarrow> config \<Rightarrow> ctx \<Rightarrow> desiredSet \<Rightarrow> nat list \<Rightarrow> string list \<Rightarrow> (error, 'w applyRun) task" where
  "placeMissingT c cfg ctx s existing miss =
     readT (\<lambda>run. let sur = surplus s existing run; reused = min (length miss) (length sur)
       in bindT (eachT (\<lambda>(p, t). setRowT c ctx (dsKey s) p (writeFields cfg s t) t) (zip (take reused sur) (take reused miss)))
            (eachT (\<lambda>t. createRowT c ctx (dsKey s) (writeFields cfg s t) t) (drop reused miss)))"

definition addSetT ::
  "'w client \<Rightarrow> config \<Rightarrow> ctx \<Rightarrow> desiredSet \<Rightarrow> nat list \<Rightarrow> (error, 'w applyRun) task" where
  "addSetT c cfg ctx s existing =
     readT (\<lambda>run. let bt = byTarget (arSnap run) existing; targets = sortedTargets (dsTargets s)
       in bindT (eachT (refreshTargetT c cfg ctx s bt) targets)
            (placeMissingT c cfg ctx s existing (missing bt targets)))"

definition convergeT ::
  "'w client \<Rightarrow> config \<Rightarrow> ctx \<Rightarrow> convergeMode \<Rightarrow> desiredSet \<Rightarrow> (error, 'w applyRun) task" where
  "convergeT c cfg ctx mode s =
     readT (\<lambda>run. let existing = rowsFor (dsKey s) (arSnap run)
       in case mode of modeRemove \<Rightarrow> removeSurplusT c ctx s existing
                     | modeAddSet \<Rightarrow> addSetT c cfg ctx s existing)"

text \<open>The function handed to \<^verbatim>\<open>g.Go\<close>.\<close>

definition convergeKeyT ::
  "'w client \<Rightarrow> config \<Rightarrow> ctx \<Rightarrow> convergeMode \<Rightarrow> desiredSet \<Rightarrow> (error, 'w applyRun) task" where
  "convergeKeyT c cfg ctx mode s = catchT (convergeT c cfg ctx mode s) (failSet s)"

section \<open>A goroutine on its own\<close>

lemma runTask_callT [simp]: "runTask (callT call k) run = (case call (world (arP run)) of (r, w) \<Rightarrow> runTask (k r) (putWorld w run))"
  by (simp add: callT_def split: prod.split)

lemma runTask_setRowT [simp]: "runTask (setRowT c ctx k p f t) = setRow c ctx k p f t"
  by (rule ext) (simp add: setRowT_def setRow_def Let_def andThen_def split: prod.split option.split outcome.split)

lemma runTask_createRowT [simp]: "runTask (createRowT c ctx k f t) = createRow c ctx k f t"
  by (rule ext) (simp add: createRowT_def createRow_def Let_def andThen_def split: prod.split sum.split)

lemma runTask_removeOneT [simp]: "runTask (removeOneT c ctx s p) = removeOne c ctx s p"
  by (rule ext) (simp add: removeOneT_def removeOne_def Let_def andThen_def split: prod.split sum.split)

lemma runTask_convergeKeyT: "runTask (convergeKeyT c cfg ctx mode s) run = convergeKey c cfg ctx mode s run"
proof -
  have rem: "runTask (removeSurplusT c ctx s ps) = removeSurplus c ctx s ps" for ps
    by (rule ext) (simp add: removeSurplusT_def removeSurplus_def)
  have ref: "runTask (refreshTargetT c cfg ctx s bt t) = refreshTarget c cfg ctx s bt t" for bt t
    by (rule ext) (simp add: refreshTargetT_def refreshTarget_def split: option.split)
  have pl: "runTask (placeMissingT c cfg ctx s ps miss) = placeMissing c cfg ctx s ps miss" for ps miss
    by (rule ext) (simp add: placeMissingT_def placeMissing_def Let_def reuseRow_def [abs_def] createTarget_def [abs_def] case_prod_unfold)
  have add: "runTask (addSetT c cfg ctx s ps) = addSet c cfg ctx s ps" for ps
    by (rule ext) (simp add: addSetT_def addSet_def Let_def ref pl)
  show ?thesis
    by (simp add: convergeKeyT_def convergeT_def convergeKey_def converge_def Let_def rem add split: convergeMode.split)
qed

section \<open>Phases and applies with several workers\<close>

text \<open>
  The group runs at most \<open>w\<close> goroutines.  The phase is over when all have ended.  The group does not recover a panic
  of one of them, which ends the process at whatever point the others are: \<open>broken\<close>, the result \<open>None\<close> of the phase and the
  outcome \<open>Panicked\<close> of the apply stand for that end.
\<close>

definition gatedOut :: "phase \<Rightarrow> nat list \<Rightarrow> bool" where
  "gatedOut ph failures \<longleftrightarrow> (case phGatedOn ph of None \<Rightarrow> False | Some j \<Rightarrow> 0 < failures ! j)"

inductive phase_with ::
  "nat \<Rightarrow> 'w client \<Rightarrow> config \<Rightarrow> ctx \<Rightarrow> rowKey list \<Rightarrow> nat \<Rightarrow> phase \<Rightarrow> nat list \<Rightarrow> 'w applyRun \<Rightarrow>
     nat list option \<Rightarrow> 'w applyRun \<Rightarrow> bool"
  for w c cfg ctx keys i ph failures run where
  skipped: "gatedOut ph failures \<Longrightarrow>
     phase_with w c cfg ctx keys i ph failures run (Some failures) (fold markFailed (selected (phSelects ph) keys (arSets run)) run)"
| broken: "\<not> gatedOut ph failures \<Longrightarrow>
     poolRun (convergeKeyT c cfg (CtxGroup ctx) (phMode ph)) w
       (startPhase run, selected (phSelects ph) keys (arSets run), []) (run1, xs, ts) \<Longrightarrow>
     crashed (run1, xs, ts) \<Longrightarrow>
     phase_with w c cfg ctx keys i ph failures run None run1"
| drained: "\<not> gatedOut ph failures \<Longrightarrow>
     poolRun (convergeKeyT c cfg (CtxGroup ctx) (phMode ph)) w
       (startPhase run, selected (phSelects ph) keys (arSets run), []) (run1, [], []) \<Longrightarrow>
     verifyPhase c ctx run1 = (n, run2) \<Longrightarrow>
     phase_with w c cfg ctx keys i ph failures run (Some (failures[i := failures ! i + phaseFailed run1 + n])) run2"

inductive phases_with ::
  "nat \<Rightarrow> 'w client \<Rightarrow> config \<Rightarrow> ctx \<Rightarrow> rowKey list \<Rightarrow> nat \<Rightarrow> phase list \<Rightarrow> nat list \<Rightarrow> 'w applyRun \<Rightarrow>
     nat list option \<Rightarrow> 'w applyRun \<Rightarrow> bool"
  for w c cfg ctx keys where
  all_run: "phases_with w c cfg ctx keys i [] failures run (Some failures) run"
| stop: "phase_with w c cfg ctx keys i ph failures run None run' \<Longrightarrow>
     phases_with w c cfg ctx keys i (ph # phs) failures run None run'"
| go_on: "phase_with w c cfg ctx keys i ph failures run (Some failures') run' \<Longrightarrow>
     phases_with w c cfg ctx keys (Suc i) phs failures' run' res run'' \<Longrightarrow>
     phases_with w c cfg ctx keys i (ph # phs) failures run res run''"

inductive_simps phases_with_Nil: "phases_with w c cfg ctx keys i [] failures run res run'"
inductive_simps phases_with_Cons: "phases_with w c cfg ctx keys i (ph # phs) failures run res run'"

definition applied ::
  "'w client \<Rightarrow> config \<Rightarrow> nat list option \<Rightarrow> 'w applyRun \<Rightarrow> error outcome \<times> 'w prov" where
  "applied c cfg res run =
     (case res of
        None \<Rightarrow> (Panicked, arP run)
      | Some _ \<Rightarrow>
          (case finishApply c cfg run of
             (None, p) \<Rightarrow> (Done, p)
           | (Some e, p) \<Rightarrow> (Fail e, p)))"

definition apply_with ::
  "nat \<Rightarrow> 'w client \<Rightarrow> config \<Rightarrow> (rowKey list \<Rightarrow> rowKey list) \<Rightarrow> ctx \<Rightarrow> 'm changes \<Rightarrow> 'w prov \<Rightarrow>
     error outcome \<Rightarrow> 'w prov \<Rightarrow> bool" where
  "apply_with w c cfg shuffle ctx ch p out p' \<longleftrightarrow>
     (case cSnapshot c ctx (world p) of
        (Inl e, v) \<Rightarrow> out = Fail e \<and> p' = p\<lparr>world := v\<rparr>
      | (Inr sn, v) \<Rightarrow>
          (let st = foldChanges cfg ch (pmets p);
               run = beginRun sn st (p\<lparr>world := v\<rparr>)
           in \<exists>res run'. phases_with w c cfg ctx (planKeys shuffle st) 0 applyPhases [length (fsRejected st), 0, 0, 0] run res run' \<and>
                applied c cfg res run' = (out, p')))"

section \<open>One worker\<close>

lemma convergeKey_fails_not: "convergeKey c cfg ctx mode s run = (out, run') \<Longrightarrow> out \<noteq> Fail e"
  by (auto simp: convergeKey_def split: outcome.splits prod.splits)

lemma convergeKeys_fail_not: "forEach (convergeKey c cfg ctx mode) ss run = (out, run') \<Longrightarrow> out \<noteq> Fail e"
proof (induction ss arbitrary: run)
  case (Cons s ss)
  obtain o1 r1 where o1: "convergeKey c cfg ctx mode s run = (o1, r1)" by fastforce
  from Cons.prems Cons.IH [of r1] o1 convergeKey_fails_not [OF o1] show ?case by (cases o1) (auto simp: andThen_def)
qed simp

lemma one_worker_loop:
  "poolRun (convergeKeyT c cfg ctx mode) 1 (run, ss, []) (run', [], []) \<longleftrightarrow>
     forEach (convergeKey c cfg ctx mode) ss run = (Done, run')"
  unfolding pool_of_one runTask_convergeKeyT [abs_def] by (simp add: runTask_convergeKeyT fun_eq_iff)

lemma one_worker_panics:
  "(\<exists>xs ts. poolRun (convergeKeyT c cfg ctx mode) 1 (run, ss, []) (run', xs, ts) \<and> crashed (run', xs, ts)) \<longleftrightarrow>
     forEach (convergeKey c cfg ctx mode) ss run = (Panicked, run')"
proof -
  have "forEach (\<lambda>s. runTask (convergeKeyT c cfg ctx mode s)) ss run = forEach (convergeKey c cfg ctx mode) ss run"
    by (simp add: runTask_convergeKeyT [abs_def])
  then show ?thesis
    unfolding pool_of_one_stuck using convergeKeys_fail_not [of c cfg ctx mode ss run] by simp (metis outcome.exhaust outcome.distinct(3))
qed

lemma phase_with_one:
  "phase_with 1 c cfg ctx keys i ph failures run res run' \<longleftrightarrow> runPhase c cfg ctx keys i ph failures run = (res, run')"
proof (cases "gatedOut ph failures")
  case True
  then show ?thesis by (auto simp: phase_with.simps runPhase_def gatedOut_def Let_def)
next
  case False
  let ?sel = "selected (phSelects ph) keys (arSets run)"
  obtain o1 r1 where o1: "forEach (convergeKey c cfg (CtxGroup ctx) (phMode ph)) ?sel (startPhase run) = (o1, r1)" by fastforce
  have "phase_with 1 c cfg ctx keys i ph failures run res run' \<longleftrightarrow>
      (res = None \<and> (\<exists>xs ts. poolRun (convergeKeyT c cfg (CtxGroup ctx) (phMode ph)) 1 (startPhase run, ?sel, []) (run', xs, ts) \<and> crashed (run', xs, ts))) \<or>
      (\<exists>r1 n. poolRun (convergeKeyT c cfg (CtxGroup ctx) (phMode ph)) 1 (startPhase run, ?sel, []) (r1, [], []) \<and>
        verifyPhase c ctx r1 = (n, run') \<and> res = Some (failures[i := failures ! i + phaseFailed r1 + n]))"
    using False by (subst phase_with.simps) blast
  then have iff: "phase_with 1 c cfg ctx keys i ph failures run res run' \<longleftrightarrow>
      res = None \<and> forEach (convergeKey c cfg (CtxGroup ctx) (phMode ph)) ?sel (startPhase run) = (Panicked, run') \<or>
      (\<exists>r1 n. forEach (convergeKey c cfg (CtxGroup ctx) (phMode ph)) ?sel (startPhase run) = (Done, r1) \<and>
        verifyPhase c ctx r1 = (n, run') \<and> res = Some (failures[i := failures ! i + phaseFailed r1 + n]))"
    unfolding one_worker_loop one_worker_panics .
  have rp: "runPhase c cfg ctx keys i ph failures run = (case o1 of Panicked \<Rightarrow> (None, r1)
      | _ \<Rightarrow> (case verifyPhase c ctx r1 of (n, r2) \<Rightarrow> (Some (failures[i := failures ! i + phaseFailed r1 + n]), r2)))"
    using False o1 by (simp add: runPhase_def gatedOut_def Let_def split: outcome.split)
  from convergeKeys_fail_not [OF o1] show ?thesis
    unfolding iff o1 rp by (cases o1) (auto split: prod.split)
qed

lemma phases_with_one:
  "phases_with 1 c cfg ctx keys i phs failures run res run' \<longleftrightarrow> runPhases c cfg ctx keys i phs failures run = (res, run')"
proof (induction phs arbitrary: i failures run)
  case Nil
  then show ?case by (auto simp: phases_with_Nil)
next
  case (Cons ph phs)
  show ?case unfolding phases_with_Cons phase_with_one Cons.IH by (auto split: prod.splits option.splits)
qed

lemma apply_with_one: "apply_with 1 c cfg shuffle ctx ch p out p' \<longleftrightarrow> apply_plan c cfg shuffle ctx ch p = (out, p')"
proof -
  have "apply_plan c cfg shuffle ctx ch p =
     (case cSnapshot c ctx (world p) of
        (Inl e, v) \<Rightarrow> (Fail e, p\<lparr>world := v\<rparr>)
      | (Inr sn, v) \<Rightarrow>
          (let st = foldChanges cfg ch (pmets p); run = beginRun sn st (p\<lparr>world := v\<rparr>)
           in case runPhases c cfg ctx (planKeys shuffle st) 0 applyPhases [length (fsRejected st), 0, 0, 0] run of
                (res, run') \<Rightarrow> applied c cfg res run'))"
    by (simp add: apply_plan_def applied_def Let_def split: prod.split sum.split option.split)
  moreover have "(\<exists>res run'. x = (res, run') \<and> applied c cfg res run' = y) \<longleftrightarrow> (case x of (res, run') \<Rightarrow> applied c cfg res run') = y" for x y
    by (cases x) simp
  ultimately show ?thesis
    unfolding apply_with_def phases_with_one Let_def by (simp split: prod.split sum.split, blast)
qed

text \<open>C11: One worker converges the keys of a phase in the order the phase lists them: an apply whose error group is limited to
one goroutine is the sequential apply.\<close>

theorem one_worker_in_order:
  "apply_with 1 c cfg shuffle ctx ch p out p' \<longleftrightarrow> apply_plan c cfg shuffle ctx ch p = (out, p')"
  by (rule apply_with_one)

text \<open>A schedule of fewer workers is one of more.\<close>

lemma phase_with_more:
  "phase_with w c cfg ctx keys i ph failures run res run' \<Longrightarrow> w \<le> w' \<Longrightarrow> phase_with w' c cfg ctx keys i ph failures run res run'"
  by (induction rule: phase_with.induct) (auto intro: phase_with.intros dest: poolRun_more)

lemma phases_with_more:
  "phases_with w c cfg ctx keys i phs failures run res run' \<Longrightarrow> w \<le> w' \<Longrightarrow> phases_with w' c cfg ctx keys i phs failures run res run'"
  by (induction rule: phases_with.induct) (auto intro: phases_with.intros phase_with_more)

lemma apply_with_more: "apply_with w c cfg shuffle ctx ch p out p' \<Longrightarrow> w \<le> w' \<Longrightarrow> apply_with w' c cfg shuffle ctx ch p out p'"
  unfolding apply_with_def Let_def by (auto split: prod.splits sum.splits intro: phases_with_more)

lemma apply_with_sequential:
  "apply_plan c cfg shuffle ctx ch p = (out, p') \<Longrightarrow> 0 < w \<Longrightarrow> apply_with w c cfg shuffle ctx ch p out p'"
  unfolding apply_with_one [symmetric] by (erule apply_with_more) simp

end
