(* ===== verification/Apply_Log.thy ===== *)
theory Apply_Log
  imports Apply
begin

text \<open>
  What an apply does to the firewall, for any client whatsoever: the monitor \<open>logged\<close> wraps a
  client and keeps the calls in order with their answers.  The calls each mode may make, and the rows
  the index of an apply can show.
\<close>

section \<open>The monitor\<close>

datatype call =
    CallRead "snapshot result"
  | CallAdd hostFields "string result"
  | CallSet string hostFields "error option"
  | CallDel string "bool result"
  | CallReload "error option"

definition logged :: "'w client \<Rightarrow> ('w \<times> call list) client" where
  "logged c =
     \<lparr>cSnapshot = (\<lambda>ctx (w, l). case cSnapshot c ctx w of (r, w) \<Rightarrow> (r, w, l @ [CallRead r])),
      cSearch = (\<lambda>ctx i n (w, l). case cSearch c ctx i n w of (r, w) \<Rightarrow> (r, w, l)),
      cAdd = (\<lambda>ctx f (w, l). case cAdd c ctx f w of (r, w) \<Rightarrow> (r, w, l @ [CallAdd f r])),
      cSet = (\<lambda>ctx u f (w, l). case cSet c ctx u f w of (r, w) \<Rightarrow> (r, w, l @ [CallSet u f r])),
      cDel = (\<lambda>ctx u (w, l). case cDel c ctx u w of (r, w) \<Rightarrow> (r, w, l @ [CallDel u r])),
      cReconfigure = (\<lambda>ctx (w, l). case cReconfigure c ctx w of (r, w) \<Rightarrow> (r, w, l @ [CallReload r])),
      cServiceStatus = (\<lambda>ctx (w, l). case cServiceStatus c ctx w of (r, w) \<Rightarrow> (r, w, l)),
      cListLocalData = (\<lambda>ctx (w, l). case cListLocalData c ctx w of (r, w) \<Rightarrow> (r, w, l))\<rparr>"

text \<open>A write the firewall acknowledged is recorded for the verification read, and only such a write.\<close>

fun ackRecord :: "rowKey \<Rightarrow> call \<Rightarrow> writeRecord option" where
  "ackRecord k (CallAdd f (Inr u)) = Some \<lparr>wrOp = changeCreate, wrKey = k, wrUUID = u, wrWant = f\<rparr>"
| "ackRecord k (CallSet u f None) = Some \<lparr>wrOp = changeUpdate, wrKey = k, wrUUID = u, wrWant = f\<rparr>"
| "ackRecord k (CallDel u (Inr b)) = Some \<lparr>wrOp = changeDelete, wrKey = k, wrUUID = u, wrWant = zeroFields\<rparr>"
| "ackRecord k _ = None"

fun isWrite :: "call \<Rightarrow> bool" where
  "isWrite (CallRead _) \<longleftrightarrow> False"
| "isWrite (CallReload _) \<longleftrightarrow> False"
| "isWrite _ \<longleftrightarrow> True"

definition acked :: "call \<Rightarrow> bool" where
  "acked x \<longleftrightarrow> ackRecord (RowKey [] []) x \<noteq> None"

lemma ackRecord_None: "ackRecord k x = None \<longleftrightarrow> \<not> acked x"
  unfolding acked_def by (induction k x rule: ackRecord.induct) auto

lemma acked_simps [simp]:
  "acked (CallAdd f r) \<longleftrightarrow> \<not> isl r" "acked (CallSet u f e) \<longleftrightarrow> e = None" "acked (CallDel u d) \<longleftrightarrow> \<not> isl d"
  "\<not> acked (CallRead x)" "\<not> acked (CallReload e)"
  by (cases r; cases e; cases d; simp add: acked_def)+

abbreviation logOf :: "('w \<times> call list) applyRun \<Rightarrow> call list" where
  "logOf run \<equiv> snd (world (arP run))"

lemma map_filter_append [simp]: "List.map_filter f (xs @ ys) = List.map_filter f xs @ List.map_filter f ys"
  by (simp add: List.map_filter_def)

section \<open>The fields each operation leaves alone\<close>

lemma onProv_simps [simp]:
  "arP (onProv g run) = g (arP run)" "arSnap (onProv g run) = arSnap run" "arSets (onProv g run) = arSets run"
  "arErrs (onProv g run) = arErrs run" "wrote (onProv g run) = wrote run"
  "phaseFailed (onProv g run) = phaseFailed run" "writes (onProv g run) = writes run"
  by (simp_all add: onProv_def)

lemma putWorld_simps [simp]:
  "world (arP (putWorld w run)) = w" "pending (arP (putWorld w run)) = pending (arP run)"
  "arSnap (putWorld w run) = arSnap run" "arSets (putWorld w run) = arSets run"
  "arErrs (putWorld w run) = arErrs run" "wrote (putWorld w run) = wrote run"
  "phaseFailed (putWorld w run) = phaseFailed run" "writes (putWorld w run) = writes run"
  by (simp_all add: putWorld_def)

lemma markWrite_simps [simp]:
  "world (arP (markWrite run)) = world (arP run)" "arSnap (markWrite run) = arSnap run"
  "arSets (markWrite run) = arSets run" "arErrs (markWrite run) = arErrs run" "wrote (markWrite run)"
  "phaseFailed (markWrite run) = phaseFailed run" "writes (markWrite run) = writes run"
  "pending (arP (markWrite run)) \<longleftrightarrow> pending (arP run) \<or> \<not> wrote run"
  by (auto simp: markWrite_def)

lemma recordWrite_simps [simp]:
  "arP (recordWrite op k u f run) = arP run" "arSnap (recordWrite op k u f run) = arSnap run"
  "arSets (recordWrite op k u f run) = arSets run" "arErrs (recordWrite op k u f run) = arErrs run"
  "wrote (recordWrite op k u f run) = wrote run" "phaseFailed (recordWrite op k u f run) = phaseFailed run"
  "writes (recordWrite op k u f run) = writes run @ [\<lparr>wrOp = op, wrKey = k, wrUUID = u, wrWant = f\<rparr>]"
  by (simp_all add: recordWrite_def)

lemma addRow_simps [simp]:
  "arP (addRow r run) = arP run" "arSnap (addRow r run) = addSnap r (arSnap run)"
  "arSets (addRow r run) = arSets run" "arErrs (addRow r run) = arErrs run" "wrote (addRow r run) = wrote run"
  "phaseFailed (addRow r run) = phaseFailed run" "writes (addRow r run) = writes run"
  by (simp_all add: addRow_def)

lemma removeRow_simps [simp]:
  "arP (removeRow k u run) = arP run" "arSnap (removeRow k u run) = removeSnap k u (arSnap run)"
  "arSets (removeRow k u run) = arSets run" "arErrs (removeRow k u run) = arErrs run"
  "wrote (removeRow k u run) = wrote run"
  "phaseFailed (removeRow k u run) = phaseFailed run" "writes (removeRow k u run) = writes run"
  by (simp_all add: removeRow_def)

lemma rowAt_simps [simp]:
  "rowAt (onProv g run) = rowAt run" "rowAt (putWorld w run) = rowAt run" "rowAt (markWrite run) = rowAt run"
  "rowAt (recordWrite op k u f run) = rowAt run"
  by (simp_all add: rowAt_def fun_eq_iff)

lemma cSet_logged:
  "cSet c ctx u f (fst wl) = (e, w) \<Longrightarrow> cSet (logged c) ctx u f wl = (e, w, snd wl @ [CallSet u f e])"
  by (cases wl) (simp add: logged_def)

lemma cAdd_logged:
  "cAdd c ctx f (fst wl) = (e, w) \<Longrightarrow> cAdd (logged c) ctx f wl = (e, w, snd wl @ [CallAdd f e])"
  by (cases wl) (simp add: logged_def)

lemma cDel_logged:
  "cDel c ctx u (fst wl) = (e, w) \<Longrightarrow> cDel (logged c) ctx u wl = (e, w, snd wl @ [CallDel u e])"
  by (cases wl) (simp add: logged_def)

lemma byTarget_in: "byTarget sn ps t = Some p \<Longrightarrow> p \<in> set ps \<and> bareTarget (deref sn p) = t"
  unfolding byTarget_def by (auto dest!: map_of_SomeD)

lemma byTarget_None: "byTarget sn ps t = None \<longleftrightarrow> t \<notin> (\<lambda>p. bareTarget (deref sn p)) ` set ps"
  unfolding byTarget_def by (simp add: map_of_eq_None_iff image_image)

lemma set_surplus: "p \<in> set (surplus s ps run) \<longleftrightarrow> p \<in> set ps \<and> bareTarget (rowAt run p) \<notin> set (dsTargets s)"
  by (auto simp: surplus_def)

lemma set_sortedTargets [simp]: "set (sortedTargets ts) = set ts"
  by (simp add: sortedTargets_def)

text \<open>What of a row no write changes.\<close>

definition rowId :: "hostRow \<Rightarrow> string \<times> hostRow list" where
  "rowId r = (UUID (cols r), Children r)"

lemma retargetRow_simps [simp]:
  "rowId (retargetRow f r) = rowId r"
  "UUID (cols (retargetRow f r)) = UUID (cols r)" "Children (retargetRow f r) = Children r"
  "indexed (retargetRow f r) = indexed r" "rowKeyOf (retargetRow f r) = fieldsKey f"
  "bareTarget (retargetRow f r) = fieldsTarget f" "hasEnabledChildren (retargetRow f r) = hasEnabledChildren r"
  by (simp_all add: retargetRow_def indexed_def enabledCols_def rowKeyOf_def fieldsKey_def
        bareTarget_def fieldsTarget_def hasEnabledChildren_def rowId_def)

lemma ptr_in_key:
  assumes "snapOk sn" "p < length (heap sn)" "rowKeyOf (deref sn p) = k" "indexed r" "rowKeyOf r = k"
  shows "snapOk (putRow p r sn)"
proof (cases "p \<in> set (byKey sn k)")
  case True
  with assms show ?thesis by (intro snapOk_putRow)
next
  case False
  then have "p \<notin> set (byKey sn k')" for k' using assms by (metis snapOkD)
  with assms show ?thesis by (auto simp: snapOk_def deref_putRow)
qed

text \<open>What the calls of each mode look like.\<close>

definition addCall :: "config \<Rightarrow> desiredSet \<Rightarrow> (string \<times> hostRow list) set \<Rightarrow> call \<Rightarrow> bool" where
  "addCall cfg s U x \<longleftrightarrow>
     (\<exists>t \<in> set (dsTargets s). (\<exists>r. x = CallAdd (writeFields cfg s t) r) \<or>
                              (\<exists>(u, cs) \<in> U. \<exists>e. x = CallSet u (writeFields cfg s t) e))"

definition delCall :: "(string \<times> hostRow list) set \<Rightarrow> call \<Rightarrow> bool" where
  "delCall U x \<longleftrightarrow> (\<exists>(u, cs) \<in> U. \<not> list_ex enabled cs \<and> (\<exists>e. x = CallDel u e))"

text \<open>The calls of a whole key, by mode.\<close>

fun modeCall :: "config \<Rightarrow> convergeMode \<Rightarrow> desiredSet \<Rightarrow> (string \<times> hostRow list) set \<Rightarrow> call \<Rightarrow> bool" where
  "modeCall cfg modeAddSet s U = addCall cfg s U"
| "modeCall cfg modeRemove s U = delCall U"

abbreviation rowIds :: "snapshot \<Rightarrow> rowKey \<Rightarrow> (string \<times> hostRow list) set" where
  "rowIds sn k \<equiv> rowId ` set (snapView sn k)"

text \<open>
  Which rows the index can show: those of the first read, with the children they had, and those
  this apply created, which have none.
\<close>

definition rowKnown :: "snapshot \<Rightarrow> call list \<Rightarrow> rowKey \<Rightarrow> string \<times> hostRow list \<Rightarrow> bool" where
  "rowKnown sn log k i \<longleftrightarrow>
     i \<in> rowIds sn k \<or> (\<exists>f. CallAdd f (Inr (fst i)) \<in> set log \<and> fieldsKey f = k \<and> snd i = [])"

definition known :: "snapshot \<Rightarrow> ('w \<times> call list) applyRun \<Rightarrow> bool" where
  "known sn run \<longleftrightarrow> snapOk (arSnap run) \<and> (\<forall>k. \<forall>i \<in> rowIds (arSnap run) k. rowKnown sn (logOf run) k i)"

lemma rowKnown_mono: "rowKnown sn log k i \<Longrightarrow> set log \<subseteq> set log' \<Longrightarrow> rowKnown sn log' k i"
  by (auto simp: rowKnown_def)

lemma createdRow_simps [simp]:
  "rowId (createdRow u f) = (u, [])" "rowKeyOf (createdRow u f) = fieldsKey f"
  "bareTarget (createdRow u f) = fieldsTarget f" "UUID (cols (createdRow u f)) = u"
  by (simp_all add: createdRow_def rowId_def rowKeyOf_def fieldsKey_def bareTarget_def fieldsTarget_def zeroCols_def)

lemma snapView_putRow_ids:
  assumes "snapOk sn" "p < length (heap sn)" "rowId r = rowId (deref sn p)"
  shows "rowIds (putRow p r sn) k = rowIds sn k"
proof -
  have "rowId (deref (putRow p r sn) q) = rowId (deref sn q)" for q
    using assms by (simp add: deref_putRow)
  then show ?thesis by (simp add: snapView_def rowsFor_def image_image)
qed

lemma known_shrink:
  assumes "known sn run" "snapOk (arSnap run')" "\<And>k. rowIds (arSnap run') k \<subseteq> rowIds (arSnap run) k"
    and "set (logOf run) \<subseteq> set (logOf run')"
  shows "known sn run'"
  unfolding known_def
proof (intro conjI allI ballI)
  fix k i assume "i \<in> rowIds (arSnap run') k"
  with assms(3) have "i \<in> rowIds (arSnap run) k" by blast
  with assms(1) have "rowKnown sn (logOf run) k i" unfolding known_def by blast
  then show "rowKnown sn (logOf run') k i" using assms(4) by (rule rowKnown_mono)
qed (fact assms(2))

end
