(* ===== verification/Team.thy ===== *)
theory Team
  imports Workers Apply_Log
begin

text \<open>
  What the goroutines of a phase do to the firewall and to the run, for any client, any number of workers and any
  schedule: the calls they make, the failures they leave, the writes they record and the rows the index can show.
\<close>

section \<open>What a phase does\<close>

text \<open>
  The plan keeps its sets; only their failure flags rise.
\<close>

definition setsLe :: "(rowKey \<rightharpoonup> desiredSet) \<Rightarrow> (rowKey \<rightharpoonup> desiredSet) \<Rightarrow> bool" where
  "setsLe S S' \<longleftrightarrow> (\<forall>k. S' k = S k \<or> S' k = map_option (\<lambda>s. s\<lparr>dsFailed := True\<rparr>) (S k))"

lemma setsLe_refl [simp]: "setsLe S S"
  by (simp add: setsLe_def)

lemma setsLe_trans: "setsLe S1 S2 \<Longrightarrow> setsLe S2 S3 \<Longrightarrow> setsLe S1 S3"
  unfolding setsLe_def
proof (intro allI)
  fix k
  assume "\<forall>k. S2 k = S1 k \<or> S2 k = map_option (\<lambda>s. s\<lparr>dsFailed := True\<rparr>) (S1 k)"
    and "\<forall>k. S3 k = S2 k \<or> S3 k = map_option (\<lambda>s. s\<lparr>dsFailed := True\<rparr>) (S2 k)"
  from this [THEN spec, of k]
  show "S3 k = S1 k \<or> S3 k = map_option (\<lambda>s. s\<lparr>dsFailed := True\<rparr>) (S1 k)"
    by (cases "S1 k") auto
qed

lemma setsLe_markSet [simp]: "setsLe S (markSet k S)"
  by (auto simp: setsLe_def markSet_def split: option.splits)

lemma setsLe_dom: "setsLe S S' \<Longrightarrow> dom S' = dom S"
  by (auto simp: setsLe_def dom_def) (metis option.map_disc_iff not_None_eq option.distinct(1))+

text \<open>
  \<open>callsOk P log l\<close>: every call of \<open>l\<close> satisfies \<open>P\<close>, which may look at the calls made before it.
\<close>

fun callsOk :: "(call list \<Rightarrow> call \<Rightarrow> bool) \<Rightarrow> call list \<Rightarrow> call list \<Rightarrow> bool" where
  "callsOk P log [] \<longleftrightarrow> True"
| "callsOk P log (x # l) \<longleftrightarrow> P log x \<and> callsOk P (log @ [x]) l"

lemma callsOk_append [simp]:
  "callsOk P log (l @ l') \<longleftrightarrow> callsOk P log l \<and> callsOk P (log @ l) l'"
  by (induction l arbitrary: log) auto

lemma callsOk_all: "(\<And>x m. x \<in> set l \<Longrightarrow> P (log @ m) x) \<Longrightarrow> callsOk P log l"
proof (induction l arbitrary: log)
  case (Cons x l)
  have "P (log @ []) x" by (rule Cons.prems) simp
  moreover have "callsOk P (log @ [x]) l" by (rule Cons.IH) (use Cons.prems in simp)
  ultimately show ?case by simp
qed simp

lemma callsOk_weaken: "callsOk P log l \<Longrightarrow> (\<And>m x. P m x \<Longrightarrow> Q m x) \<Longrightarrow> callsOk Q log l"
  by (induction l arbitrary: log) auto

lemma callsOk_in: "callsOk P log l \<Longrightarrow> x \<in> set l \<Longrightarrow> \<exists>m m'. l = m @ x # m' \<and> P (log @ m) x"
proof (induction l arbitrary: log)
  case (Cons y l)
  show ?case
  proof (cases "x = y")
    case True
    with Cons.prems show ?thesis by (intro exI [of _ "[]"] exI [of _ l]) simp
  next
    case False
    with Cons obtain m m' where "l = m @ x # m'" "P ((log @ [y]) @ m) x" by (metis callsOk.simps(2) set_ConsD)
    then show ?thesis by (intro exI [of _ "y # m"] exI [of _ m']) simp
  qed
qed simp

lemma modeCall_mono: "modeCall cfg mode s U x \<Longrightarrow> U \<subseteq> V \<Longrightarrow> modeCall cfg mode s V x"
  by (cases mode) (auto simp: addCall_def delCall_def, blast+)

text \<open>The acknowledged writes among some calls, as they are recorded; the key of a record aside, which a call does not show.\<close>

definition stripKey :: "writeRecord \<Rightarrow> writeRecord" where
  "stripKey w = w\<lparr>wrKey := RowKey [] []\<rparr>"

definition ackedWrites :: "call list \<Rightarrow> writeRecord multiset" where
  "ackedWrites l = mset (List.map_filter (ackRecord (RowKey [] [])) l)"

lemma ackedWrites_append [simp]: "ackedWrites (l @ l') = ackedWrites l + ackedWrites l'"
  by (simp add: ackedWrites_def List.map_filter_def)

lemma ackedWrites_Nil [simp]: "ackedWrites [] = {#}"
  by (simp add: ackedWrites_def map_filter_simps)

lemma size_ackedWrites [simp]: "size (ackedWrites l) = length (filter acked l)"
  by (induction l) (auto simp: ackedWrites_def map_filter_simps acked_def split: option.splits)

text \<open>
  \<open>phaseStep P\<close>: calls \<open>l\<close> were made that all satisfy \<open>P\<close>, and every failure left an error.  If the phase
  \<open>ended\<close> and no failure was counted, all of them were acknowledged; and exactly the acknowledged ones are recorded.
\<close>

definition phaseStep ::
  "(call list \<Rightarrow> call \<Rightarrow> bool) \<Rightarrow> ('w \<times> call list) applyRun \<Rightarrow> bool \<Rightarrow> ('w \<times> call list) applyRun \<Rightarrow> bool" where
  "phaseStep P run ended run' \<longleftrightarrow>
     (\<exists>l es. logOf run' = logOf run @ l \<and> callsOk P (logOf run) l \<and>
        arErrs run' = arErrs run @ es \<and> phaseFailed run' = phaseFailed run + length es \<and>
        setsLe (arSets run) (arSets run') \<and>
        (wrote run \<or> l \<noteq> [] \<longrightarrow> wrote run') \<and>
        ((wrote run \<longrightarrow> pending (arP run)) \<longrightarrow> pending (arP run) \<or> l \<noteq> [] \<longrightarrow> pending (arP run')) \<and>
        (ended \<longrightarrow> (es = [] \<longrightarrow> list_all acked l) \<and>
           mset (map stripKey (writes run')) = mset (map stripKey (writes run)) + ackedWrites l \<and>
           (wrote run' \<longrightarrow> wrote run \<or> l \<noteq> []) \<and>
           ((wrote run \<longrightarrow> pending (arP run)) \<longrightarrow> pending (arP run') \<longrightarrow> pending (arP run) \<or> l \<noteq> [])))"

section \<open>The books\<close>

text \<open>
  Where a goroutine is in its current write: not in one, the flag raised, the call acknowledged but not recorded, or the call
  refused and not yet reported.
\<close>

datatype stage = Idle | Raised | Owing "writeRecord multiset" | Failing

fun owed :: "stage \<Rightarrow> writeRecord multiset" where
  "owed (Owing m) = m"
| "owed _ = {#}"

fun failing :: "stage \<Rightarrow> nat" where
  "failing Failing = 1"
| "failing _ = 0"

text \<open>The state against that at the start of the phase, with the stages of the goroutines that run.\<close>

definition booked ::
  "(call list \<Rightarrow> call \<Rightarrow> bool) \<Rightarrow> ('w \<times> call list) applyRun \<Rightarrow> ('w \<times> call list) applyRun \<Rightarrow> stage multiset \<Rightarrow>
     call list \<Rightarrow> error list \<Rightarrow> bool" where
  "booked P r0 run S l es \<longleftrightarrow>
     logOf run = logOf r0 @ l \<and> callsOk P (logOf r0) l \<and>
     arErrs run = arErrs r0 @ es \<and> phaseFailed run = phaseFailed r0 + length es \<and>
     length (filter (\<lambda>x. \<not> acked x) l) \<le> length es + (\<Sum>st \<in># S. failing st) \<and>
     mset (map stripKey (writes r0)) + ackedWrites l = mset (map stripKey (writes run)) + (\<Sum>st \<in># S. owed st) \<and>
     setsLe (arSets r0) (arSets run) \<and>
     (wrote run \<longleftrightarrow> wrote r0 \<or> l \<noteq> [] \<or> Raised \<in># S) \<and>
     ((wrote r0 \<longrightarrow> pending (arP r0)) \<longrightarrow> (pending (arP run) \<longleftrightarrow> pending (arP r0) \<or> wrote run))"

definition books ::
  "(call list \<Rightarrow> call \<Rightarrow> bool) \<Rightarrow> ('w \<times> call list) applyRun \<Rightarrow> ('w \<times> call list) applyRun \<Rightarrow> stage multiset \<Rightarrow> bool" where
  "books P r0 run S \<longleftrightarrow> (\<exists>l es. booked P r0 run S l es)"

lemma books_step:
  "books P r0 run S \<Longrightarrow> (\<And>l es. booked P r0 run S l es \<Longrightarrow> booked P r0 run' S' l es) \<Longrightarrow> books P r0 run' S'"
  by (auto simp: books_def)

lemma books_start: "books P r0 r0 {#}"
  unfolding books_def booked_def by (intro exI [of _ "[]"]) auto

lemma books_end: "books P r0 run S \<Longrightarrow> (ended \<Longrightarrow> S = {#}) \<Longrightarrow> phaseStep P r0 ended run"
proof -
  assume "books P r0 run S" and S: "ended \<Longrightarrow> S = {#}"
  then obtain l es where b: "booked P r0 run S l es" by (auto simp: books_def)
  have "ended \<Longrightarrow> es = [] \<Longrightarrow> list_all acked l"
    using b S by (auto simp: booked_def list_all_iff filter_empty_conv)
  moreover have "ended \<Longrightarrow> mset (map stripKey (writes run)) = mset (map stripKey (writes r0)) + ackedWrites l"
    using b S by (simp add: booked_def)
  ultimately show ?thesis
    using b S unfolding phaseStep_def booked_def by (intro exI [of _ l] exI [of _ es]) auto
qed

text \<open>The steps that leave the books alone, and the entries of a write.\<close>

lemma books_same:
  assumes "books P r0 run S" and "logOf run' = logOf run" "arErrs run' = arErrs run" "phaseFailed run' = phaseFailed run"
    "writes run' = writes run" "arSets run' = arSets run" "wrote run' = wrote run" "pending (arP run') = pending (arP run)"
  shows "books P r0 run' S"
  using assms(1) unfolding books_def booked_def assms(2-) .

lemma books_idle: "books P r0 run (add_mset Idle S) \<longleftrightarrow> books P r0 run S"
  by (simp add: books_def booked_def)

lemma books_mark: "books P r0 run (add_mset Idle S) \<Longrightarrow> books P r0 (markWrite run) (add_mset Raised S)"
  by (erule books_step) (auto simp: booked_def)

definition stageOf :: "call \<Rightarrow> stage" where
  "stageOf x = (if acked x then Owing (ackedWrites [x]) else Failing)"

lemma stageOf_simps [simp]: "stageOf x \<noteq> Raised" "failing (stageOf x) = (if acked x then 0 else 1)" "owed (stageOf x) = ackedWrites [x]"
  by (auto simp: stageOf_def acked_def ackedWrites_def map_filter_simps)

lemma books_call:
  assumes b: "books P r0 run (add_mset Raised S)" and x: "P (logOf run) x" and w: "snd w = logOf run @ [x]"
  shows "books P r0 (putWorld w run) (add_mset (stageOf x) S)"
proof -
  from b obtain l es where l: "booked P r0 run (add_mset Raised S) l es" by (auto simp: books_def)
  have "booked P r0 (putWorld w run) (add_mset (stageOf x) S) (l @ [x]) es"
    using l x w unfolding booked_def by (auto simp: ac_simps)
  then show ?thesis by (auto simp: books_def)
qed

lemma books_record:
  assumes "books P r0 run (add_mset (Owing {#\<lparr>wrOp = op, wrKey = RowKey [] [], wrUUID = u, wrWant = f\<rparr>#}) S)"
  shows "books P r0 (recordWrite op k u f run) (add_mset Idle S)"
  using assms by (rule books_step) (simp add: booked_def stripKey_def)

lemma books_fail:
  assumes "books P r0 run (add_mset st S)" and "st = Idle \<or> st = Failing"
  shows "books P r0 (failSet s e run) (add_mset Idle S)"
proof -
  from assms(1) obtain l es where l: "booked P r0 run (add_mset st S) l es" by (auto simp: books_def)
  then have "setsLe (arSets r0) (markSet (dsKey s) (arSets run))"
    unfolding booked_def using setsLe_trans setsLe_markSet by blast
  then have "booked P r0 (failSet s e run) (add_mset Idle S) l (es @ [e])"
    using l assms(2) unfolding booked_def by (auto simp: failSet_def)
  then show ?thesis by (auto simp: books_def)
qed

text \<open>A create that is owed is in the log.\<close>

lemma books_owed:
  assumes "books P r0 run (add_mset (Owing {#\<lparr>wrOp = changeCreate, wrKey = RowKey [] [], wrUUID = u, wrWant = f\<rparr>#}) S)"
    and "writes r0 = []"
  shows "CallAdd f (Inr u) \<in> set (logOf run)"
proof -
  let ?r = "\<lparr>wrOp = changeCreate, wrKey = RowKey [] [], wrUUID = u, wrWant = f\<rparr>"
  from assms obtain l where l: "logOf run = logOf r0 @ l"
    "ackedWrites l = mset (map stripKey (writes run)) + ({#?r#} + (\<Sum>st \<in># S. owed st))"
    unfolding books_def booked_def by auto
  have "?r \<in># ackedWrites l" unfolding l(2) by simp
  then obtain x where "x \<in> set l" "ackRecord (RowKey [] []) x = Some ?r"
    by (auto simp: ackedWrites_def List.map_filter_def)
  then have "CallAdd f (Inr u) \<in> set l"
    by (cases "(RowKey [] [], x)" rule: ackRecord.cases) (auto simp: changeCreate_def changeUpdate_def changeDelete_def)
  with l(1) show ?thesis by simp
qed

section \<open>Rows of the past\<close>

text \<open>
  A goroutine acts on what it has read: the rows at its pointers stay rows of their key with their uuid and children,
  whatever the others do meanwhile.
\<close>

definition later :: "('w \<times> call list) applyRun \<Rightarrow> ('w \<times> call list) applyRun \<Rightarrow> bool" where
  "later r0 run \<longleftrightarrow> set (logOf r0) \<subseteq> set (logOf run) \<and> length (heap (arSnap r0)) \<le> length (heap (arSnap run)) \<and>
     (\<forall>p < length (heap (arSnap r0)). rowId (rowAt run p) = rowId (rowAt r0 p) \<and>
        indexed (rowAt run p) = indexed (rowAt r0 p) \<and> rowKeyOf (rowAt run p) = rowKeyOf (rowAt r0 p))"

lemma later_refl [simp]: "later run run"
  by (simp add: later_def)

lemma later_trans: "later r1 r2 \<Longrightarrow> later r2 r3 \<Longrightarrow> later r1 r3"
  by (auto simp: later_def)

lemma later_same: "arSnap run' = arSnap run \<Longrightarrow> set (logOf run) \<subseteq> set (logOf run') \<Longrightarrow> later run run'"
  by (simp add: later_def rowAt_def)

definition held :: "snapshot \<Rightarrow> ('w \<times> call list) applyRun \<Rightarrow> rowKey \<Rightarrow> nat \<Rightarrow> bool" where
  "held sn past k p \<longleftrightarrow> known sn past \<and> p \<in> set (rowsFor k (arSnap past))"

lemma heldD:
  assumes "held sn past k p" "later past run"
  shows "p < length (heap (arSnap run))" "indexed (rowAt run p)" "rowKeyOf (rowAt run p) = k"
    and "rowKnown sn (logOf run) k (rowId (rowAt run p))" and "rowId (rowAt run p) = rowId (rowAt past p)"
proof -
  from assms(1) have k: "known sn past" "p \<in> set (byKey (arSnap past) k)" by (simp_all add: held_def rowsFor_def)
  then have p: "p < length (heap (arSnap past))" "indexed (rowAt past p)" "rowKeyOf (rowAt past p) = k"
    using snapOkD by (auto simp: known_def rowAt_def)
  have "rowId (rowAt past p) \<in> rowIds (arSnap past) k" using k(2) by (simp add: snapView_def rowsFor_def rowAt_def)
  with k(1) have "rowKnown sn (logOf past) k (rowId (rowAt past p))" unfolding known_def by blast
  moreover from assms(2) have l: "set (logOf past) \<subseteq> set (logOf run)" "length (heap (arSnap past)) \<le> length (heap (arSnap run))"
    "rowId (rowAt run p) = rowId (rowAt past p)" "indexed (rowAt run p)" "rowKeyOf (rowAt run p) = k"
    using p by (simp_all add: later_def)
  ultimately show "rowKnown sn (logOf run) k (rowId (rowAt run p))" by (simp add: rowKnown_mono)
  show "p < length (heap (arSnap run))" "indexed (rowAt run p)" "rowKeyOf (rowAt run p) = k" "rowId (rowAt run p) = rowId (rowAt past p)"
    using p l by simp_all
qed

text \<open>The snapshot steps.\<close>

lemma known_run: "known sn run \<Longrightarrow> arSnap run' = arSnap run \<Longrightarrow> set (logOf run) \<subseteq> set (logOf run') \<Longrightarrow> known sn run'"
  by (rule known_shrink) (simp_all add: known_def)

lemma retarget_held:
  assumes "known sn run" "held sn past k p" "later past run" "fieldsKey f = k"
  defines "run' \<equiv> run\<lparr>arSnap := putRow p (retargetRow f (rowAt run p)) (arSnap run)\<rparr>"
  shows "known sn run'" "later run run'"
proof -
  note h = heldD [OF assms(2,3)]
  have ok: "snapOk (arSnap run)" using assms(1) by (simp add: known_def)
  with h(1-3) assms(4) have "snapOk (arSnap run')"
    by (auto simp: run'_def rowAt_def intro!: ptr_in_key [where k = k])
  with ok h(1) show "known sn run'"
    by (intro known_shrink [OF assms(1)]) (simp_all add: run'_def snapView_putRow_ids rowAt_def)
  show "later run run'" using h assms(4) by (auto simp: later_def run'_def rowAt_def deref_putRow)
qed

lemma addRow_held:
  assumes "known sn run" "CallAdd f (Inr u) \<in> set (logOf run)"
  shows "known sn (addRow (createdRow u f) run)" "later run (addRow (createdRow u f) run)"
proof -
  have ok: "snapOk (arSnap run)" using assms(1) by (simp add: known_def)
  show "known sn (addRow (createdRow u f) run)"
    unfolding known_def
  proof (intro conjI allI ballI)
    fix k i assume "i \<in> rowIds (arSnap (addRow (createdRow u f) run)) k"
    with ok consider "i \<in> rowIds (arSnap run) k" | "i = (u, [])" "fieldsKey f = k"
      by (auto simp: snap.view_add split: if_splits)
    then show "rowKnown sn (logOf (addRow (createdRow u f) run)) k i"
    proof cases
      case 1
      with assms(1) have "rowKnown sn (logOf run) k i" unfolding known_def by blast
      then show ?thesis by simp
    qed (use assms(2) in \<open>auto simp: rowKnown_def\<close>)
  qed (use ok in \<open>simp add: snapOk_addSnap\<close>)
  show "later run (addRow (createdRow u f) run)" by (auto simp: later_def rowAt_def deref_addSnap)
qed

lemma removeRow_held:
  assumes "known sn run" shows "known sn (removeRow k u run)" "later run (removeRow k u run)"
proof -
  have ok: "snapOk (arSnap run)" using assms by (simp add: known_def)
  then show "known sn (removeRow k u run)"
    by (intro known_shrink [OF assms]) (auto simp: snapOk_removeSnap snap.view_remove split: if_splits)
  show "later run (removeRow k u run)" by (simp add: later_def rowAt_def)
qed

section \<open>The goroutines\<close>

text \<open>A token: the stage of the goroutine and the state it has read.\<close>

type_synonym 'w token = "stage \<times> ('w \<times> call list) applyRun"

definition teamInv ::
  "convergeMode \<Rightarrow> (call list \<Rightarrow> call \<Rightarrow> bool) \<Rightarrow> snapshot \<Rightarrow> ('w \<times> call list) applyRun \<Rightarrow> ('w \<times> call list) applyRun \<Rightarrow> 'w token multiset \<Rightarrow> bool" where
  "teamInv mode P sn r0 run G \<longleftrightarrow> writes r0 = [] \<and> known sn run \<and> later r0 run \<and> (\<forall>g \<in># G. later (snd g) run) \<and>
     (mode = modeRemove \<longrightarrow> heap (arSnap run) = heap (arSnap r0)) \<and>
     books P r0 run (image_mset fst G)"

lemma team_step:
  assumes "teamInv mode P sn r0 run (add_mset (st, past) G)" and "known sn run'" "later run run'"
    and "mode = modeRemove \<Longrightarrow> heap (arSnap run') = heap (arSnap run)"
    and "books P r0 run (add_mset st (image_mset fst G)) \<Longrightarrow> books P r0 run' (add_mset st' (image_mset fst G))"
  shows "teamInv mode P sn r0 run' (add_mset (st', past) G)"
  using assms by (auto simp: teamInv_def intro: later_trans)

lemma teamD:
  assumes "teamInv mode P sn r0 run (add_mset (st, past) G)"
  shows "known sn run" "later past run" "books P r0 run (add_mset st (image_mset fst G))" "writes r0 = []"
  using assms by (simp_all add: teamInv_def)

text \<open>How a part of a goroutine ends.\<close>

fun over :: "bool \<Rightarrow> error outcome \<Rightarrow> stage \<Rightarrow> bool" where
  "over brk Done st \<longleftrightarrow> st = Idle"
| "over brk (Fail e) st \<longleftrightarrow> st = Idle \<or> st = Failing"
| "over brk Panicked st \<longleftrightarrow> brk"

definition endsAs :: "bool \<Rightarrow> ('w \<times> call list) applyRun \<Rightarrow> error outcome \<Rightarrow> 'w token \<Rightarrow> bool" where
  "endsAs brk past out g \<longleftrightarrow> snd g = past \<and> over brk out (fst g)"

lemma endsAs_simps [simp]: "endsAs brk past out (st, past') \<longleftrightarrow> past' = past \<and> over brk out st"
  by (auto simp: endsAs_def)

lemma endsAs_Done: "endsAs brk past Done g \<longleftrightarrow> g = (Idle, past)"
  by (cases g) (auto simp: endsAs_def)

lemma earns_flag:
  assumes "earns (teamInv mode P sn r0) Q b (Raised, past)"
  shows "earns (teamInv mode P sn r0) Q (bindT (doT markWrite) b) (Idle, past)"
proof (rule earns_thenT [OF _ assms])
  fix run G assume i: "teamInv mode P sn r0 run (add_mset (Idle, past) G)"
  then show "teamInv mode P sn r0 (markWrite run) (add_mset (Raised, past) G)"
    by (rule team_step) (use teamD(1) [OF i] in \<open>auto intro: known_run later_same books_mark\<close>)
qed

lemma earns_send:
  fixes call :: "'w \<times> call list \<Rightarrow> 'r \<times> ('w \<times> call list)"
  assumes "\<And>run r w. later past run \<Longrightarrow> call (world (arP run)) = (r, w) \<Longrightarrow>
    \<exists>x. snd w = logOf run @ [x] \<and> P (logOf run) x \<and> earns (teamInv mode P sn r0) Q (k r) (stageOf x, past)"
  shows "earns (teamInv mode P sn r0) Q (callT call k) (Raised, past)"
  unfolding callT_def
proof (rule earns_AtomI)
  fix run :: "('w \<times> call list) applyRun" and G assume i: "teamInv mode P sn r0 run (add_mset (Raised, past) G)"
  obtain r w where c: "call (world (arP run)) = (r, w)" by (metis surj_pair)
  with assms teamD(2) [OF i] obtain x where x: "snd w = logOf run @ [x]" "P (logOf run) x"
    "earns (teamInv mode P sn r0) Q (k r) (stageOf x, past)" by blast
  have "teamInv mode P sn r0 (putWorld w run) (add_mset (stageOf x, past) G)"
    using i by (rule team_step) (use teamD(1) [OF i] x in \<open>auto intro: known_run later_same books_call\<close>)
  with x(3) c show "\<exists>g'. teamInv mode P sn r0 (fst (case call (world (arP run)) of (r, w) \<Rightarrow> (putWorld w run, k r))) (add_mset g' G) \<and>
      earns (teamInv mode P sn r0) Q (snd (case call (world (arP run)) of (r, w) \<Rightarrow> (putWorld w run, k r))) g'" by auto
qed

lemma earns_meter:
  assumes "Q Done (st, past)" shows "earns (teamInv mode P sn r0) Q (doT (onProv (meter h))) (st, past)"
proof (rule earns_doT [where g' = "(st, past)"])
  show "Q Done (st, past)" by (rule assms)
next
  fix run G assume i: "teamInv mode P sn r0 run (add_mset (st, past) G)"
  then show "teamInv mode P sn r0 (onProv (meter h) run) (add_mset (st, past) G)"
    by (rule team_step) (use teamD(1) [OF i] in \<open>auto simp: meter_def intro: known_run later_same elim: books_same\<close>)
qed

lemma earns_note:
  assumes "earns (teamInv mode P sn r0) Q b (Idle, past)"
  shows "earns (teamInv mode P sn r0) Q (bindT (doT (recordWrite op k u f)) b)
    (Owing {#\<lparr>wrOp = op, wrKey = RowKey [] [], wrUUID = u, wrWant = f\<rparr>#}, past)"
proof (rule earns_thenT [OF _ assms])
  fix run G assume i: "teamInv mode P sn r0 run (add_mset (Owing {#\<lparr>wrOp = op, wrKey = RowKey [] [], wrUUID = u, wrWant = f\<rparr>#}, past) G)"
  then show "teamInv mode P sn r0 (recordWrite op k u f run) (add_mset (Idle, past) G)"
    by (rule team_step) (use teamD(1) [OF i] in \<open>auto intro: known_run later_same books_record\<close>)
qed

lemma stageOf_calls [simp]:
  "stageOf (CallSet u f None) = Owing {#\<lparr>wrOp = changeUpdate, wrKey = RowKey [] [], wrUUID = u, wrWant = f\<rparr>#}"
  "stageOf (CallAdd f (Inr u)) = Owing {#\<lparr>wrOp = changeCreate, wrKey = RowKey [] [], wrUUID = u, wrWant = f\<rparr>#}"
  "stageOf (CallDel u (Inr b)) = Owing {#\<lparr>wrOp = changeDelete, wrKey = RowKey [] [], wrUUID = u, wrWant = zeroFields\<rparr>#}"
  "stageOf (CallSet u f (Some e)) = Failing" "stageOf (CallAdd f (Inl e')) = Failing" "stageOf (CallDel u (Inl e')) = Failing"
  by (simp_all add: stageOf_def ackedWrites_def map_filter_simps)

lemma setRowT_team:
  fixes c :: "'w client"
  assumes h: "held sn past k p" and k: "fieldsKey f = k \<or> brk"
    and P: "\<And>log u cs e. rowKnown sn log k (u, cs) \<Longrightarrow> P log (CallSet u f e)"
  shows "earns (teamInv modeAddSet P sn r0) (endsAs brk past) (setRowT (logged c) ctx k p f t) (Idle, past)"
  unfolding setRowT_def Let_def
proof (intro earns_flag earns_readT earns_send)
  fix s :: "('w \<times> call list) applyRun" and G and run :: "('w \<times> call list) applyRun" and r w
  let ?E = "earns (teamInv modeAddSet P sn r0) (endsAs brk past)" and ?u = "UUID (cols (rowAt s p))"
  assume i: "teamInv modeAddSet P sn r0 s (add_mset (Raised, past) G)" and l: "later past run"
    and r: "cSet (logged c) ctx ?u f (world (arP run)) = (r, w)"
  obtain e v where e: "cSet c ctx ?u f (fst (world (arP run))) = (e, v)" by fastforce
  have w: "snd w = logOf run @ [CallSet ?u f r]" using r cSet_logged [OF e] by auto
  have "rowKnown sn (logOf run) k (rowId (rowAt s p))"
    using heldD(4) [OF h l] heldD(5) [OF h l] heldD(5) [OF h teamD(2) [OF i]] by simp
  then have P': "P (logOf run) (CallSet ?u f r)" by (intro P) (simp add: rowId_def)
  let ?m = "{#\<lparr>wrOp = changeUpdate, wrKey = RowKey [] [], wrUUID = ?u, wrWant = f\<rparr>#}"
  have rest: "?E (bindT (doT (recordWrite changeUpdate k ?u f)) (doT (onProv (meter (RecordChange changeUpdate (krr k)))))) (Owing ?m, past)"
    by (intro earns_note earns_meter) simp
  have "?E (bindT (actT (retarget k p f)) (bindT (doT (recordWrite changeUpdate k ?u f))
      (doT (onProv (meter (RecordChange changeUpdate (krr k))))))) (Owing ?m, past)"
  proof (rule earns_bindT [where R = "\<lambda>out g. out = Done \<and> g = (Owing ?m, past) \<or> out = Panicked \<and> brk \<and> g = (Owing ?m, past)"])
    show "earns (teamInv modeAddSet P sn r0) (\<lambda>out g. out = Done \<and> g = (Owing ?m, past) \<or> out = Panicked \<and> brk \<and> g = (Owing ?m, past))
        (actT (retarget k p f)) (Owing ?m, past)"
      unfolding actT_def
    proof (intro earns_AtomI exI [of _ "(Owing ?m, past)"])
      fix run :: "('w \<times> call list) applyRun" and G assume i: "teamInv modeAddSet P sn r0 run (add_mset (Owing ?m, past) G)"
      show "teamInv modeAddSet P sn r0 (fst (case retarget k p f run of (out, s') \<Rightarrow> (s', Return out))) (add_mset (Owing ?m, past) G) \<and>
          earns (teamInv modeAddSet P sn r0) (\<lambda>out g. out = Done \<and> g = (Owing ?m, past) \<or> out = Panicked \<and> brk \<and> g = (Owing ?m, past))
            (snd (case retarget k p f run of (out, s') \<Rightarrow> (s', Return out))) (Owing ?m, past)"
      proof (cases "fieldsKey f = k")
        case True
        have "teamInv modeAddSet P sn r0 (run\<lparr>arSnap := putRow p (retargetRow f (rowAt run p)) (arSnap run)\<rparr>) (add_mset (Owing ?m, past) G)"
          using i by (rule team_step) (use retarget_held [OF teamD(1) [OF i] h teamD(2) [OF i] True] in \<open>auto elim: books_same\<close>)
        with True show ?thesis by (simp add: retarget_def)
      qed (use k i in \<open>auto simp: retarget_def\<close>)
    qed
  qed (use rest in auto)
  then show "\<exists>x. snd w = logOf run @ [x] \<and> P (logOf run) x \<and> ?E
      (case r of Some e \<Rightarrow> Return (Fail (Wrap (''set '' @ krr k @ '' '' @ kname k @ '' -> '' @ t @ '' ('' @ ?u @ '')'') e))
       | None \<Rightarrow> bindT (actT (retarget k p f)) (bindT (doT (recordWrite changeUpdate k ?u f))
           (doT (onProv (meter (RecordChange changeUpdate (krr k))))))) (stageOf x, past)"
    using w P' by (intro exI [of _ "CallSet ?u f r"]) (cases r; simp)
qed

lemma createRowT_team:
  fixes c :: "'w client"
  assumes P: "\<And>log r. P log (CallAdd f r)"
  shows "earns (teamInv modeAddSet P sn r0) (endsAs brk past) (createRowT (logged c) ctx k f t) (Idle, past)"
  unfolding createRowT_def
proof (intro earns_flag earns_send)
  fix run :: "('w \<times> call list) applyRun" and r w
  let ?E = "earns (teamInv modeAddSet P sn r0) (endsAs brk past)"
  let ?o = "\<lambda>u. Owing {#\<lparr>wrOp = changeCreate, wrKey = RowKey [] [], wrUUID = u, wrWant = f\<rparr>#}"
  assume r: "cAdd (logged c) ctx f (world (arP run)) = (r, w)"
  obtain e v where e: "cAdd c ctx f (fst (world (arP run))) = (e, v)" by fastforce
  have w: "snd w = logOf run @ [CallAdd f r]" using r cAdd_logged [OF e] by auto
  have "?E (bindT (doT (addRow (createdRow u f))) (bindT (doT (recordWrite changeCreate k u f))
      (doT (onProv (meter (RecordChange changeCreate (krr k))))))) (?o u, past)" for u
  proof (rule earns_thenT [where g' = "(?o u, past)"])
    fix run :: "('w \<times> call list) applyRun" and G assume i: "teamInv modeAddSet P sn r0 run (add_mset (?o u, past) G)"
    have "CallAdd f (Inr u) \<in> set (logOf run)" using teamD(3,4) [OF i] by (rule books_owed)
    note a = addRow_held [OF teamD(1) [OF i] this]
    from i show "teamInv modeAddSet P sn r0 (addRow (createdRow u f) run) (add_mset (?o u, past) G)"
      by (rule team_step) (use a in \<open>auto elim: books_same\<close>)
  qed (intro earns_note earns_meter, simp)
  then show "\<exists>x. snd w = logOf run @ [x] \<and> P (logOf run) x \<and> ?E
      (case r of Inl e \<Rightarrow> Return (Fail (Wrap (''add '' @ krr k @ '' '' @ kname k @ '' -> '' @ t) e))
       | Inr u \<Rightarrow> bindT (doT (addRow (createdRow u f))) (bindT (doT (recordWrite changeCreate k u f))
           (doT (onProv (meter (RecordChange changeCreate (krr k))))))) (stageOf x, past)"
    using w P by (intro exI [of _ "CallAdd f r"]) (cases r; simp)
qed

text \<open>A delete names a row of the key that the set does not want and that carries no alias.\<close>

definition unwanted :: "snapshot \<Rightarrow> desiredSet \<Rightarrow> call \<Rightarrow> bool" where
  "unwanted sn s x \<longleftrightarrow>
     (\<exists>r \<in> set (heap sn). rowKeyOf r = dsKey s \<and> bareTarget r \<notin> set (dsTargets s) \<and> \<not> hasEnabledChildren r \<and>
        (\<exists>d. x = CallDel (UUID (cols r)) d))"

lemma removeOneT_team:
  fixes c :: "'w client"
  assumes h: "held sn past (dsKey s) p"
    and P: "\<And>log u cs d. rowKnown sn log (dsKey s) (u, cs) \<Longrightarrow> \<not> list_ex enabled cs \<Longrightarrow>
      unwanted (arSnap r0) s (CallDel u d) \<Longrightarrow> P log (CallDel u d)"
  shows "earns (teamInv modeRemove P sn r0) (endsAs brk past) (removeOneT (logged c) ctx s p) (Idle, past)"
  unfolding removeOneT_def Let_def
proof (rule earns_readT)
  fix s' :: "('w \<times> call list) applyRun" and G
  let ?E = "earns (teamInv modeRemove P sn r0) (endsAs brk past)" and ?u = "UUID (cols (rowAt s' p))"
  let ?m = "{#\<lparr>wrOp = changeDelete, wrKey = RowKey [] [], wrUUID = ?u, wrWant = zeroFields\<rparr>#}"
  let ?call = "callT (cDel (logged c) ctx ?u) (\<lambda>res. case res of Inl e \<Rightarrow> Return (Fail (deleteError (dsKey s) ?u e))
      | Inr deleted \<Rightarrow> bindT (doT (removeRow (dsKey s) ?u)) (bindT (doT (recordWrite changeDelete (dsKey s) ?u zeroFields))
          (if deleted then doT (onProv (meter (RecordChange changeDelete (krr (dsKey s))))) else Return Done)))"
  assume i: "teamInv modeRemove P sn r0 s' (add_mset (Idle, past) G)"
  have rem: "?E (bindT (doT (removeRow (dsKey s) ?u)) b) (Owing ?m, past)" if "?E b (Owing ?m, past)" for b
  proof (rule earns_thenT [OF _ that])
    fix run :: "('w \<times> call list) applyRun" and G assume i: "teamInv modeRemove P sn r0 run (add_mset (Owing ?m, past) G)"
    then show "teamInv modeRemove P sn r0 (removeRow (dsKey s) ?u run) (add_mset (Owing ?m, past) G)"
      by (rule team_step) (use removeRow_held [OF teamD(1) [OF i]] in \<open>auto elim: books_same\<close>)
  qed
  have heap: "heap (arSnap s') = heap (arSnap r0)" using i by (simp add: teamInv_def)
  have "?E ?call (Raised, past)" if nc: "bareTarget (rowAt s' p) \<notin> set (dsTargets s)" "\<not> hasEnabledChildren (rowAt s' p)"
  proof (rule earns_send)
    fix run :: "('w \<times> call list) applyRun" and d w
    assume l: "later past run" and d: "cDel (logged c) ctx ?u (world (arP run)) = (d, w)"
    obtain e v where e: "cDel c ctx ?u (fst (world (arP run))) = (e, v)" by fastforce
    have w: "snd w = logOf run @ [CallDel ?u d]" using d cDel_logged [OF e] by auto
    have "rowKnown sn (logOf run) (dsKey s) (rowId (rowAt s' p))"
      using heldD(4) [OF h l] heldD(5) [OF h l] heldD(5) [OF h teamD(2) [OF i]] by simp
    moreover have "rowAt s' p \<in> set (heap (arSnap r0))" "rowKeyOf (rowAt s' p) = dsKey s"
      using heldD(1,3) [OF h teamD(2) [OF i]] by (simp_all add: rowAt_def deref_def flip: heap)
    with nc have "unwanted (arSnap r0) s (CallDel ?u d)" unfolding unwanted_def by blast
    ultimately have P': "P (logOf run) (CallDel ?u d)"
      using nc by (intro P [of _ _ "Children (rowAt s' p)"]) (simp_all add: rowId_def hasEnabledChildren_def)
    have "?E (bindT (doT (removeRow (dsKey s) ?u)) (bindT (doT (recordWrite changeDelete (dsKey s) ?u zeroFields))
          (if b then doT (onProv (meter (RecordChange changeDelete (krr (dsKey s))))) else Return Done))) (Owing ?m, past)" for b
      by (cases b) (auto intro!: rem earns_note earns_meter)
    with w P' show "\<exists>x. snd w = logOf run @ [x] \<and> P (logOf run) x \<and> ?E (case d of Inl e \<Rightarrow> Return (Fail (deleteError (dsKey s) ?u e))
      | Inr deleted \<Rightarrow> bindT (doT (removeRow (dsKey s) ?u)) (bindT (doT (recordWrite changeDelete (dsKey s) ?u zeroFields))
          (if deleted then doT (onProv (meter (RecordChange changeDelete (krr (dsKey s))))) else Return Done))) (stageOf x, past)"
      by (intro exI [of _ "CallDel ?u d"]) (cases d; simp)
  qed
  then have "bareTarget (rowAt s' p) \<notin> set (dsTargets s) \<Longrightarrow> ?E (if hasEnabledChildren (rowAt s' p)
      then bindT (doT (onProv (meter (inc DeleteBlocked)))) (Return (Fail (deleteError (dsKey s) ?u ErrAliasChildren)))
      else bindT (doT markWrite) ?call) (Idle, past)"
    by (auto intro!: earns_flag earns_bindT [where R = "\<lambda>out g. out = Done \<and> g = (Idle, past)"] earns_meter)
  then show "?E (if bareTarget (rowAt s' p) \<in> set (dsTargets s) then Return Done
      else if hasEnabledChildren (rowAt s' p)
      then bindT (doT (onProv (meter (inc DeleteBlocked)))) (Return (Fail (deleteError (dsKey s) ?u ErrAliasChildren)))
      else bindT (doT markWrite) ?call) (Idle, past)"
    by simp
qed

lemma addSetT_team:
  assumes h: "\<And>p. p \<in> set ps \<Longrightarrow> held sn past (dsKey s) p" and k: "(\<forall>t. fieldsKey (writeFields cfg s t) = dsKey s) \<or> brk"
    and P: "\<And>log x. addCall cfg s {i. rowKnown sn log (dsKey s) i} x \<Longrightarrow> P log x"
  shows "earns (teamInv modeAddSet P sn r0) (endsAs brk past) (addSetT (logged c) cfg ctx s ps) (Idle, past)"
proof -
  let ?E = "earns (teamInv modeAddSet P sn r0) (endsAs brk past)"
  have set: "?E (setRowT (logged c) ctx (dsKey s) p (writeFields cfg s t) t) (Idle, past)" if "t \<in> set (dsTargets s)" "p \<in> set ps" for t p
    using k that by (intro setRowT_team h) (auto intro!: P simp: addCall_def)
  have create: "?E (createRowT (logged c) ctx (dsKey s) (writeFields cfg s t) t) (Idle, past)" if "t \<in> set (dsTargets s)" for t
    using that by (intro createRowT_team P) (auto simp: addCall_def)
  have refresh: "?E (refreshTargetT (logged c) cfg ctx s (byTarget (arSnap run) ps) t) (Idle, past)" if "t \<in> set (dsTargets s)" for run t
    unfolding refreshTargetT_def using that set by (auto split: option.split intro!: earns_readT dest: byTarget_in)
  have place: "?E (placeMissingT (logged c) cfg ctx s ps miss) (Idle, past)" if miss: "set miss \<subseteq> set (dsTargets s)" for miss
    unfolding placeMissingT_def Let_def
  proof (intro earns_readT earns_bindT [where R = "endsAs brk past"] earns_eachT)
    fix run x g assume "x \<in> set (zip (take (min (length miss) (length (surplus s ps run))) (surplus s ps run))
        (take (min (length miss) (length (surplus s ps run))) miss))" and g: "endsAs brk past Done g"
    then have "snd x \<in> set miss" "fst x \<in> set (surplus s ps run)" by (metis in_set_takeD in_set_zipE prod.collapse)+
    then have "snd x \<in> set miss" "fst x \<in> set ps" by (simp_all add: set_surplus)
    then show "?E (case x of (p, t) \<Rightarrow> setRowT (logged c) ctx (dsKey s) p (writeFields cfg s t) t) g"
      unfolding case_prod_unfold using miss g by (auto simp: endsAs_Done intro: set)
  next
    fix run x g g' assume "x \<in> set (drop (min (length miss) (length (surplus s ps run))) miss)" "endsAs brk past Done g'"
    then show "?E (createRowT (logged c) ctx (dsKey s) (writeFields cfg s x) x) g'"
      using miss by (auto simp: endsAs_Done dest: in_set_dropD intro: create)
  qed auto
  show ?thesis
    unfolding addSetT_def Let_def
  proof (intro earns_readT earns_bindT [where R = "endsAs brk past"] earns_eachT)
    fix run t g assume "t \<in> set (sortedTargets (dsTargets s))" "endsAs brk past Done g"
    then show "?E (refreshTargetT (logged c) cfg ctx s (byTarget (arSnap run) ps) t) g" using refresh by (simp add: endsAs_Done)
  next
    fix run g assume "endsAs brk past Done g"
    then show "?E (placeMissingT (logged c) cfg ctx s ps (missing (byTarget (arSnap run) ps) (sortedTargets (dsTargets s)))) g"
      by (auto simp: endsAs_Done missing_def intro!: place)
  qed auto
qed

text \<open>The calls of a goroutine in a phase that began with the snapshot \<open>sn0\<close>.\<close>

definition teamCall :: "config \<Rightarrow> convergeMode \<Rightarrow> snapshot \<Rightarrow> snapshot \<Rightarrow> desiredSet \<Rightarrow> call list \<Rightarrow> call \<Rightarrow> bool" where
  "teamCall cfg mode sn sn0 s log x \<longleftrightarrow>
     modeCall cfg mode s {i. rowKnown sn log (dsKey s) i} x \<and> (mode = modeRemove \<longrightarrow> unwanted sn0 s x)"

text \<open>A goroutine reads its rows, and from then on holds them.\<close>

lemma earns_weaken: "earns Inv Q t g \<Longrightarrow> (\<And>out g. Q out g \<Longrightarrow> R out g) \<Longrightarrow> earns Inv R t g"
proof (induction t arbitrary: g)
  case (Atom f)
  have "\<exists>g'. Inv (fst (f s)) (add_mset g' G) \<and> earns Inv R (snd (f s)) g'" if "Inv s (add_mset g G)" for s G
    using earns_AtomD [OF Atom.prems(1) that] Atom.IH Atom.prems(2) by blast
  then show ?case by (rule earns_AtomI)
qed simp

lemma convergeT_team:
  assumes k: "(\<forall>t. fieldsKey (writeFields cfg s t) = dsKey s) \<or> brk"
    and P: "\<And>log x. teamCall cfg mode sn (arSnap r0) s log x \<Longrightarrow> P log x"
  shows "earns (teamInv mode P sn r0) (\<lambda>out g. over brk out (fst g)) (convergeT (logged c) cfg ctx mode s) (Idle, past)"
  unfolding convergeT_def readT_def Let_def
proof (intro earns_AtomI, unfold fst_conv snd_conv)
  fix run G assume i: "teamInv mode P sn r0 run (add_mset (Idle, past) G)"
  let ?ps = "rowsFor (dsKey s) (arSnap run)"
  have i': "teamInv mode P sn r0 run (add_mset (Idle, run) G)" using i by (simp add: teamInv_def)
  have h: "held sn run (dsKey s) p" if "p \<in> set ?ps" for p using that teamD(1) [OF i] by (simp add: held_def)
  have "earns (teamInv mode P sn r0) (endsAs brk run) (case mode of modeAddSet \<Rightarrow> addSetT (logged c) cfg ctx s ?ps
      | modeRemove \<Rightarrow> removeSurplusT (logged c) ctx s ?ps) (Idle, run)"
  proof (cases mode)
    case modeAddSet
    then show ?thesis using h k P by (auto intro!: addSetT_team simp: teamCall_def)
  next
    case modeRemove
    have "earns (teamInv mode P sn r0) (endsAs brk run) (removeOneT (logged c) ctx s p) g" if "p \<in> set ?ps" "endsAs brk run Done g" for p g
      unfolding that(2) [unfolded endsAs_Done] modeRemove using that(1) h
      by (intro removeOneT_team) (auto intro!: P simp: modeRemove teamCall_def delCall_def)
    then have "earns (teamInv mode P sn r0) (endsAs brk run) (removeSurplusT (logged c) ctx s ?ps) (Idle, run)"
      unfolding removeSurplusT_def by (auto intro!: earns_readT earns_eachT)
    with modeRemove show ?thesis by simp
  qed
  then have "earns (teamInv mode P sn r0) (\<lambda>out g. over brk out (fst g)) (case mode of modeAddSet \<Rightarrow> addSetT (logged c) cfg ctx s ?ps
      | modeRemove \<Rightarrow> removeSurplusT (logged c) ctx s ?ps) (Idle, run)"
    by (rule earns_weaken) (simp add: endsAs_def)
  with i' show "\<exists>g'. teamInv mode P sn r0 run (add_mset g' G) \<and>
    earns (teamInv mode P sn r0) (\<lambda>out g. over brk out (fst g)) (case mode of modeAddSet \<Rightarrow> addSetT (logged c) cfg ctx s ?ps
      | modeRemove \<Rightarrow> removeSurplusT (logged c) ctx s ?ps) g'"
    by blast
qed

lemma convergeKeyT_team:
  assumes "(\<forall>t. fieldsKey (writeFields cfg s t) = dsKey s) \<or> brk"
    and "\<And>log x. teamCall cfg mode sn (arSnap r0) s log x \<Longrightarrow> P log x"
  shows "honours brk (teamInv mode P sn r0) (convergeKeyT (logged c) cfg ctx mode s) (Idle, past)"
  unfolding convergeKeyT_def
proof (rule honours_catchT [OF convergeT_team [OF assms]])
  fix run G and g :: "'a token" and e assume q: "over brk (Fail e) (fst g)" and i: "teamInv mode P sn r0 run (add_mset g G)"
  obtain st p where g: "g = (st, p)" by (cases g)
  have same: "arSnap (failSet s e run) = arSnap run" "logOf (failSet s e run) = logOf run" by (simp_all add: failSet_def)
  have "teamInv mode P sn r0 (failSet s e run) (add_mset (Idle, p) G)"
    using i unfolding g
  proof (rule team_step)
    show "known sn (failSet s e run)" "later run (failSet s e run)"
      using same teamD(1) [OF i [unfolded g]] by (auto intro: known_run later_same)
  qed (use q g same in \<open>auto intro: books_fail\<close>)
  then show "\<exists>g'. teamInv mode P sn r0 (failSet s e run) (add_mset g' G) \<and> over brk Done (fst g')" by force
next
  fix run G and g :: "'a token" assume "over brk Done (fst g)" "teamInv mode P sn r0 run (add_mset g G)"
  then show "teamInv mode P sn r0 run G" by (cases g) (simp add: teamInv_def books_idle)
next
  show "over brk Panicked (fst g) \<Longrightarrow> brk" for g :: "'a token" by simp
qed

section \<open>A phase under any schedule\<close>

lemma team_phase:
  assumes run: "poolRun (convergeKeyT (logged c) cfg ctx mode) w (r0, ss, []) (run, xs, ts)"
    and "known sn r0" "writes r0 = []"
    and P: "\<And>s log x. s \<in> set ss \<Longrightarrow> teamCall cfg mode sn (arSnap r0) s log x \<Longrightarrow> P log x"
  shows "phaseStep P r0 (ts = []) run \<and> known sn run"
proof -
  have i: "teamInv mode P sn r0 r0 {#}" using assms(2,3) by (simp add: teamInv_def books_start)
  have h: "\<forall>s \<in> set ss. honours True (teamInv mode P sn r0) (convergeKeyT (logged c) cfg ctx mode s) (Idle, r0)"
    using P by (blast intro: convergeKeyT_team)
  have fresh: "teamInv mode P sn r0 run' G \<Longrightarrow> teamInv mode P sn r0 run' (add_mset (Idle, r0) G)" for run' G
    by (simp add: teamInv_def books_idle)
  obtain G where "teamInv mode P sn r0 run G" "size G = length ts"
    using pool_invariant(2) [OF run i h fresh] by blast
  then show ?thesis by (auto simp: teamInv_def intro!: books_end)
qed

lemma teamCall_mono: "teamCall cfg mode sn sn0 s log x \<Longrightarrow> set log \<subseteq> set log' \<Longrightarrow> teamCall cfg mode sn sn0 s log' x"
  unfolding teamCall_def by (auto elim!: modeCall_mono rowKnown_mono)

text \<open>C10: Under every schedule of any number of workers a phase sends only the calls it is for: creates and updates with
a target of one of its sets, or deletes of rows its set does not want and that carry no alias; and an update or delete
names a row of the set's own key.  A refused call leaves an error, and when the goroutines have
ended, the writes kept for verification are exactly those the firewall acknowledged.\<close>

theorem workers_keep_to_plan:
  assumes "poolRun (convergeKeyT (logged c) cfg ctx mode) lim (run, ss, []) (run', xs, ts)"
    and "snapOk (arSnap run)" and "writes run = []"
  shows "\<exists>l es. logOf run' = logOf run @ l \<and>
    (\<forall>x \<in> set l. \<exists>s \<in> set ss. teamCall cfg mode (arSnap run) (arSnap run) s (logOf run') x) \<and>
    arErrs run' = arErrs run @ es \<and> phaseFailed run' = phaseFailed run + length es \<and>
    (ts = [] \<longrightarrow> (es = [] \<longrightarrow> list_all acked l) \<and> mset (map stripKey (writes run')) = ackedWrites l)"
proof -
  let ?P = "\<lambda>log x. \<exists>s \<in> set ss. teamCall cfg mode (arSnap run) (arSnap run) s log x"
  have "known (arSnap run) run" using assms(2) by (simp add: known_def rowKnown_def)
  from team_phase [OF assms(1) this assms(3), of ?P] have "phaseStep ?P run (ts = []) run'" by blast
  then obtain l es where l: "logOf run' = logOf run @ l" "callsOk ?P (logOf run) l" "arErrs run' = arErrs run @ es"
    "phaseFailed run' = phaseFailed run + length es"
    "ts = [] \<longrightarrow> (es = [] \<longrightarrow> list_all acked l) \<and> mset (map stripKey (writes run')) = ackedWrites l"
    using assms(3) unfolding phaseStep_def by auto
  have "?P (logOf run') x" if "x \<in> set l" for x
  proof -
    from callsOk_in [OF l(2) that] obtain m m' where m: "l = m @ x # m'" "?P (logOf run @ m) x" by blast
    then show ?thesis unfolding l(1) by (auto elim!: bexI [rotated] teamCall_mono)
  qed
  with l show ?thesis by blast
qed

end
