(* ===== verification/Phases.thy ===== *)
theory Phases
  imports Team
begin

text \<open>
  The calls of a phase and of a whole apply, for any client: their order, the gates between the
  phases, the verification reads and the trailing reload.
\<close>

section \<open>The verification read\<close>

lemma checkWrites_step:
  assumes "checkWrites b ws run = (n, run')"
  shows "\<exists>es. arErrs run' = arErrs run @ es \<and> length es = n \<and> (\<forall>e \<in> set es. error_is e ErrLostWrite) \<and>
    world (arP run') = world (arP run) \<and> pending (arP run') = pending (arP run) \<and> wrote run' = wrote run \<and>
    arSnap run' = arSnap run \<and> writes run' = writes run \<and> setsLe (arSets run) (arSets run')"
  using assms
proof (induction ws arbitrary: n run)
  case (Cons w ws)
  show ?case
  proof (cases "writeProblem b w")
    case None
    with Cons show ?thesis by simp
  next
    case (Some pr)
    let ?r = "lost (wrKey w) (lostError w pr) (onProv (meter (inc (LostWrites (wrOp w)))) run)"
    obtain m where m: "checkWrites b ws ?r = (m, run')" "n = Suc m"
      using Cons.prems Some by (auto split: prod.splits)
    from Cons.IH [OF m(1)] obtain es where es: "arErrs run' = arErrs ?r @ es" "length es = m"
      "\<forall>e \<in> set es. error_is e ErrLostWrite"
      "world (arP run') = world (arP ?r)" "pending (arP run') = pending (arP ?r)" "wrote run' = wrote ?r"
      "arSnap run' = arSnap ?r" "writes run' = writes ?r" "setsLe (arSets ?r) (arSets run')"
      by blast
    have "setsLe (arSets run) (arSets ?r)" by (simp add: lost_def)
    then have "setsLe (arSets run) (arSets run')" using es(9) by (rule setsLe_trans)
    with es m(2) show ?thesis
      by (intro exI [of _ "lostError w pr # es"]) (simp add: lost_def lostError_def)
  qed
qed simp

lemma verifyPhase_step:
  assumes "verifyPhase (logged c) ctx run = (n, run')"
  shows "\<exists>es r. arErrs run' = arErrs run @ es \<and> length es = n \<and> (\<forall>e \<in> set es. error_is e ErrLostWrite) \<and>
    logOf run' = logOf run @ r \<and> (if writes run = [] then r = [] else \<exists>a. r = [CallRead a]) \<and>
    pending (arP run') = pending (arP run) \<and> wrote run' = wrote run \<and>
    arSnap run' = arSnap run \<and> writes run' = [] \<and> setsLe (arSets run) (arSets run')"
proof (cases "writes run = []")
  case True
  with assms show ?thesis
    by (intro exI [of _ "[]"]) (auto simp: verifyPhase_def takeWrites_def)
next
  case False
  let ?run = "run\<lparr>writes := []\<rparr>"
  obtain a w where a: "cSnapshot c ctx (fst (world (arP run))) = (a, w)" by fastforce
  then have a': "cSnapshot (logged c) ctx (world (arP run)) = (a, w, logOf run @ [CallRead a])"
    by (cases "world (arP run)") (simp add: logged_def)
  show ?thesis
  proof (cases a)
    case (Inl e)
    with assms False a' show ?thesis
      by (intro exI [of _ "[]"] exI [of _ "[CallRead a]"]) (auto simp: verifyPhase_def takeWrites_def)
  next
    case (Inr sn)
    with assms False a' have
      "checkWrites (map_of (rev (map (\<lambda>r. (UUID (cols r), r)) (heap sn)))) (writes run)
         (putWorld (w, logOf run @ [CallRead a]) ?run) = (n, run')"
      by (simp add: verifyPhase_def takeWrites_def)
    from checkWrites_step [OF this] show ?thesis
      using False by (auto intro!: exI [of _ "[CallRead a]"])
  qed
qed

section \<open>One phase\<close>

definition selCall ::
  "config \<Rightarrow> snapshot \<Rightarrow> (rowKey \<rightharpoonup> desiredSet) \<Rightarrow> phase \<Rightarrow> call list \<Rightarrow> call \<Rightarrow> bool" where
  "selCall cfg sn S ph log x \<longleftrightarrow>
     (\<exists>k s. S k = Some s \<and> phSelects ph (krr k) \<and> modeCall cfg (phMode ph) s {i. rowKnown sn log k i} x)"

definition keyed :: "(rowKey \<rightharpoonup> desiredSet) \<Rightarrow> bool" where
  "keyed S \<longleftrightarrow> (\<forall>k s. S k = Some s \<longrightarrow> dsKey s = k)"

lemma writeFields_failed [simp]: "writeFields cfg (s\<lparr>dsFailed := b\<rparr>) = writeFields cfg s"
  by (simp add: writeFields_def fun_eq_iff)

lemma modeCall_failed [simp]: "modeCall cfg mode (s\<lparr>dsFailed := b\<rparr>) U x = modeCall cfg mode s U x"
  by (cases mode) (simp_all add: addCall_def)

lemma selected_call:
  assumes "s \<in> set (selected (phSelects ph) keys S')" "setsLe S S'" "keyed S"
    and "modeCall cfg (phMode ph) s {i. rowKnown sn log (dsKey s) i} x"
  shows "selCall cfg sn S ph log x"
proof -
  from assms(1) obtain k where k: "S' k = Some s" "phSelects ph (krr k)"
    by (auto simp: selected_def List.map_filter_def split: if_splits)
  from k(1) assms(2) consider "S k = Some s" | s0 where "S k = Some s0" "s = s0\<lparr>dsFailed := True\<rparr>"
    by (auto simp: setsLe_def) (metis (no_types, lifting) map_option_eq_Some option.exhaust)
  then show ?thesis
    using assms(3,4) k(2) by cases (auto simp: selCall_def keyed_def)
qed

text \<open>
  \<open>l\<close> are the calls of the phase, \<open>r\<close> its verification read and \<open>es\<close> its failures.
\<close>

definition phaseShape ::
  "config \<Rightarrow> snapshot \<Rightarrow> (rowKey \<rightharpoonup> desiredSet) \<Rightarrow> phase \<Rightarrow> call list \<Rightarrow> bool \<Rightarrow>
     call list \<Rightarrow> call list \<Rightarrow> error list \<Rightarrow> bool" where
  "phaseShape cfg sn S ph log ended l r es \<longleftrightarrow>
     callsOk (selCall cfg sn S ph) log l \<and>
     (if ended then (es = [] \<longrightarrow> list_all acked l) \<and>
                    (if list_ex acked l then \<exists>a. r = [CallRead a] else r = [])
      else r = [])"

lemma fold_markFailed:
  "arP (fold markFailed ss run) = arP run \<and> arSnap (fold markFailed ss run) = arSnap run \<and> arErrs (fold markFailed ss run) = arErrs run \<and>
   wrote (fold markFailed ss run) = wrote run \<and> writes (fold markFailed ss run) = writes run \<and>
   setsLe (arSets run) (arSets (fold markFailed ss run))"
proof (induction ss arbitrary: run)
  case (Cons s ss)
  have "setsLe (arSets run) (arSets (markFailed s run))" by (simp add: markFailed_def)
  moreover note Cons.IH [of "markFailed s run"]
  ultimately show ?case by (auto simp: markFailed_def intro: setsLe_trans)
qed simp

lemma known_same:
  "known sn run \<Longrightarrow> arSnap run' = arSnap run \<Longrightarrow> set (logOf run) \<subseteq> set (logOf run') \<Longrightarrow> known sn run'"
  by (rule known_shrink) (simp_all add: known_def)

lemma phase_runs:
  assumes st: "phase_with w (logged c) cfg ctx keys i ph failures run res run'" and g: "\<not> gatedOut ph failures"
    and kn: "known sn run" and S: "setsLe S (arSets run)" "keyed S" and w: "writes run = []"
  shows "\<exists>l r es. logOf run' = logOf run @ l @ r \<and> arErrs run' = arErrs run @ es \<and>
    phaseShape cfg sn S ph (logOf run) (res \<noteq> None) l r es \<and>
    (res = None \<or> res = Some (failures[i := failures ! i + length es]) \<and> writes run' = []) \<and>
    known sn run' \<and> setsLe S (arSets run') \<and> (wrote run \<or> l \<noteq> [] \<longrightarrow> wrote run') \<and> (res \<noteq> None \<and> wrote run' \<longrightarrow> wrote run \<or> l \<noteq> []) \<and>
    ((wrote run \<longrightarrow> pending (arP run)) \<longrightarrow> (pending (arP run) \<or> l \<noteq> [] \<longrightarrow> pending (arP run')) \<and>
       (res \<noteq> None \<and> pending (arP run') \<longrightarrow> pending (arP run) \<or> l \<noteq> []))"
proof -
  let ?sel = "selected (phSelects ph) keys (arSets run)"
  have group: "\<exists>l es. logOf r1 = logOf run @ l \<and> callsOk (selCall cfg sn S ph) (logOf run) l \<and>
    arErrs r1 = arErrs run @ es \<and> phaseFailed r1 = length es \<and> setsLe S (arSets r1) \<and> known sn r1 \<and>
    (wrote run \<or> l \<noteq> [] \<longrightarrow> wrote r1) \<and>
    ((wrote run \<longrightarrow> pending (arP run)) \<longrightarrow> pending (arP run) \<or> l \<noteq> [] \<longrightarrow> pending (arP r1)) \<and>
    (ts = [] \<longrightarrow> (es = [] \<longrightarrow> list_all acked l) \<and> length (writes r1) = length (filter acked l) \<and>
       (wrote r1 \<longrightarrow> wrote run \<or> l \<noteq> []) \<and>
       ((wrote run \<longrightarrow> pending (arP run)) \<longrightarrow> pending (arP r1) \<longrightarrow> pending (arP run) \<or> l \<noteq> []))"
    if p: "poolRun (convergeKeyT (logged c) cfg (CtxGroup ctx) (phMode ph)) w (startPhase run, ?sel, []) (r1, xs, ts)" for r1 xs ts
  proof -
    have "known sn (startPhase run)" "writes (startPhase run) = []" using kn w by (simp_all add: startPhase_def known_def)
    from team_phase [OF p this, of "selCall cfg sn S ph"] selected_call [OF _ S]
      teamCall_def
    have ps: "phaseStep (selCall cfg sn S ph) (startPhase run) (ts = []) r1" and kn1: "known sn r1" by auto
    from ps obtain l es where l: "logOf r1 = logOf run @ l" "callsOk (selCall cfg sn S ph) (logOf run) l"
      "arErrs r1 = arErrs run @ es" "phaseFailed r1 = length es" "setsLe (arSets run) (arSets r1)"
      "wrote run \<or> l \<noteq> [] \<longrightarrow> wrote r1"
      "(wrote run \<longrightarrow> pending (arP run)) \<longrightarrow> pending (arP run) \<or> l \<noteq> [] \<longrightarrow> pending (arP r1)"
      "ts = [] \<longrightarrow> (es = [] \<longrightarrow> list_all acked l) \<and> mset (map stripKey (writes r1)) = ackedWrites l \<and>
         (wrote r1 \<longrightarrow> wrote run \<or> l \<noteq> []) \<and>
         ((wrote run \<longrightarrow> pending (arP run)) \<longrightarrow> pending (arP r1) \<longrightarrow> pending (arP run) \<or> l \<noteq> [])"
      using w unfolding phaseStep_def startPhase_def by auto
    have "ts = [] \<Longrightarrow> size (mset (map stripKey (writes r1))) = size (ackedWrites l)" using l(8) by simp
    then have "ts = [] \<longrightarrow> length (writes r1) = length (filter acked l)" by simp
    moreover have "setsLe S (arSets r1)" using S(1) l(5) by (rule setsLe_trans)
    ultimately show ?thesis using l kn1 by (intro exI [of _ l] exI [of _ es]) blast
  qed
  from st show ?thesis
  proof cases
    case skipped
    with g show ?thesis by simp
  next
    case (broken xs ts)
    from group [OF broken(3)] obtain l es where l: "logOf run' = logOf run @ l" "callsOk (selCall cfg sn S ph) (logOf run) l"
      "arErrs run' = arErrs run @ es" "setsLe S (arSets run')" "known sn run'" "wrote run \<or> l \<noteq> [] \<longrightarrow> wrote run'"
      "(wrote run \<longrightarrow> pending (arP run)) \<longrightarrow> pending (arP run) \<or> l \<noteq> [] \<longrightarrow> pending (arP run')" by blast
    with broken(1) show ?thesis
      by (intro exI [of _ l] exI [of _ "[]"] exI [of _ es]) (simp add: phaseShape_def)
  next
    case (drained r1 n)
    from group [OF drained(3)] obtain l es where l: "logOf r1 = logOf run @ l" "callsOk (selCall cfg sn S ph) (logOf run) l"
      "arErrs r1 = arErrs run @ es" "phaseFailed r1 = length es" "setsLe S (arSets r1)" "known sn r1"
      "wrote run \<or> l \<noteq> [] \<longleftrightarrow> wrote r1" "es = [] \<longrightarrow> list_all acked l" "length (writes r1) = length (filter acked l)"
      "(wrote run \<longrightarrow> pending (arP run)) \<longrightarrow> (pending (arP r1) \<longleftrightarrow> pending (arP run) \<or> l \<noteq> [])" by blast
    from verifyPhase_step [OF drained(4)] obtain es2 r where r: "arErrs run' = arErrs r1 @ es2" "length es2 = n"
      "logOf run' = logOf r1 @ r" "if writes r1 = [] then r = [] else \<exists>a. r = [CallRead a]"
      "pending (arP run') = pending (arP r1)" "wrote run' = wrote r1"
      "arSnap run' = arSnap r1" "writes run' = []" "setsLe (arSets r1) (arSets run')"
      by blast
    have "writes r1 = [] \<longleftrightarrow> \<not> list_ex acked l"
      using l(9) by (metis filter_empty_conv length_0_conv list_ex_iff)
    with r(4) l have "phaseShape cfg sn S ph (logOf run) (res \<noteq> None) l r (es @ es2)"
      by (auto simp: phaseShape_def drained(1))
    moreover have "known sn run'" using l(6) r(3,7) by (auto elim!: known_same)
    moreover have "setsLe S (arSets run')" using l(5) r(9) by (rule setsLe_trans)
    ultimately show ?thesis
      using l r drained(1) by (intro exI [of _ l] exI [of _ r] exI [of _ "es @ es2"]) (auto simp: add.assoc)
  qed
qed

section \<open>The four phases\<close>

text \<open>
  One phase, run or skipped.  \<open>phaseDone\<close> collects what the next phase starts from.
\<close>

definition phaseStart ::
  "snapshot \<Rightarrow> (rowKey \<rightharpoonup> desiredSet) \<Rightarrow> ('w \<times> call list) applyRun \<Rightarrow> bool" where
  "phaseStart sn S run \<longleftrightarrow> known sn run \<and> setsLe S (arSets run) \<and> writes run = [] \<and>
     (wrote run \<longrightarrow> pending (arP run))"

definition phaseDone ::
  "config \<Rightarrow> snapshot \<Rightarrow> (rowKey \<rightharpoonup> desiredSet) \<Rightarrow> phase \<Rightarrow> ('w \<times> call list) applyRun \<Rightarrow> bool \<Rightarrow>
     call list \<Rightarrow> call list \<Rightarrow> error list \<Rightarrow> ('w \<times> call list) applyRun \<Rightarrow> bool" where
  "phaseDone cfg sn S ph run ended l r es run' \<longleftrightarrow>
     logOf run' = logOf run @ l @ r \<and> arErrs run' = arErrs run @ es \<and>
     phaseShape cfg sn S ph (logOf run) ended l r es \<and>
     (ended \<longrightarrow> phaseStart sn S run') \<and> known sn run' \<and>
     (wrote run \<or> l \<noteq> [] \<longrightarrow> wrote run') \<and> (ended \<and> wrote run' \<longrightarrow> wrote run \<or> l \<noteq> []) \<and>
     (pending (arP run) \<or> l \<noteq> [] \<longrightarrow> pending (arP run')) \<and> (ended \<and> pending (arP run') \<longrightarrow> pending (arP run) \<or> l \<noteq> [])"

lemma phase_done:
  assumes st: "phase_with w (logged c) cfg ctx keys i ph failures run res run'"
    and s: "phaseStart sn S run" and S: "keyed S" and i: "i < length failures"
  obtains l r es where "phaseDone cfg sn S ph run (res \<noteq> None) l r es run'"
    and "res = None \<or> res = Some (failures[i := failures ! i + length es])"
    and "gatedOut ph failures \<longrightarrow> l = [] \<and> es = [] \<and> res \<noteq> None"
proof (cases "gatedOut ph failures")
  case True
  with st have r: "res = Some failures" "run' = fold markFailed (selected (phSelects ph) keys (arSets run)) run"
    by (auto simp: phase_with.simps)
  note same = fold_markFailed [of "selected (phSelects ph) keys (arSets run)" run]
  have sets: "setsLe S (arSets run')" using s r same by (auto simp: phaseStart_def intro: setsLe_trans)
  have "known sn run'" using s r same by (auto simp: phaseStart_def intro: known_same)
  with sets s r same have "phaseDone cfg sn S ph run (res \<noteq> None) [] [] [] run'"
    by (simp add: phaseDone_def phaseStart_def phaseShape_def)
  with r i show thesis by (intro that [of "[]" "[]" "[]"]) simp_all
next
  case False
  from s have "known sn run" "setsLe S (arSets run)" "writes run = []" and p: "wrote run \<longrightarrow> pending (arP run)"
    by (simp_all add: phaseStart_def)
  with phase_runs [OF st False _ _ S] obtain l r es where
    "logOf run' = logOf run @ l @ r" "arErrs run' = arErrs run @ es"
    "phaseShape cfg sn S ph (logOf run) (res \<noteq> None) l r es"
    "res = None \<or> res = Some (failures[i := failures ! i + length es]) \<and> writes run' = []"
    "known sn run'" "setsLe S (arSets run')" "wrote run \<or> l \<noteq> [] \<longrightarrow> wrote run'"
    "res \<noteq> None \<and> wrote run' \<longrightarrow> wrote run \<or> l \<noteq> []" "pending (arP run) \<or> l \<noteq> [] \<longrightarrow> pending (arP run')"
    "res \<noteq> None \<and> pending (arP run') \<longrightarrow> pending (arP run) \<or> l \<noteq> []"
    by blast
  with p False show thesis
    by (intro that [of l r es]) (auto simp: phaseDone_def phaseStart_def)
qed

text \<open>The trace of an apply: the calls of the four phases, each with its verification read.\<close>

type_synonym phaseTrace = "bool \<times> call list \<times> call list \<times> error list"

fun applyTrace :: "config \<Rightarrow> snapshot \<Rightarrow> foldState \<Rightarrow> call list \<Rightarrow> phaseTrace list \<Rightarrow> bool" where
  "applyTrace cfg sn st log [(n0, l0, r0, e0), (n1, l1, r1, e1), (n2, l2, r2, e2), (n3, l3, r3, e3)] \<longleftrightarrow>
     phaseShape cfg sn (map_of (fsSets st)) (applyPhases ! 0) log n0 l0 r0 e0 \<and>
     phaseShape cfg sn (map_of (fsSets st)) (applyPhases ! 1) (log @ l0 @ r0) n1 l1 r1 e1 \<and>
     phaseShape cfg sn (map_of (fsSets st)) (applyPhases ! 2) (log @ l0 @ r0 @ l1 @ r1) n2 l2 r2 e2 \<and>
     phaseShape cfg sn (map_of (fsSets st)) (applyPhases ! 3) (log @ l0 @ r0 @ l1 @ r1 @ l2 @ r2) n3 l3 r3 e3 \<and>
     (n1 \<longrightarrow> n0) \<and> (n2 \<longrightarrow> n1) \<and> (n3 \<longrightarrow> n2) \<and>
     (\<not> n0 \<longrightarrow> l1 = []) \<and> (\<not> n1 \<longrightarrow> l2 = []) \<and> (\<not> n2 \<longrightarrow> l3 = []) \<and>
     (fsRejected st \<noteq> [] \<or> e0 \<noteq> [] \<longrightarrow> l1 = [] \<and> e1 = []) \<and> (e2 \<noteq> [] \<longrightarrow> l3 = [] \<and> e3 = [])"
| "applyTrace cfg sn st log _ \<longleftrightarrow> False"

definition phaseCalls :: "phaseTrace \<Rightarrow> call list" where
  "phaseCalls p = (case p of (n, l, r, e) \<Rightarrow> l @ r)"

definition phaseWrites :: "phaseTrace \<Rightarrow> call list" where
  "phaseWrites p = (case p of (n, l, r, e) \<Rightarrow> l)"

definition phaseErrs :: "phaseTrace \<Rightarrow> error list" where
  "phaseErrs p = (case p of (n, l, r, e) \<Rightarrow> e)"

lemmas phaseTrace_defs = phaseCalls_def phaseWrites_def phaseErrs_def

lemma phaseShape_empty [simp]: "phaseShape cfg sn S ph log ended [] [] es"
  by (simp add: phaseShape_def)

text \<open>A phase of the list: it panics and is the last, or the rest follows.\<close>

lemma phase_then:
  assumes st: "phases_with w (logged c) cfg ctx keys i (ph # phs) F run res run'"
    and s: "phaseStart sn S run" and S: "keyed S" and i: "i < length F"
  obtains (halted) l r es where "res = None" "phaseDone cfg sn S ph run False l r es run'"
      "gatedOut ph F \<longrightarrow> l = [] \<and> es = []"
  | (ran) l r es run1 where "phaseDone cfg sn S ph run True l r es run1" "phaseStart sn S run1"
      "gatedOut ph F \<longrightarrow> l = [] \<and> es = []"
      "phases_with w (logged c) cfg ctx keys (Suc i) phs (F[i := F ! i + length es]) run1 res run'"
  using st unfolding phases_with_Cons
proof (elim disjE exE conjE)
  assume "res = None" and p: "phase_with w (logged c) cfg ctx keys i ph F run None run'"
  from p s S i obtain l r es where "phaseDone cfg sn S ph run (None \<noteq> (None :: nat list option)) l r es run'"
    "gatedOut ph F \<longrightarrow> l = [] \<and> es = [] \<and> (None :: nat list option) \<noteq> None" by (rule phase_done)
  with \<open>res = None\<close> show thesis by (intro halted) auto
next
  fix F' run1 assume p: "phase_with w (logged c) cfg ctx keys i ph F run (Some F') run1"
    and ps: "phases_with w (logged c) cfg ctx keys (Suc i) phs F' run1 res run'"
  from p s S i obtain l r es where d: "phaseDone cfg sn S ph run (Some F' \<noteq> None) l r es run1"
    "Some F' = None \<or> Some F' = Some (F[i := F ! i + length es])"
    "gatedOut ph F \<longrightarrow> l = [] \<and> es = [] \<and> Some F' \<noteq> None" by (rule phase_done)
  then have "phaseStart sn S run1" by (simp add: phaseDone_def)
  with d ps show thesis by (intro ran) auto
qed

lemma phases_trace:
  assumes st: "phases_with w (logged c) cfg ctx keys 0 applyPhases [length (fsRejected fs), 0, 0, 0] run res run'"
    and s: "phaseStart sn (map_of (fsSets fs)) run" and S: "keyed (map_of (fsSets fs))"
  shows "\<exists>ps. applyTrace cfg sn fs (logOf run) ps \<and> (res \<noteq> None \<longrightarrow> fst (last ps)) \<and>
    logOf run' = logOf run @ concat (map phaseCalls ps) \<and>
    arErrs run' = arErrs run @ concat (map phaseErrs ps) \<and> known sn run' \<and>
    (wrote run \<or> concat (map phaseWrites ps) \<noteq> [] \<longrightarrow> wrote run') \<and>
    (res \<noteq> None \<and> wrote run' \<longrightarrow> wrote run \<or> concat (map phaseWrites ps) \<noteq> []) \<and>
    (pending (arP run) \<or> concat (map phaseWrites ps) \<noteq> [] \<longrightarrow> pending (arP run')) \<and>
    (res \<noteq> None \<and> pending (arP run') \<longrightarrow> pending (arP run) \<or> concat (map phaseWrites ps) \<noteq> [])"
proof -
  let ?S = "map_of (fsSets fs)" and ?F = "[length (fsRejected fs), 0, 0, 0]"
  let ?P = "phases_with w (logged c) cfg ctx keys"
  have phases: "applyPhases = [applyPhases ! 0, applyPhases ! 1, applyPhases ! 2, applyPhases ! 3]"
    by (simp add: applyPhases_def)
  have gates: "gatedOut (applyPhases ! Suc 0) F \<longleftrightarrow> 0 < F ! 0" "gatedOut (applyPhases ! 3) F \<longleftrightarrow> 0 < F ! 2" for F
    by (simp_all add: applyPhases_def gatedOut_def phase_indices)
  have st0: "?P 0 [applyPhases ! 0, applyPhases ! 1, applyPhases ! 2, applyPhases ! 3] ?F run res run'"
    using st by (simp only: phases [symmetric])
  show ?thesis
  proof (rule phase_then [OF st0 s S])
    fix l0 v0 e0 assume "res = None" "phaseDone cfg sn ?S (applyPhases ! 0) run False l0 v0 e0 run'"
    then show ?thesis
      by (intro exI [of _ "[(False, l0, v0, e0), (False, [], [], []), (False, [], [], []), (False, [], [], [])]"])
         (simp add: phaseTrace_defs phaseDone_def)
  next
    fix l0 v0 e0 r0 assume 0: "phaseDone cfg sn ?S (applyPhases ! 0) run True l0 v0 e0 r0" and s1: "phaseStart sn ?S r0"
      and st1: "?P (Suc 0) [applyPhases ! 1, applyPhases ! 2, applyPhases ! 3] (?F[0 := ?F ! 0 + length e0]) r0 res run'"
    show ?thesis
    proof (rule phase_then [OF st1 s1 S])
      fix l1 v1 e1 assume "res = None" "phaseDone cfg sn ?S (applyPhases ! 1) r0 False l1 v1 e1 run'"
        "gatedOut (applyPhases ! 1) (?F[0 := ?F ! 0 + length e0]) \<longrightarrow> l1 = [] \<and> e1 = []"
      with 0 show ?thesis
        by (intro exI [of _ "[(True, l0, v0, e0), (False, l1, v1, e1), (False, [], [], []), (False, [], [], [])]"])
           (simp add: phaseTrace_defs phaseDone_def gates, (blast | argo)?)
    next
      fix l1 v1 e1 r1 assume 1: "phaseDone cfg sn ?S (applyPhases ! 1) r0 True l1 v1 e1 r1" and s2: "phaseStart sn ?S r1"
        and g1: "gatedOut (applyPhases ! 1) (?F[0 := ?F ! 0 + length e0]) \<longrightarrow> l1 = [] \<and> e1 = []"
        and st2: "?P (Suc (Suc 0)) [applyPhases ! 2, applyPhases ! 3]
            ((?F[0 := ?F ! 0 + length e0])[Suc 0 := (?F[0 := ?F ! 0 + length e0]) ! Suc 0 + length e1]) r1 res run'"
      show ?thesis
      proof (rule phase_then [OF st2 s2 S])
        fix l2 v2 e2 assume "res = None" "phaseDone cfg sn ?S (applyPhases ! 2) r1 False l2 v2 e2 run'"
        with 0 1 g1 show ?thesis
          by (intro exI [of _ "[(True, l0, v0, e0), (True, l1, v1, e1), (False, l2, v2, e2), (False, [], [], [])]"])
             (simp add: phaseTrace_defs phaseDone_def gates, (blast | argo)?)
      next
        fix l2 v2 e2 r2 assume 2: "phaseDone cfg sn ?S (applyPhases ! 2) r1 True l2 v2 e2 r2" and s3: "phaseStart sn ?S r2"
          and "?P (Suc (Suc (Suc 0))) [applyPhases ! 3] (((?F[0 := ?F ! 0 + length e0])[Suc 0 := (?F[0 := ?F ! 0 + length e0]) ! Suc 0 + length e1])
              [Suc (Suc 0) := ((?F[0 := ?F ! 0 + length e0])[Suc 0 := (?F[0 := ?F ! 0 + length e0]) ! Suc 0 + length e1]) ! Suc (Suc 0) + length e2]) r2 res run'"
        then have st3: "?P (Suc (Suc (Suc 0))) [applyPhases ! 3] [length (fsRejected fs) + length e0, length e1, length e2, 0] r2 res run'"
          by simp
        show ?thesis
        proof (rule phase_then [OF st3 s3 S])
          fix l3 v3 e3 assume "res = None" "phaseDone cfg sn ?S (applyPhases ! 3) r2 False l3 v3 e3 run'"
            "gatedOut (applyPhases ! 3) [length (fsRejected fs) + length e0, length e1, length e2, 0] \<longrightarrow> l3 = [] \<and> e3 = []"
          with 0 1 2 g1 show ?thesis
            by (intro exI [of _ "[(True, l0, v0, e0), (True, l1, v1, e1), (True, l2, v2, e2), (False, l3, v3, e3)]"])
               (simp add: phaseTrace_defs phaseDone_def gates, (blast | argo)?)
        next
          fix l3 v3 e3 r3 assume "phaseDone cfg sn ?S (applyPhases ! 3) r2 True l3 v3 e3 r3"
            "gatedOut (applyPhases ! 3) [length (fsRejected fs) + length e0, length e1, length e2, 0] \<longrightarrow> l3 = [] \<and> e3 = []"
            "?P (Suc (Suc (Suc (Suc 0)))) [] ([length (fsRejected fs) + length e0, length e1, length e2, 0]
               [Suc (Suc (Suc 0)) := [length (fsRejected fs) + length e0, length e1, length e2, 0] ! Suc (Suc (Suc 0)) + length e3]) r3 res run'"
          with 0 1 2 g1 show ?thesis
            by (intro exI [of _ "[(True, l0, v0, e0), (True, l1, v1, e1), (True, l2, v2, e2), (True, l3, v3, e3)]"])
               (simp add: phaseTrace_defs phaseDone_def gates phases_with_Nil, (blast | argo)?)
        qed simp
      qed simp
    qed simp
  qed simp
qed

end
