(* ===== verification/Apply_Spec.thy ===== *)
theory Apply_Spec
  imports Phases
begin

text \<open>
  What an apply promises the firewall: the facts about \<^verbatim>\<open>apply\<close> as a whole, for any client, read
  off the trace of its phases.
\<close>

section \<open>The whole apply\<close>

lemma keyed_foldChanges: "keyed (map_of (fsSets (foldChanges cfg ch m)))"
  using foldChanges_ok [of cfg ch m] by (auto simp: keyed_def foldOk_def setOk_def dest!: map_of_SomeD)

lemma phaseStart_begin:
  "snapOk sn \<Longrightarrow> phaseStart sn (map_of (fsSets st)) (beginRun sn st p)"
  by (simp add: phaseStart_def beginRun_def known_def rowKnown_def)

lemma cSnapshot_logged:
  "cSnapshot c ctx (fst wl) = (a, w) \<Longrightarrow> cSnapshot (logged c) ctx wl = (a, w, snd wl @ [CallRead a])"
  by (cases wl) (simp add: logged_def)

lemma cReconfigure_logged:
  "cReconfigure c ctx (fst wl) = (a, w) \<Longrightarrow> cReconfigure (logged c) ctx wl = (a, w, snd wl @ [CallReload a])"
  by (cases wl) (simp add: logged_def)

lemma reconfigure_logged:
  assumes "reconfigure (logged c) cfg False p = (err, p')"
  shows "snd (world p') = snd (world p) @ [CallReload err] \<and> (pending p' \<longleftrightarrow> err \<noteq> None)"
proof -
  obtain a w where "cReconfigure c (CtxWithTimeout CtxBackground (cReconfigureTimeout cfg)) (fst (world p)) = (a, w)"
    by fastforce
  from cReconfigure_logged [OF this] assms show ?thesis
    by (auto simp: reconfigure_def Let_def split: option.splits)
qed

text \<open>How an apply ends: the reload, and the errors it returns.\<close>

definition applyEnd :: "bool \<Rightarrow> error list \<Rightarrow> error outcome \<Rightarrow> call list \<Rightarrow> bool \<Rightarrow> bool" where
  "applyEnd due errs out rel pend \<longleftrightarrow>
     (if due then \<exists>e. rel = [CallReload e] \<and> (pend \<longleftrightarrow> e \<noteq> None) \<and>
         out = (case errs @ (case e of None \<Rightarrow> [] | Some x \<Rightarrow> [Wrap ''reconfigure'' x]) of
                  [] \<Rightarrow> Done | es \<Rightarrow> Fail (Joined es))
      else rel = [] \<and> \<not> pend \<and> out = (case errs of [] \<Rightarrow> Done | es \<Rightarrow> Fail (Joined es)))"

lemma applyEnd_Done:
  assumes "applyEnd due errs Done rel pend"
  shows "errs = [] \<and> \<not> pend"
proof (cases due)
  case True
  with assms obtain e where e: "pend \<longleftrightarrow> e \<noteq> None"
    and d: "Done = (case errs @ (case e of None \<Rightarrow> [] | Some x \<Rightarrow> [Wrap ''reconfigure'' x]) of
                  [] \<Rightarrow> Done | es \<Rightarrow> Fail (Joined es))"
    by (auto simp: applyEnd_def)
  from d have "errs @ (case e of None \<Rightarrow> [] | Some x \<Rightarrow> [Wrap ''reconfigure'' x]) = []"
    by (cases "errs @ (case e of None \<Rightarrow> [] | Some x \<Rightarrow> [Wrap ''reconfigure'' x])") auto
  with e show ?thesis by (cases e) auto
next
  case False
  with assms show ?thesis by (cases errs) (auto simp: applyEnd_def)
qed

lemma apply_run:
  assumes ap: "apply_with lim (logged c) cfg shuffle ctx ch p out p'"
    and sn: "cSnapshot c ctx (fst (world p)) = (Inr sn, w)" and ok: "snapOk sn"
    and st: "st = foldChanges cfg ch (pmets p)"
  obtains ps rel where
    "applyTrace cfg sn st (snd (world p) @ [CallRead (Inr sn)]) ps"
    "snd (world p') = snd (world p) @ CallRead (Inr sn) # concat (map phaseCalls ps) @ rel"
    "out = Panicked \<longrightarrow> rel = [] \<and> (pending p \<or> concat (map phaseWrites ps) \<noteq> [] \<longrightarrow> pending p')"
    "out \<noteq> Panicked \<longrightarrow> fst (last ps) \<and>
       applyEnd (pending p \<or> concat (map phaseWrites ps) \<noteq> []) (fsErrs st @ concat (map phaseErrs ps)) out rel (pending p')"
proof -
  let ?run = "beginRun sn st (p\<lparr>world := (w, snd (world p) @ [CallRead (Inr sn)])\<rparr>)"
  from ap obtain res r1 where rp: "phases_with lim (logged c) cfg ctx (planKeys shuffle st) 0 applyPhases
      [length (fsRejected st), 0, 0, 0] ?run res r1" and ap': "applied (logged c) cfg res r1 = (out, p')"
    using cSnapshot_logged [OF sn] st by (auto simp: apply_with_def Let_def)
  have b0: "logOf ?run = snd (world p) @ [CallRead (Inr sn)]" "arErrs ?run = fsErrs st" "\<not> wrote ?run"
    "pending (arP ?run) = pending p"
    by (simp_all add: beginRun_def)
  have "keyed (map_of (fsSets st))" by (simp add: st keyed_foldChanges)
  from phases_trace [OF rp phaseStart_begin [OF ok] this] obtain ps where
    "applyTrace cfg sn st (logOf ?run) ps" "res \<noteq> None \<longrightarrow> fst (last ps)"
    "logOf r1 = logOf ?run @ concat (map phaseCalls ps)" "arErrs r1 = arErrs ?run @ concat (map phaseErrs ps)"
    "wrote ?run \<or> concat (map phaseWrites ps) \<noteq> [] \<longrightarrow> wrote r1"
    "res \<noteq> None \<and> wrote r1 \<longrightarrow> wrote ?run \<or> concat (map phaseWrites ps) \<noteq> []"
    "pending (arP ?run) \<or> concat (map phaseWrites ps) \<noteq> [] \<longrightarrow> pending (arP r1)"
    "res \<noteq> None \<and> pending (arP r1) \<longrightarrow> pending (arP ?run) \<or> concat (map phaseWrites ps) \<noteq> []"
    by blast
  then have ps: "applyTrace cfg sn st (snd (world p) @ [CallRead (Inr sn)]) ps" "res \<noteq> None \<longrightarrow> fst (last ps)"
    "logOf r1 = (snd (world p) @ [CallRead (Inr sn)]) @ concat (map phaseCalls ps)"
    "arErrs r1 = fsErrs st @ concat (map phaseErrs ps)"
    "concat (map phaseWrites ps) \<noteq> [] \<longrightarrow> wrote r1" "res \<noteq> None \<and> wrote r1 \<longrightarrow> concat (map phaseWrites ps) \<noteq> []"
    "pending p \<or> concat (map phaseWrites ps) \<noteq> [] \<longrightarrow> pending (arP r1)"
    "res \<noteq> None \<and> pending (arP r1) \<longrightarrow> pending p \<or> concat (map phaseWrites ps) \<noteq> []"
    unfolding b0(1,2,4) using b0(3) by simp_all
  show thesis
  proof (cases res)
    case None
    with ap' have "out = Panicked" "p' = arP r1" by (simp_all add: applied_def)
    with ps b0 show thesis by (intro that [of ps "[]"]) simp_all
  next
    case (Some x)
    let ?due = "pending p \<or> concat (map phaseWrites ps) \<noteq> []"
    have due: "(wrote r1 \<or> pending (arP r1)) \<longleftrightarrow> ?due" using ps Some by auto
    obtain e p1 where rc: "reconfigure (logged c) cfg False (arP r1) = (e, p1)" by fastforce
    have "applyEnd ?due (arErrs r1) out (if ?due then [CallReload e] else []) (pending p') \<and>
      out \<noteq> Panicked \<and> snd (world p') = logOf r1 @ (if ?due then [CallReload e] else [])"
    proof (cases ?due)
      case True
      with ap' Some rc due reconfigure_logged [OF rc] show ?thesis
        by (cases e; cases "arErrs r1") (auto simp: applied_def finishApply_def Let_def joinErrors_def addErr_def applyEnd_def)
    next
      case False
      with due have "\<not> wrote r1" "\<not> pending (arP r1)" by auto
      with ap' Some False show ?thesis
        by (cases "arErrs r1") (auto simp: applied_def finishApply_def Let_def joinErrors_def applyEnd_def)
    qed
    with ps b0 Some show thesis
      by (intro that [of ps "if ?due then [CallReload e] else []"]) auto
  qed
qed

section \<open>The writes of an apply\<close>

lemma selCall_mono: "selCall cfg sn S ph log x \<Longrightarrow> set log \<subseteq> set log' \<Longrightarrow> selCall cfg sn S ph log' x"
  unfolding selCall_def
proof (elim exE conjE, intro exI conjI)
  fix k s
  assume "modeCall cfg (phMode ph) s {i. rowKnown sn log k i} x" and sub: "set log \<subseteq> set log'"
  then show "modeCall cfg (phMode ph) s {i. rowKnown sn log' k i} x"
    by (rule_tac modeCall_mono) (auto intro: rowKnown_mono)
qed assumption+

lemma modeCall_isWrite: "modeCall cfg mode s U x \<Longrightarrow> isWrite x"
  by (cases mode) (auto simp: addCall_def delCall_def)

lemma phaseShape_calls:
  assumes "phaseShape cfg sn S ph log ended l r es" and "set (log @ l) \<subseteq> set log'"
  shows "list_all (selCall cfg sn S ph log') l" and "filter isWrite (l @ r) = l"
    and "ended \<Longrightarrow> es = [] \<Longrightarrow> list_all acked l"
proof -
  have c: "callsOk (selCall cfg sn S ph) log l" and r: "list_all (\<lambda>x. \<not> isWrite x) r"
    using assms(1) by (auto simp: phaseShape_def split: if_splits)
  have "selCall cfg sn S ph log' x" if "x \<in> set l" for x
  proof -
    from callsOk_in [OF c that] obtain m m' where "l = m @ x # m'" "selCall cfg sn S ph (log @ m) x" by blast
    from this(2) show ?thesis by (rule selCall_mono) (use assms(2) \<open>l = m @ x # m'\<close> in auto)
  qed
  then show a: "list_all (selCall cfg sn S ph log') l" by (simp add: list_all_iff)
  have "isWrite x" if "x \<in> set l" for x
    using a that by (auto simp: list_all_iff selCall_def dest: modeCall_isWrite)
  with r show "filter isWrite (l @ r) = l" by (simp add: filter_True list_all_iff)
  show "ended \<Longrightarrow> es = [] \<Longrightarrow> list_all acked l" using assms(1) by (simp add: phaseShape_def)
qed

lemma applyTrace_phases:
  assumes "applyTrace cfg sn st log ps"
  obtains n0 l0 r0 e0 n1 l1 r1 e1 n2 l2 r2 e2 n3 l3 r3 e3
  where "ps = [(n0, l0, r0, e0), (n1, l1, r1, e1), (n2, l2, r2, e2), (n3, l3, r3, e3)]"
  using assms by (cases "(cfg, sn, st, log, ps)" rule: applyTrace.cases) simp_all

lemma apply_writes:
  assumes ap: "apply_with lim (logged c) cfg shuffle ctx ch p out p'"
    and sn: "cSnapshot c ctx (fst (world p)) = (Inr sn, w)" and ok: "snapOk sn"
    and st: "st = foldChanges cfg ch (pmets p)" and start: "snd (world p) = []"
  obtains l0 l1 l2 l3 where
    "filter isWrite (snd (world p')) = l0 @ l1 @ l2 @ l3"
    "list_all (selCall cfg sn (map_of (fsSets st)) (applyPhases ! 0) (snd (world p'))) l0"
    "list_all (selCall cfg sn (map_of (fsSets st)) (applyPhases ! 1) (snd (world p'))) l1"
    "list_all (selCall cfg sn (map_of (fsSets st)) (applyPhases ! 2) (snd (world p'))) l2"
    "list_all (selCall cfg sn (map_of (fsSets st)) (applyPhases ! 3) (snd (world p'))) l3"
    "fsRejected st \<noteq> [] \<or> \<not> list_all acked l0 \<longrightarrow> l1 = []"
    "\<not> list_all acked l2 \<longrightarrow> l3 = []"
    "out = Done \<longrightarrow> fsErrs st = [] \<and> list_all acked (l0 @ l1 @ l2 @ l3) \<and> \<not> pending p'"
    "l0 @ l1 @ l2 @ l3 \<noteq> [] \<and> out \<noteq> Panicked \<longrightarrow>
       (\<exists>e. last (snd (world p')) = CallReload e \<and> (pending p' \<longleftrightarrow> e \<noteq> None))"
proof -
  obtain ps rel where t: "applyTrace cfg sn st (snd (world p) @ [CallRead (Inr sn)]) ps"
    and log: "snd (world p') = snd (world p) @ CallRead (Inr sn) # concat (map phaseCalls ps) @ rel"
    and pan: "out = Panicked \<longrightarrow> rel = [] \<and> (pending p \<or> concat (map phaseWrites ps) \<noteq> [] \<longrightarrow> pending p')"
    and fin: "out \<noteq> Panicked \<longrightarrow> fst (last ps) \<and> applyEnd (pending p \<or> concat (map phaseWrites ps) \<noteq> [])
       (fsErrs st @ concat (map phaseErrs ps)) out rel (pending p')"
    by (rule apply_run [OF ap sn ok st])
  have rel: "filter isWrite rel = []"
    using pan fin by (cases "out = Panicked") (auto simp: applyEnd_def split: if_splits)
  obtain n0 l0 r0 e0 n1 l1 r1 e1 n2 l2 r2 e2 n3 l3 r3 e3
    where ps: "ps = [(n0, l0, r0, e0), (n1, l1, r1, e1), (n2, l2, r2, e2), (n3, l3, r3, e3)]"
    by (rule applyTrace_phases [OF t])
  let ?S = "map_of (fsSets st)" and ?L = "snd (world p')" and ?l = "snd (world p) @ [CallRead (Inr sn)]"
  have sh: "phaseShape cfg sn ?S (applyPhases ! 0) ?l n0 l0 r0 e0"
        "phaseShape cfg sn ?S (applyPhases ! 1) (?l @ l0 @ r0) n1 l1 r1 e1"
        "phaseShape cfg sn ?S (applyPhases ! 2) (?l @ l0 @ r0 @ l1 @ r1) n2 l2 r2 e2"
        "phaseShape cfg sn ?S (applyPhases ! 3) (?l @ l0 @ r0 @ l1 @ r1 @ l2 @ r2) n3 l3 r3 e3"
      and n: "(n1 \<longrightarrow> n0) \<and> (n2 \<longrightarrow> n1) \<and> (n3 \<longrightarrow> n2) \<and> (\<not> n0 \<longrightarrow> l1 = []) \<and> (\<not> n2 \<longrightarrow> l3 = [])"
      and g: "fsRejected st \<noteq> [] \<or> e0 \<noteq> [] \<longrightarrow> l1 = []" "e2 \<noteq> [] \<longrightarrow> l3 = []"
      using t unfolding ps applyTrace.simps by blast+
    have L: "?L = ?l @ (l0 @ r0) @ (l1 @ r1) @ (l2 @ r2) @ (l3 @ r3) @ rel"
      using log ps by (simp add: phaseCalls_def)
    note c0 = phaseShape_calls [OF sh(1), of ?L] and c1 = phaseShape_calls [OF sh(2), of ?L]
      and c2 = phaseShape_calls [OF sh(3), of ?L] and c3 = phaseShape_calls [OF sh(4), of ?L]
    have sub: "set (?l @ l0) \<subseteq> set ?L" "set ((?l @ l0 @ r0) @ l1) \<subseteq> set ?L"
      "set ((?l @ l0 @ r0 @ l1 @ r1) @ l2) \<subseteq> set ?L" "set ((?l @ l0 @ r0 @ l1 @ r1 @ l2 @ r2) @ l3) \<subseteq> set ?L"
      by (auto simp: L)
    note fw = c0(2) [OF sub(1)] c1(2) [OF sub(2)] c2(2) [OF sub(3)] c3(2) [OF sub(4)]
    have "filter isWrite ?L = filter isWrite ?l @ filter isWrite (l0 @ r0) @ filter isWrite (l1 @ r1) @
        filter isWrite (l2 @ r2) @ filter isWrite (l3 @ r3) @ filter isWrite rel"
      by (simp only: L filter_append append_assoc)
    then have F: "filter isWrite ?L = l0 @ l1 @ l2 @ l3"
      unfolding fw rel by (simp add: start)
    have a0: "n0 \<Longrightarrow> e0 = [] \<Longrightarrow> list_all acked l0" and a1: "n1 \<Longrightarrow> e1 = [] \<Longrightarrow> list_all acked l1"
      and a2: "n2 \<Longrightarrow> e2 = [] \<Longrightarrow> list_all acked l2" and a3: "n3 \<Longrightarrow> e3 = [] \<Longrightarrow> list_all acked l3"
      using c0(3) [OF sub(1)] c1(3) [OF sub(2)] c2(3) [OF sub(3)] c3(3) [OF sub(4)] by blast+
    show thesis
    proof (rule that [OF F])
      show "fsRejected st \<noteq> [] \<or> \<not> list_all acked l0 \<longrightarrow> l1 = []" using g(1) n a0 by blast
      show "\<not> list_all acked l2 \<longrightarrow> l3 = []" using g(2) n a2 by blast
      show "out = Done \<longrightarrow> fsErrs st = [] \<and> list_all acked (l0 @ l1 @ l2 @ l3) \<and> \<not> pending p'"
      proof
        assume o: "out = Done"
        with fin ps n have "n3" "n2" "n1" "n0" by auto
        moreover from o fin ps have "fsErrs st @ e0 @ e1 @ e2 @ e3 = [] \<and> \<not> pending p'"
          using applyEnd_Done by (fastforce simp: phaseErrs_def)
        ultimately show "fsErrs st = [] \<and> list_all acked (l0 @ l1 @ l2 @ l3) \<and> \<not> pending p'"
          using a0 a1 a2 a3 by auto
      qed
      show "l0 @ l1 @ l2 @ l3 \<noteq> [] \<and> out \<noteq> Panicked \<longrightarrow>
         (\<exists>e. last (snd (world p')) = CallReload e \<and> (pending p' \<longleftrightarrow> e \<noteq> None))"
      proof
        assume a: "l0 @ l1 @ l2 @ l3 \<noteq> [] \<and> out \<noteq> Panicked"
        then have "concat (map phaseWrites ps) \<noteq> []" by (auto simp: ps phaseWrites_def)
        with a fin obtain e where "rel = [CallReload e]" "pending p' \<longleftrightarrow> e \<noteq> None"
          by (auto simp: applyEnd_def)
        then show "\<exists>e. last (snd (world p')) = CallReload e \<and> (pending p' \<longleftrightarrow> e \<noteq> None)"
          by (simp add: L)
      qed
    qed (fact c0(1) [OF sub(1)] c1(1) [OF sub(2)] c2(1) [OF sub(3)] c3(1) [OF sub(4)])+
qed

section \<open>Order, gates and scope\<close>

fun callRR :: "call \<Rightarrow> string option" where
  "callRR (CallAdd f r) = Some (fRR f)"
| "callRR (CallSet u f e) = Some (fRR f)"
| "callRR _ = None"

text \<open>Creates and updates of TXT rows, then those of data rows, then deletes.\<close>

definition writeRank :: "call \<Rightarrow> nat" where
  "writeRank x = (case callRR x of Some rr \<Rightarrow> if isTXT rr then 0 else 1 | None \<Rightarrow> 2)"

text \<open>A row a delete may name: one the first read showed under the key, or one created since.\<close>

definition deletes :: "snapshot \<Rightarrow> call list \<Rightarrow> (string \<Rightarrow> bool) \<Rightarrow> call \<Rightarrow> bool" where
  "deletes sn log sel x \<longleftrightarrow>
     (\<exists>u r k cs. x = CallDel u r \<and> sel (krr k) \<and> rowKnown sn log k (u, cs) \<and> \<not> list_ex enabled cs)"

lemma writeFields_key: "fRR (writeFields cfg s t) = krr (dsKey s)"
  by (simp add: writeFields_def Let_def)

lemma selCall_adds:
  assumes "selCall cfg sn S ph log x" and "keyed S" and "phMode ph = modeAddSet"
  shows "\<exists>rr. callRR x = Some rr \<and> phSelects ph rr"
  using assms unfolding selCall_def keyed_def by (auto simp: addCall_def writeFields_key)

lemma selCall_dels:
  assumes "selCall cfg sn S ph log x" and "phMode ph = modeRemove"
  shows "deletes sn log (phSelects ph) x"
  using assms unfolding selCall_def deletes_def by (auto simp: delCall_def)

lemma applyPhases_nth [simp]:
  "phSelects (applyPhases ! 0) = isTXT" "phMode (applyPhases ! 0) = modeAddSet"
  "phSelects (applyPhases ! Suc 0) = isData" "phMode (applyPhases ! Suc 0) = modeAddSet"
  "phSelects (applyPhases ! 2) = isData" "phMode (applyPhases ! 2) = modeRemove"
  "phSelects (applyPhases ! 3) = isTXT" "phMode (applyPhases ! 3) = modeRemove"
  by (simp_all add: applyPhases_def)

text \<open>The four groups of writes of an apply, each with the rank its phase gives it.\<close>

lemma apply_groups:
  assumes ap: "apply_with lim (logged c) cfg shuffle ctx ch p out p'"
    and sn: "cSnapshot c ctx (fst (world p)) = (Inr sn, w)" and ok: "snapOk sn"
    and st: "st = foldChanges cfg ch (pmets p)" and start: "snd (world p) = []"
  obtains l0 l1 l2 l3 where
    "filter isWrite (snd (world p')) = l0 @ l1 @ l2 @ l3"
    "\<forall>x \<in> set l0. writeRank x = 0" "\<forall>x \<in> set l1. writeRank x = 1"
    "\<forall>x \<in> set l2. writeRank x = 2 \<and> deletes sn (snd (world p')) isData x"
    "\<forall>x \<in> set l3. writeRank x = 2 \<and> deletes sn (snd (world p')) isTXT x"
    "fsRejected st \<noteq> [] \<or> \<not> list_all acked l0 \<longrightarrow> l1 = []" "\<not> list_all acked l2 \<longrightarrow> l3 = []"
proof -
  let ?L = "snd (world p')" and ?S = "map_of (fsSets st)"
  obtain l0 l1 l2 l3 where l: "filter isWrite ?L = l0 @ l1 @ l2 @ l3"
    "list_all (selCall cfg sn ?S (applyPhases ! 0) ?L) l0" "list_all (selCall cfg sn ?S (applyPhases ! 1) ?L) l1"
    "list_all (selCall cfg sn ?S (applyPhases ! 2) ?L) l2" "list_all (selCall cfg sn ?S (applyPhases ! 3) ?L) l3"
    "fsRejected st \<noteq> [] \<or> \<not> list_all acked l0 \<longrightarrow> l1 = []" "\<not> list_all acked l2 \<longrightarrow> l3 = []"
    by (rule apply_writes [OF ap sn ok st start])
  have S: "keyed ?S" by (simp add: st keyed_foldChanges)
  have "writeRank x = 0" if "x \<in> set l0" for x
    using l(2) that selCall_adds [OF _ S, of cfg sn "applyPhases ! 0" ?L x]
    by (auto simp: list_all_iff writeRank_def)
  moreover have "writeRank x = 1" if "x \<in> set l1" for x
    using l(3) that selCall_adds [OF _ S, of cfg sn "applyPhases ! 1" ?L x]
    by (auto simp: list_all_iff writeRank_def isTXT_def isData_def)
  moreover have rank: "deletes sn ?L sel x \<Longrightarrow> writeRank x = 2" for sel x
    by (auto simp: deletes_def writeRank_def)
  moreover have "deletes sn ?L isData x" if "x \<in> set l2" for x
    using l(4) that selCall_dels [of cfg sn ?S "applyPhases ! 2" ?L x] by (auto simp: list_all_iff)
  moreover have "deletes sn ?L isTXT x" if "x \<in> set l3" for x
    using l(5) that selCall_dels [of cfg sn ?S "applyPhases ! 3" ?L x] by (auto simp: list_all_iff)
  ultimately show thesis using l by (intro that [of l0 l1 l2 l3]) (blast intro: rank)+
qed

lemma writes_sorted:
  assumes "apply_with lim (logged c) cfg shuffle ctx ch p out p'"
    and "cSnapshot c ctx (fst (world p)) = (Inr sn, w)" and "snapOk sn" and "snd (world p) = []"
  shows "sorted (map writeRank (filter isWrite (snd (world p'))))"
proof -
  obtain l0 l1 l2 l3 where l: "filter isWrite (snd (world p')) = l0 @ l1 @ l2 @ l3"
    "\<forall>x \<in> set l0. writeRank x = 0" "\<forall>x \<in> set l1. writeRank x = 1" "\<forall>x \<in> set l2. writeRank x = 2"
    "\<forall>x \<in> set l3. writeRank x = 2"
    by (rule apply_groups [OF assms(1-3) refl assms(4)]) auto
  from l(2-5) show ?thesis unfolding l(1) by (auto simp: sorted_append intro: sorted_const)
qed

lemma creates_gated:
  assumes "apply_with lim (logged c) cfg shuffle ctx ch p out p'"
    and "cSnapshot c ctx (fst (world p)) = (Inr sn, w)" and "snapOk sn" and "snd (world p) = []"
    and "fsRejected (foldChanges cfg ch (pmets p)) \<noteq> [] \<or>
      (\<exists>x \<in> set (snd (world p')). isWrite x \<and> writeRank x = 0 \<and> \<not> acked x)"
    and "y \<in> set (snd (world p'))" and "isWrite y"
  shows "writeRank y \<noteq> 1"
proof -
  obtain l0 l1 l2 l3 where l: "filter isWrite (snd (world p')) = l0 @ l1 @ l2 @ l3"
    "\<forall>x \<in> set l0. writeRank x = 0" "\<forall>x \<in> set l1. writeRank x = 1" "\<forall>x \<in> set l2. writeRank x = 2"
    "\<forall>x \<in> set l3. writeRank x = 2"
    "fsRejected (foldChanges cfg ch (pmets p)) \<noteq> [] \<or> \<not> list_all acked l0 \<longrightarrow> l1 = []"
    by (rule apply_groups [OF assms(1-3) refl assms(4)]) auto
  have mem: "x \<in> set l0 \<union> set l1 \<union> set l2 \<union> set l3" if "x \<in> set (snd (world p'))" "isWrite x" for x
    using that l(1) by (auto dest: filter_mem)
  from assms(5) have "l1 = []"
  proof
    assume "\<exists>x \<in> set (snd (world p')). isWrite x \<and> writeRank x = 0 \<and> \<not> acked x"
    then obtain x where x: "x \<in> set (snd (world p'))" "isWrite x" "writeRank x = 0" "\<not> acked x" by blast
    with mem [OF x(1,2)] l(3-5) have "x \<in> set l0" by force
    with x(4) l(6) show ?thesis by (auto simp: list_all_iff)
  qed (use l(6) in simp)
  with mem [OF assms(6,7)] l(2,4,5) show ?thesis by force
qed

text \<open>
  A failed delete of a row that is not a TXT row's, then no delete of a TXT row's alone; and no
  delete of a data row comes after one of a TXT row.
\<close>

lemma deletes_gated:
  assumes "apply_with lim (logged c) cfg shuffle ctx ch p out p'"
    and "cSnapshot c ctx (fst (world p)) = (Inr sn, w)" and "snapOk sn" and "snd (world p) = []"
    and x: "x \<in> set (snd (world p'))" "isWrite x" "writeRank x = 2" "\<not> acked x"
    and y: "y \<in> set (snd (world p'))" "isWrite y" "writeRank y = 2"
  shows "deletes sn (snd (world p')) isTXT x \<or> deletes sn (snd (world p')) isData y"
proof -
  let ?L = "snd (world p')"
  obtain l0 l1 l2 l3 where l: "filter isWrite ?L = l0 @ l1 @ l2 @ l3"
    "\<forall>x \<in> set l0. writeRank x = 0" "\<forall>x \<in> set l1. writeRank x = 1"
    "\<forall>x \<in> set l2. deletes sn ?L isData x" "\<forall>x \<in> set l3. deletes sn ?L isTXT x"
    "\<not> list_all acked l2 \<longrightarrow> l3 = []"
    by (rule apply_groups [OF assms(1-3) refl assms(4)]) auto
  have mem: "x \<in> set l0 \<union> set l1 \<union> set l2 \<union> set l3" if "x \<in> set ?L" "isWrite x" for x
    using that l(1) by (auto dest: filter_mem)
  from mem [OF x(1,2)] x(3) l(2,3) have "x \<in> set l2 \<union> set l3" by force
  then show ?thesis
  proof
    assume "x \<in> set l2"
    with x(4) l(6) have "l3 = []" by (auto simp: list_all_iff)
    with mem [OF y(1,2)] y(3) l(2,3) have "y \<in> set l2" by force
    with l(4) show ?thesis by blast
  qed (use l(5) in blast)
qed

lemma deletes_ordered:
  assumes "apply_with lim (logged c) cfg shuffle ctx ch p out p'"
    and "cSnapshot c ctx (fst (world p)) = (Inr sn, w)" and "snapOk sn" and "snd (world p) = []"
    and xy: "filter isWrite (snd (world p')) = a @ x # b @ y # d" "writeRank x = 2"
  shows "deletes sn (snd (world p')) isData x \<or> deletes sn (snd (world p')) isTXT y"
proof -
  let ?L = "snd (world p')"
  obtain l0 l1 l2 l3 where l: "filter isWrite ?L = (l0 @ l1 @ l2) @ l3"
    "\<forall>x \<in> set l0. writeRank x = 0" "\<forall>x \<in> set l1. writeRank x = 1"
    "\<forall>x \<in> set l2. deletes sn ?L isData x" "\<forall>x \<in> set l3. deletes sn ?L isTXT x"
    by (rule apply_groups [OF assms(1-3) refl assms(4)]) auto
  from l(1) xy(1) have "(l0 @ l1 @ l2) @ l3 = a @ (x # b @ y # d)" by simp
  then obtain us where "l0 @ l1 @ l2 = a @ us \<and> us @ l3 = x # b @ y # d \<or> (l0 @ l1 @ l2) @ us = a \<and> l3 = us @ x # b @ y # d"
    using iffD1 [OF append_eq_append_conv2, of "l0 @ l1 @ l2" l3 a "x # b @ y # d"] by blast
  then show ?thesis
  proof
    assume u: "l0 @ l1 @ l2 = a @ us \<and> us @ l3 = x # b @ y # d"
    show ?thesis
    proof (cases us)
      case Nil
      with u have "y \<in> set l3" by simp
      with l(5) show ?thesis by blast
    next
      case (Cons z zs)
      with u have "x \<in> set (l0 @ l1 @ l2)" by (metis append_Cons in_set_conv_decomp list.inject)
      with l(2,3) xy(2) have "x \<in> set l2" by force
      with l(4) show ?thesis by blast
    qed
  next
    assume "(l0 @ l1 @ l2) @ us = a \<and> l3 = us @ x # b @ y # d"
    then have "y \<in> set l3" by simp
    with l(5) show ?thesis by blast
  qed
qed

text \<open>Every write carries a desired target of a plan key, or deletes a row under one.\<close>

definition planned :: "config \<Rightarrow> snapshot \<Rightarrow> foldState \<Rightarrow> call list \<Rightarrow> call \<Rightarrow> bool" where
  "planned cfg sn st log x \<longleftrightarrow>
     (\<exists>(k, s) \<in> set (fsSets st).
        (\<exists>t \<in> set (dsTargets s). (\<exists>r. x = CallAdd (writeFields cfg s t) r) \<or>
           (\<exists>u cs e. rowKnown sn log k (u, cs) \<and> x = CallSet u (writeFields cfg s t) e)) \<or>
        (\<exists>u cs e. rowKnown sn log k (u, cs) \<and> \<not> list_ex enabled cs \<and> x = CallDel u e))"

lemma selCall_planned: "selCall cfg sn (map_of (fsSets st)) ph log x \<Longrightarrow> planned cfg sn st log x"
  unfolding selCall_def planned_def
proof (elim exE conjE)
  fix k s
  assume "map_of (fsSets st) k = Some s" and m: "modeCall cfg (phMode ph) s {i. rowKnown sn log k i} x"
  then have "(k, s) \<in> set (fsSets st)" by (simp add: map_of_SomeD)
  with m show "\<exists>(k, s) \<in> set (fsSets st).
        (\<exists>t \<in> set (dsTargets s). (\<exists>r. x = CallAdd (writeFields cfg s t) r) \<or>
           (\<exists>u cs e. rowKnown sn log k (u, cs) \<and> x = CallSet u (writeFields cfg s t) e)) \<or>
        (\<exists>u cs e. rowKnown sn log k (u, cs) \<and> \<not> list_ex enabled cs \<and> x = CallDel u e)"
    by (cases "phMode ph") (fastforce simp: addCall_def delCall_def)+
qed

lemma writes_planned:
  assumes "apply_with lim (logged c) cfg shuffle ctx ch p out p'"
    and "cSnapshot c ctx (fst (world p)) = (Inr sn, w)" and "snapOk sn" and "snd (world p) = []"
    and x: "x \<in> set (snd (world p'))" "isWrite x"
  shows "planned cfg sn (foldChanges cfg ch (pmets p)) (snd (world p')) x"
proof -
  let ?S = "map_of (fsSets (foldChanges cfg ch (pmets p)))" and ?L = "snd (world p')"
  obtain l0 l1 l2 l3 where l: "filter isWrite ?L = l0 @ l1 @ l2 @ l3"
    "list_all (selCall cfg sn ?S (applyPhases ! 0) ?L) l0" "list_all (selCall cfg sn ?S (applyPhases ! 1) ?L) l1"
    "list_all (selCall cfg sn ?S (applyPhases ! 2) ?L) l2" "list_all (selCall cfg sn ?S (applyPhases ! 3) ?L) l3"
    by (rule apply_writes [OF assms(1-3) refl assms(4)])
  have "x \<in> set l0 \<union> set l1 \<union> set l2 \<union> set l3"
    using x l(1) by (auto dest: filter_mem)
  with l(2-5) have "\<exists>ph. selCall cfg sn ?S ph ?L x" by (auto simp: list_all_iff)
  then show ?thesis using selCall_planned by blast
qed

end
