(* ===== verification/Keeping.thy ===== *)
theory Keeping
  imports Workers
begin

text \<open>
  Invariants of a run that every atomic step of a goroutine keeps: they hold after a phase and after an apply, for any client,
  any number of workers and any schedule.
\<close>

locale run_invariant =
  fixes I :: "'w applyRun \<Rightarrow> bool"
  assumes I_mark: "I run \<Longrightarrow> I (markWrite run)"
    and I_world: "I run \<Longrightarrow> I (putWorld w run)"
    and I_snap: "I run \<Longrightarrow> I (run\<lparr>arSnap := sn\<rparr>)"
    and I_record: "I run \<Longrightarrow> I (recordWrite op k u f run)"
    and I_change: "I run \<Longrightarrow> I (onProv (meter (RecordChange op rr)) run)"
    and I_blocked: "I run \<Longrightarrow> I (onProv (meter (inc DeleteBlocked)) run)"
    and I_fail: "I run \<Longrightarrow> I (failSet s e run)"
    and I_start: "I run \<Longrightarrow> I (startPhase run)"
    and I_skip: "I run \<Longrightarrow> I (markFailed s run)"
    and I_verify: "I run \<Longrightarrow> verifyPhase c ctx run = (n, run') \<Longrightarrow> I run'"
begin

abbreviation always :: "'w applyRun \<Rightarrow> unit multiset \<Rightarrow> bool" where
  "always run G \<equiv> I run"

abbreviation safe :: "bool \<Rightarrow> error outcome \<Rightarrow> unit \<Rightarrow> bool" where
  "safe brk out g \<equiv> out = Panicked \<longrightarrow> brk"

lemma keeps_do: "(\<And>run. I run \<Longrightarrow> I (h run)) \<Longrightarrow> earns always (safe brk) (doT h) g"
  by (rule earns_doT) auto

lemma keeps_then: "earns always (safe brk) t g \<Longrightarrow> earns always (safe brk) b () \<Longrightarrow> earns always (safe brk) (bindT t b) g"
  by (rule earns_bindT) auto

lemma keeps_call: "(\<And>r. earns always (safe brk) (k r) ()) \<Longrightarrow> earns always (safe brk) (callT call k) g"
  unfolding callT_def by (intro earns_AtomI exI [of _ "()"]) (auto split: prod.split intro: I_world)

lemma keeps_each: "(\<And>x. x \<in> set xs \<Longrightarrow> earns always (safe brk) (f x) ()) \<Longrightarrow> earns always (safe brk) (eachT f xs) ()"
  by (rule earns_eachT) auto

lemma setRowT_keeps:
  assumes "fieldsKey f = k \<or> brk" shows "earns always (safe brk) (setRowT c ctx k p f t) ()"
proof -
  have "earns always (safe brk) (actT (retarget k p f)) ()"
    unfolding actT_def using assms by (intro earns_AtomI exI [of _ "()"]) (auto simp: retarget_def intro: I_snap)
  then show ?thesis
    unfolding setRowT_def Let_def
    by (intro keeps_then keeps_do earns_readT keeps_call I_mark)
      (auto split: option.split intro!: keeps_then keeps_do I_record I_change)
qed

lemma createRowT_keeps: "earns always (safe brk) (createRowT c ctx k f t) ()"
  unfolding createRowT_def
  by (intro keeps_then keeps_do keeps_call I_mark)
    (auto split: sum.split intro!: keeps_then keeps_do I_record I_change simp: addRow_def I_snap)

lemma removeOneT_keeps: "earns always (safe brk) (removeOneT c ctx s p) ()"
proof -
  have "earns always (safe brk) (bindT (doT (removeRow k u)) (bindT (doT (recordWrite op k u f))
      (if b then doT (onProv (meter (RecordChange op rr))) else Return Done))) ()" for k u op f b rr
    by (cases b) (auto intro!: keeps_then keeps_do I_record I_change simp: removeRow_def I_snap)
  then show ?thesis
    unfolding removeOneT_def Let_def
    by (intro earns_readT) (auto split: sum.split intro!: keeps_then keeps_do keeps_call I_mark I_blocked)
qed

lemma convergeKeyT_keeps:
  assumes "(\<forall>t. fieldsKey (writeFields cfg s t) = dsKey s) \<or> brk"
  shows "honours brk always (convergeKeyT c cfg ctx mode s) ()"
proof -
  have set: "earns always (safe brk) (setRowT c ctx (dsKey s) p (writeFields cfg s t) u) ()" for p t u
    using assms by (intro setRowT_keeps) auto
  have "earns always (safe brk) (refreshTargetT c cfg ctx s bt t) ()" for bt t
    unfolding refreshTargetT_def using set by (auto split: option.split intro!: earns_readT)
  moreover have "earns always (safe brk) (placeMissingT c cfg ctx s ps miss) ()" for ps miss
    unfolding placeMissingT_def Let_def using set createRowT_keeps
    by (auto intro!: earns_readT keeps_then keeps_each split: prod.split)
  ultimately have add: "earns always (safe brk) (addSetT c cfg ctx s ps) ()" for ps
    unfolding addSetT_def Let_def by (intro earns_readT keeps_then keeps_each)
  have rem: "earns always (safe brk) (removeSurplusT c ctx s ps) ()" for ps
    unfolding removeSurplusT_def by (auto intro!: earns_readT keeps_each removeOneT_keeps)
  have "earns always (safe brk) (convergeT c cfg ctx mode s) ()"
    unfolding convergeT_def Let_def using add rem by (auto intro!: earns_readT split: convergeMode.split)
  then show ?thesis
    unfolding convergeKeyT_def by (rule honours_catchT) (auto intro: I_fail)
qed

lemma pool_keeps:
  assumes "poolRun (convergeKeyT c cfg ctx mode) w (run, ss, []) (run', xs, ts)" and "I run"
    and "\<And>s t. s \<in> set ss \<Longrightarrow> fieldsKey (writeFields cfg s t) = dsKey s \<or> brk"
  shows "I run' \<and> (crashed (run', xs, ts) \<longrightarrow> brk)"
proof -
  have h: "\<forall>s \<in> set ss. honours brk always (convergeKeyT c cfg ctx mode s) ()"
    using assms(3) by (intro ballI convergeKeyT_keeps) blast
  show ?thesis using pool_invariant [OF assms(1), of always, OF assms(2) h] by blast
qed

lemma phase_keeps:
  assumes "phase_with w c cfg ctx keys i ph F run res run'" and "I run"
  shows "I run'"
  using assms(1)
proof cases
  case skipped
  have "I r \<Longrightarrow> I (fold markFailed ss r)" for ss r by (induction ss arbitrary: r) (auto intro: I_skip)
  with skipped assms(2) show ?thesis by simp
next
  case (broken xs ts)
  with pool_keeps [OF broken(3) I_start [OF assms(2)], of True] show ?thesis by simp
next
  case (drained run1 n)
  with pool_keeps [OF drained(3) I_start [OF assms(2)], of True] show ?thesis by (auto intro: I_verify)
qed

lemma phases_keep:
  assumes "phases_with w c cfg ctx keys i phs F run res run'" and "I run"
  shows "I run'"
  using assms by (induction rule: phases_with.induct) (auto dest: phase_keeps)

text \<open>An invariant under which no write moves a row rules panics out.\<close>

lemma phase_safe:
  assumes "phase_with w c cfg ctx keys i ph F run res run'" and "I run"
    and "\<And>k s t. arSets run k = Some s \<Longrightarrow> fieldsKey (writeFields cfg s t) = dsKey s"
  shows "res \<noteq> None"
  using assms(1)
proof cases
  case (broken xs ts)
  have "fieldsKey (writeFields cfg s t) = dsKey s" if "s \<in> set (selected (phSelects ph) keys (arSets run))" for s t
    using that assms(3) by (auto simp: selected_def List.map_filter_def split: if_splits)
  with pool_keeps [OF broken(3) I_start [OF assms(2)], of False] broken(4) show ?thesis by blast
qed simp_all

lemma phases_safe:
  assumes "phases_with w c cfg ctx keys i phs F run res run'" and "I run"
    and "\<And>run k s t. I run \<Longrightarrow> arSets run k = Some s \<Longrightarrow> fieldsKey (writeFields cfg s t) = dsKey s"
  shows "res \<noteq> None"
  using assms(1,2)
proof (induction rule: phases_with.induct)
  case (stop i ph F run run' phs)
  from phase_safe [OF stop(1,2)] assms(3) [OF stop(2)] show ?case by blast
qed (auto dest: phase_keeps)

end

end
