(* ===== verification/No_Panic.thy ===== *)
theory No_Panic
  imports Apply_Spec Keeping
begin

text \<open>
  When an apply can panic.  The only panic of the apply path is \<^verbatim>\<open>retarget\<close>'s, for a write that
  would file its row under another key; it cannot happen when every plan name splits into a host
  and a domain that join back to it.
\<close>

definition joinable :: "config \<Rightarrow> rowKey \<Rightarrow> bool" where
  "joinable cfg k \<longleftrightarrow>
     (case splitName (kname k) (cDomains cfg) of Inl _ \<Rightarrow> True | Inr (h, d) \<Rightarrow> joinName h d = kname k)"

definition coherent :: "config \<Rightarrow> (rowKey \<rightharpoonup> desiredSet) \<Rightarrow> bool" where
  "coherent cfg S \<longleftrightarrow> (\<forall>k s. S k = Some s \<longrightarrow> dsKey s = k \<and> joinName (dsHost s) (dsDomain s) = kname k)"

lemma coherent_fields: "coherent cfg S \<Longrightarrow> S k = Some s \<Longrightarrow> fieldsKey (writeFields cfg s t) = dsKey s"
  by (auto simp: coherent_def fieldsKey_def writeFields_def Let_def)

lemma coherent_setsLe:
  assumes "setsLe S S'" "coherent cfg S" shows "coherent cfg S'"
  unfolding coherent_def
proof (intro allI impI)
  fix k s assume "S' k = Some s"
  moreover from assms(1) have "S' k = S k \<or> S' k = map_option (\<lambda>s. s\<lparr>dsFailed := True\<rparr>) (S k)"
    by (simp add: setsLe_def)
  ultimately obtain s0 where "S k = Some s0" "s = s0 \<or> s = s0\<lparr>dsFailed := True\<rparr>"
    by (cases "S k") auto
  with assms(2) show "dsKey s = k \<and> joinName (dsHost s) (dsDomain s) = kname k"
    unfolding coherent_def by fastforce
qed

lemma coherent_foldChanges:
  assumes "\<forall>k \<in> fst ` set (fsSets (foldChanges cfg ch m)). joinable cfg k"
  shows "coherent cfg (map_of (fsSets (foldChanges cfg ch m)))"
  unfolding coherent_def
proof (intro allI impI)
  let ?st = "foldChanges cfg ch m"
  fix k s assume "map_of (fsSets ?st) k = Some s"
  then have ks: "(k, s) \<in> set (fsSets ?st)" by (rule map_of_SomeD)
  with foldChanges_ok [of cfg ch m] have "setOk cfg k s" by (auto simp: foldOk_def)
  moreover from ks assms have "joinable cfg k" by force
  ultimately show "dsKey s = k \<and> joinName (dsHost s) (dsDomain s) = kname k"
    by (auto simp: setOk_def joinable_def)
qed

lemma checkWrites_sets: "checkWrites b ws run = (n, run') \<Longrightarrow> setsLe (arSets run) (arSets run')"
  using checkWrites_step by blast

lemma verifyPhase_sets: "verifyPhase c ctx run = (n, run') \<Longrightarrow> setsLe (arSets run) (arSets run')"
  by (auto simp: verifyPhase_def takeWrites_def dest: checkWrites_sets split: if_splits sum.splits prod.splits)

lemma coherent_markSet: "coherent cfg S \<Longrightarrow> coherent cfg (markSet k S)"
  by (rule coherent_setsLe [OF setsLe_markSet])

interpretation coherent: run_invariant "\<lambda>run. coherent cfg (arSets run)" for cfg
proof
  fix run run' :: "'w applyRun" and c ctx n
  assume "coherent cfg (arSets run)" "verifyPhase c ctx run = (n, run')"
  then show "coherent cfg (arSets run')" by (auto intro: coherent_setsLe dest: verifyPhase_sets)
qed (auto simp: failSet_def startPhase_def markFailed_def intro: coherent_markSet)

lemma apply_calm:
  assumes "apply_with lim c cfg shuffle ctx ch p out p'"
    and "\<forall>k \<in> fst ` set (fsSets (foldChanges cfg ch (pmets p))). joinable cfg k"
  shows "out \<noteq> Panicked"
proof -
  let ?st = "foldChanges cfg ch (pmets p)"
  obtain a w where a: "cSnapshot c ctx (world p) = (a, w)" by fastforce
  show ?thesis
  proof (cases a)
    case (Inl e)
    with a assms(1) show ?thesis by (simp add: apply_with_def)
  next
    case (Inr sn)
    let ?run = "beginRun sn ?st (p\<lparr>world := w\<rparr>)"
    from a Inr assms(1) obtain res r where p: "phases_with lim c cfg ctx (planKeys shuffle ?st) 0 applyPhases
        [length (fsRejected ?st), 0, 0, 0] ?run res r" and e: "applied c cfg res r = (out, p')"
      by (auto simp: apply_with_def Let_def)
    have "coherent cfg (arSets ?run)" using coherent_foldChanges [OF assms(2)] by (simp add: beginRun_def)
    with p have "res \<noteq> None" by (rule coherent.phases_safe) (rule coherent_fields)
    with e show ?thesis by (auto simp: applied_def split: option.splits prod.splits)
  qed
qed

text \<open>A name whose labels are all non-empty splits into parts that join back.\<close>

lemma joinable_iff:
  assumes "splitName (kname k) (cDomains cfg) = Inr (h, d)" and "cleanName d" and "cleanName (kname k)"
  shows "joinable cfg k \<longleftrightarrow> h \<noteq> [] \<and> cleanName h"
  using assms splitName_joinName_iff [OF assms(1,2)] by (simp add: joinable_def cleanName_def)

end
