(* ===== verification/Fixpoint.thy ===== *)
theory Fixpoint
  imports No_Panic
begin

text \<open>
  A plan the table already satisfies changes nothing: no key issues a call, so an apply over it is
  one read (and a reload when one is pending).
\<close>

text \<open>Exactly the wanted targets are there, every row as the plan would write it.\<close>

definition satisfied :: "config \<Rightarrow> desiredSet \<Rightarrow> hostRow list \<Rightarrow> bool" where
  "satisfied cfg s rs \<longleftrightarrow>
     bareTarget ` set rs = set (dsTargets s) \<and> (\<forall>r \<in> set rs. inLine cfg s (bareTarget r) r)"

text \<open>A goroutine that only reads.\<close>

abbreviation idleT :: "'w applyRun \<Rightarrow> (error, 'w applyRun) task \<Rightarrow> bool" where
  "idleT run t \<equiv> earns (\<lambda>r (G :: unit multiset). r = run) (\<lambda>out g. out = Done) t ()"

lemma idleT_read: "idleT run (k run) \<Longrightarrow> idleT run (readT k)"
  by (rule earns_readT) simp

lemma idleT_bind: "idleT run t \<Longrightarrow> idleT run b \<Longrightarrow> idleT run (bindT t b)"
  by (erule earns_bindT) auto

lemma idleT_each: "(\<And>x. x \<in> set xs \<Longrightarrow> idleT run (f x)) \<Longrightarrow> idleT run (eachT f xs)"
  by (rule earns_eachT) auto

lemma inLine_failed [simp]: "inLine cfg (s\<lparr>dsFailed := b\<rparr>) = inLine cfg s"
  by (simp add: inLine_def fun_eq_iff)

lemma satisfied_failed [simp]: "satisfied cfg (s\<lparr>dsFailed := b\<rparr>) = satisfied cfg s"
  by (simp add: satisfied_def fun_eq_iff)

lemma convergeT_idle:
  assumes "satisfied cfg s (snapView (arSnap run) (dsKey s))"
  shows "idleT run (convergeT c cfg ctx mode s)"
proof -
  let ?ps = "rowsFor (dsKey s) (arSnap run)"
  have T: "bareTarget ` rowAt run ` set ?ps = set (dsTargets s)"
    and L: "inLine cfg s (bareTarget (rowAt run p)) (rowAt run p)" if "p \<in> set ?ps" for p
    using assms that by (auto simp: satisfied_def snapView_def rowAt_def [abs_def])
  have "idleT run (case mode of modeRemove \<Rightarrow> removeSurplusT c ctx s ?ps | modeAddSet \<Rightarrow> addSetT c cfg ctx s ?ps)"
  proof (cases mode)
    case modeAddSet
    let ?bt = "byTarget (arSnap run) ?ps"
    have some: "\<exists>p \<in> set ?ps. ?bt t = Some p \<and> bareTarget (rowAt run p) = t" if "t \<in> set (dsTargets s)" for t
    proof (cases "?bt t")
      case None
      with that assms show ?thesis
        by (auto simp: byTarget_None satisfied_def snapView_def image_image)
    next
      case (Some p)
      with byTarget_in [OF Some] show ?thesis by (auto simp: rowAt_def)
    qed
    have "idleT run (refreshTargetT c cfg ctx s ?bt t)" if "t \<in> set (sortedTargets (dsTargets s))" for t
      using some [of t] that L by (auto simp: refreshTargetT_def intro!: idleT_read)
    then have "idleT run (eachT (refreshTargetT c cfg ctx s ?bt) (sortedTargets (dsTargets s)))"
      by (rule idleT_each)
    moreover have "missing ?bt (sortedTargets (dsTargets s)) = []"
      using some by (fastforce simp: missing_def filter_empty_conv)
    then have "idleT run (placeMissingT c cfg ctx s ?ps (missing ?bt (sortedTargets (dsTargets s))))"
      by (auto simp: placeMissingT_def intro!: idleT_read idleT_bind)
    ultimately show ?thesis
      using modeAddSet by (simp add: addSetT_def Let_def idleT_read idleT_bind)
  next
    case modeRemove
    have "bareTarget (rowAt run p) \<in> set (dsTargets s)" if "p \<in> set ?ps" for p
      using T [OF that] that by blast
    then have "idleT run (removeOneT c ctx s p)" if "p \<in> set ?ps" for p
      using that by (auto simp: removeOneT_def Let_def intro!: idleT_read)
    then have "idleT run (removeSurplusT c ctx s ?ps)"
      by (auto simp: removeSurplusT_def intro!: idleT_read idleT_each)
    with modeRemove show ?thesis by simp
  qed
  then show ?thesis by (auto simp: convergeT_def Let_def intro!: idleT_read)
qed

lemma convergeKeyT_idle:
  assumes "satisfied cfg s (snapView (arSnap run) (dsKey s))"
  shows "honours False (\<lambda>r (G :: unit multiset). r = run) (convergeKeyT c cfg ctx mode s) ()"
  unfolding convergeKeyT_def by (rule honours_catchT [OF convergeT_idle [OF assms]]) auto

definition settled :: "config \<Rightarrow> 'w applyRun \<Rightarrow> bool" where
  "settled cfg run \<longleftrightarrow> writes run = [] \<and>
     (\<forall>k s. arSets run k = Some s \<longrightarrow> dsKey s = k \<and> satisfied cfg s (snapView (arSnap run) k))"

definition undisturbed :: "'w applyRun \<Rightarrow> 'w applyRun \<Rightarrow> bool" where
  "undisturbed run run' \<longleftrightarrow> arP run' = arP run \<and> arErrs run' = arErrs run \<and> wrote run' = wrote run"

lemma settled_mark:
  assumes "settled cfg run" and "arSnap run' = arSnap run" "writes run' = []" "setsLe (arSets run) (arSets run')"
  shows "settled cfg run'"
proof -
  have "dsKey s = k \<and> satisfied cfg s (snapView (arSnap run) k)" if "arSets run' k = Some s" for k s
  proof -
    from assms(4) have "arSets run' k = arSets run k \<or>
        arSets run' k = map_option (\<lambda>s. s\<lparr>dsFailed := True\<rparr>) (arSets run k)"
      by (simp add: setsLe_def)
    with that obtain s0 where "arSets run k = Some s0" "s = s0 \<or> s = s0\<lparr>dsFailed := True\<rparr>"
      by (cases "arSets run k") auto
    with assms(1) show ?thesis by (auto simp: settled_def)
  qed
  with assms(2,3) show ?thesis by (simp add: settled_def)
qed

lemma phase_idle:
  assumes st: "phase_with lim c cfg ctx keys i ph F run res run'" and se: "settled cfg run"
  shows "res \<noteq> None \<and> settled cfg run' \<and> undisturbed run run'"
proof -
  let ?sel = "selected (phSelects ph) keys (arSets run)" and ?run = "startPhase run"
  have h: "\<forall>s \<in> set ?sel. honours False (\<lambda>r (G :: unit multiset). r = ?run) (convergeKeyT c cfg (CtxGroup ctx) (phMode ph) s) ()"
  proof (intro ballI convergeKeyT_idle)
    fix s assume "s \<in> set ?sel"
    then obtain k where "arSets run k = Some s"
      by (auto simp: selected_def List.map_filter_def split: if_splits)
    with se show "satisfied cfg s (snapView (arSnap ?run) (dsKey s))" by (auto simp: settled_def startPhase_def)
  qed
  have still: "run1 = ?run \<and> \<not> crashed (run1, xs, ts)"
    if "poolRun (convergeKeyT c cfg (CtxGroup ctx) (phMode ph)) lim (?run, ?sel, []) (run1, xs, ts)" for run1 xs ts
    using pool_invariant [OF that, of "\<lambda>r (G :: unit multiset). r = ?run", OF refl h] by blast
  from st show ?thesis
  proof cases
    case skipped
    note m = fold_markFailed [of ?sel run]
    with se have "settled cfg (fold markFailed ?sel run)" by (intro settled_mark [OF se]) (simp_all add: settled_def)
    with m skipped show ?thesis by (simp add: undisturbed_def)
  next
    case (drained run1 n)
    with still [OF drained(3)] se show ?thesis
      by (auto simp: verifyPhase_def takeWrites_def startPhase_def settled_def undisturbed_def)
  qed (use still in blast)
qed

lemma phases_idle:
  "phases_with lim c cfg ctx keys i phs F run res run' \<Longrightarrow> settled cfg run \<Longrightarrow> res \<noteq> None \<and> undisturbed run run'"
proof (induction rule: phases_with.induct)
  case (go_on i ph F run F' run' phs res run'')
  with phase_idle [OF go_on(1,4)] show ?case by (auto simp: undisturbed_def)
next
  case (stop i ph F run run' phs)
  with phase_idle [OF stop(1,2)] show ?case by simp
qed (simp add: undisturbed_def)

lemma apply_idle:
  assumes ap: "apply_with lim c cfg shuffle ctx ch p out p'"
    and "cSnapshot c ctx (world p) = (Inr sn, w)" and "\<not> pending p"
    and "\<forall>(k, s) \<in> set (fsSets (foldChanges cfg ch (pmets p))). satisfied cfg s (snapView sn k)"
    and "fsErrs (foldChanges cfg ch (pmets p)) = []"
  shows "out = Done \<and> p' = p\<lparr>world := w, pmets := fsMets (foldChanges cfg ch (pmets p))\<rparr>"
proof -
  let ?st = "foldChanges cfg ch (pmets p)"
  let ?run = "beginRun sn ?st (p\<lparr>world := w\<rparr>)"
  from ap assms(2) obtain res r where p: "phases_with lim c cfg ctx (planKeys shuffle ?st) 0 applyPhases
      [length (fsRejected ?st), 0, 0, 0] ?run res r" and e: "applied c cfg res r = (out, p')"
    by (auto simp: apply_with_def Let_def)
  have "settled cfg ?run"
    using assms(4) keyed_foldChanges [of cfg ch "pmets p"]
    by (auto simp: settled_def beginRun_def keyed_def dest!: map_of_SomeD)
  with p have "res \<noteq> None" "undisturbed ?run r" by (auto dest: phases_idle)
  with assms(3,5) e show ?thesis
    by (auto simp: applied_def undisturbed_def beginRun_def finishApply_def joinErrors_def)
qed

lemma apply_plan_idle:
  assumes "cSnapshot c ctx (world p) = (Inr sn, w)" and "\<not> pending p"
    and "\<forall>(k, s) \<in> set (fsSets (foldChanges cfg ch (pmets p))). satisfied cfg s (snapView sn k)"
    and "fsErrs (foldChanges cfg ch (pmets p)) = []"
  shows "apply_plan c cfg shuffle ctx ch p = (Done, p\<lparr>world := w, pmets := fsMets (foldChanges cfg ch (pmets p))\<rparr>)"
proof -
  obtain out p' where ap: "apply_plan c cfg shuffle ctx ch p = (out, p')" by fastforce
  with apply_idle [OF _ assms, of 1 shuffle out p'] show ?thesis unfolding apply_with_one by blast
qed

end
