(* ===== verification/Schedules.thy ===== *)
theory Schedules
  imports Workers
begin

text \<open>
  The scheduler as an argument.  What a group of goroutines comes to depends on the order in which their steps
  happen; here that order is an oracle, a sequence of numbers each of which picks one of the moves that are
  possible, and the pool, the phases and the apply of \<open>Workers\<close> become functions of it.  Every oracle gives a run, and
  every run has its oracle.
\<close>

section \<open>The pool under an oracle\<close>

definition poolMoves :: "('x \<Rightarrow> ('e, 's) task) \<Rightarrow> nat \<Rightarrow> ('x, 'e, 's) pool \<Rightarrow> ('x, 'e, 's) pool list" where
  "poolMoves body limit st =
     (case st of (s, xs, ts) \<Rightarrow>
        (case xs of [] \<Rightarrow> [] | x # xs' \<Rightarrow> if length ts < limit then [(s, xs', ts @ [body x])] else []) @
        concat (map (\<lambda>i. case ts ! i of
                           Atom f \<Rightarrow> [(fst (f s), xs, ts[i := snd (f s)])]
                         | Return out \<Rightarrow> if out = Done then [(s, xs, take i ts @ drop (Suc i) ts)] else [])
                [0 ..< length ts]))"

lemma poolMoves_iff: "st' \<in> set (poolMoves body limit st) \<longleftrightarrow> poolStep body limit st st'"
proof -
  obtain s xs ts where st: "st = (s, xs, ts)" by (cases st)
  show ?thesis
  proof
    let ?go = "\<lambda>i. case ts ! i of Atom f \<Rightarrow> [(fst (f s), xs, ts[i := snd (f s)])]
      | Return out \<Rightarrow> if out = Done then [(s, xs, take i ts @ drop (Suc i) ts)] else []"
    assume "st' \<in> set (poolMoves body limit st)"
    then consider "st' \<in> set (case xs of [] \<Rightarrow> [] | x # xs' \<Rightarrow> if length ts < limit then [(s, xs', ts @ [body x])] else [])"
      | i where "i < length ts" "st' \<in> set (?go i)"
      unfolding poolMoves_def st prod.case set_append set_concat set_map set_upt by fastforce
    then show "poolStep body limit st st'"
    proof cases
      case 1
      then show ?thesis by (cases xs) (simp_all add: st poolStep.start split: if_splits)
    next
      case (2 i)
      then show ?thesis by (cases "ts ! i") (simp_all add: st poolStep.move poolStep.leave split: if_splits)
    qed
  next
    assume "poolStep body limit st st'"
    then show "st' \<in> set (poolMoves body limit st)"
      by cases (force simp: poolMoves_def)+
  qed
qed

text \<open>Once a goroutine has panicked, the oracle decides how long the others go on: 0 is the end.\<close>

function poolDrive :: "(nat \<Rightarrow> nat) \<Rightarrow> ('x \<Rightarrow> ('e, 's) task) \<Rightarrow> nat \<Rightarrow> ('x, 'e, 's) pool \<Rightarrow> ('x, 'e, 's) pool" where
  "poolDrive sched body limit st =
     (let ms = poolMoves body limit st
      in if ms = [] \<or> crashed st \<and> sched 0 = 0 then st
         else poolDrive (\<lambda>j. sched (Suc j)) body limit (ms ! (sched 0 mod length ms)))"
  by pat_completeness auto
termination
proof (relation "inv_image poolOrder (\<lambda>(sched, body, limit, st). snd st)")
  show "wf (inv_image poolOrder (\<lambda>(sched, body, limit, st). snd st))" by (intro wf_inv_image wf_poolOrder)
  fix sched :: "nat \<Rightarrow> nat" and body :: "'x \<Rightarrow> ('e, 's) task" and limit st ms
  assume ms: "ms = poolMoves body limit st" "\<not> (ms = [] \<or> crashed st \<and> sched 0 = 0)"
  then have "ms ! (sched 0 mod length ms) \<in> set (poolMoves body limit st)" by simp
  then have "poolStep body limit st (ms ! (sched 0 mod length ms))" by (simp only: poolMoves_iff)
  then show "((\<lambda>j. sched (Suc j), body, limit, ms ! (sched 0 mod length ms)), sched, body, limit, st)
    \<in> inv_image poolOrder (\<lambda>(sched, body, limit, st). snd st)"
    by (cases st; cases "ms ! (sched 0 mod length ms)") (auto dest: poolStep_order)
qed

declare poolDrive.simps [simp del]

lemma poolDrive_run:
  "0 < limit \<Longrightarrow> poolRun body limit st (poolDrive sched body limit st) \<and>
     (resting (poolDrive sched body limit st) \<or> crashed (poolDrive sched body limit st))"
proof (induction sched body limit st rule: poolDrive.induct)
  case (1 sched body limit st)
  let ?ms = "poolMoves body limit st" and ?st = "poolMoves body limit st ! (sched 0 mod length (poolMoves body limit st))"
  show ?case
  proof (cases "?ms = [] \<or> crashed st \<and> sched 0 = 0")
    case True
    then have d: "poolDrive sched body limit st = st" by (subst poolDrive.simps) (simp add: Let_def)
    have "resting st \<or> crashed st" if "?ms = []"
      using that pool_progress [OF "1.prems", of st body] by (auto simp flip: poolMoves_iff)
    with True show ?thesis unfolding d by auto
  next
    case False
    then have d: "poolDrive sched body limit st = poolDrive (\<lambda>j. sched (Suc j)) body limit ?st"
      by (subst poolDrive.simps) (simp only: Let_def if_False)
    have "?st \<in> set ?ms" using False by simp
    then have "poolStep body limit st ?st" by (simp only: poolMoves_iff)
    with "1.IH" [OF refl False "1.prems"] show ?thesis
      unfolding d by (meson converse_rtranclp_into_rtranclp)
  qed
qed

lemma poolDrive_complete:
  assumes "poolRun body limit st st'" and "resting st' \<or> crashed st'"
  shows "\<exists>sched. poolDrive sched body limit st = st'"
  using assms(1)
proof (induction rule: converse_rtranclp_induct)
  case base
  have "poolMoves body limit st' = []" if "resting st'"
    using that by (cases st') (simp add: resting_def poolMoves_def)
  then have "poolDrive (\<lambda>_. 0) body limit st' = st'"
    using assms(2) by (subst poolDrive.simps) (auto simp: Let_def)
  then show ?case by blast
next
  case (step st st1)
  from step.hyps(1) obtain i where i: "i < length (poolMoves body limit st)" "poolMoves body limit st ! i = st1"
    by (auto simp flip: poolMoves_iff simp: in_set_conv_nth)
  from step.IH obtain sched where s: "poolDrive sched body limit st1 = st'" by blast
  let ?s = "\<lambda>k. case k of 0 \<Rightarrow> i + length (poolMoves body limit st) | Suc j \<Rightarrow> sched j"
  have "poolDrive ?s body limit st = poolDrive (\<lambda>j. ?s (Suc j)) body limit st1"
    using i by (subst poolDrive.simps) (auto simp: Let_def)
  with s show ?case by (intro exI [of _ ?s]) simp
qed

section \<open>The apply under an oracle\<close>

text \<open>One oracle per phase.\<close>

definition scheduledPhase ::
  "(nat \<Rightarrow> nat) \<Rightarrow> nat \<Rightarrow> 'w client \<Rightarrow> config \<Rightarrow> ctx \<Rightarrow> rowKey list \<Rightarrow> nat \<Rightarrow> phase \<Rightarrow> nat list \<Rightarrow> 'w applyRun \<Rightarrow>
     nat list option \<times> 'w applyRun" where
  "scheduledPhase sched w c cfg ctx keys i ph failures run =
     (let sel = selected (phSelects ph) keys (arSets run)
      in if gatedOut ph failures then (Some failures, fold markFailed sel run)
         else (case poolDrive sched (convergeKeyT c cfg (CtxGroup ctx) (phMode ph)) w (startPhase run, sel, []) of
                 (run1, xs, ts) \<Rightarrow>
                   if crashed (run1, xs, ts) then (None, run1)
                   else (case verifyPhase c ctx run1 of
                           (n, run2) \<Rightarrow> (Some (failures[i := failures ! i + phaseFailed run1 + n]), run2))))"

fun scheduledPhases ::
  "(nat \<Rightarrow> nat \<Rightarrow> nat) \<Rightarrow> nat \<Rightarrow> 'w client \<Rightarrow> config \<Rightarrow> ctx \<Rightarrow> rowKey list \<Rightarrow> nat \<Rightarrow> phase list \<Rightarrow> nat list \<Rightarrow> 'w applyRun \<Rightarrow>
     nat list option \<times> 'w applyRun" where
  "scheduledPhases sched w c cfg ctx keys i [] failures run = (Some failures, run)"
| "scheduledPhases sched w c cfg ctx keys i (ph # phs) failures run =
     (case scheduledPhase (sched i) w c cfg ctx keys i ph failures run of
        (None, run') \<Rightarrow> (None, run')
      | (Some failures', run') \<Rightarrow> scheduledPhases sched w c cfg ctx keys (Suc i) phs failures' run')"

definition scheduledApply ::
  "(nat \<Rightarrow> nat \<Rightarrow> nat) \<Rightarrow> nat \<Rightarrow> 'w client \<Rightarrow> config \<Rightarrow> (rowKey list \<Rightarrow> rowKey list) \<Rightarrow> ctx \<Rightarrow> 'm changes \<Rightarrow> 'w prov \<Rightarrow>
     error outcome \<times> 'w prov" where
  "scheduledApply sched w c cfg shuffle ctx ch p =
     (case cSnapshot c ctx (world p) of
        (Inl e, v) \<Rightarrow> (Fail e, p\<lparr>world := v\<rparr>)
      | (Inr sn, v) \<Rightarrow>
          (let st = foldChanges cfg ch (pmets p); run = beginRun sn st (p\<lparr>world := v\<rparr>)
           in case scheduledPhases sched w c cfg ctx (planKeys shuffle st) 0 applyPhases [length (fsRejected st), 0, 0, 0] run of
                (res, run') \<Rightarrow> applied c cfg res run'))"

lemmas schedule_defs [go_defs] = poolMoves_def scheduledPhase_def scheduledApply_def

lemma scheduledPhase_run:
  assumes "0 < w" and "scheduledPhase sched w c cfg ctx keys i ph failures run = (res, run')"
  shows "phase_with w c cfg ctx keys i ph failures run res run'"
proof (cases "gatedOut ph failures")
  case True
  with assms(2) show ?thesis by (auto simp: scheduledPhase_def Let_def intro: phase_with.skipped)
next
  case False
  let ?b = "convergeKeyT c cfg (CtxGroup ctx) (phMode ph)"
  let ?st = "(startPhase run, selected (phSelects ph) keys (arSets run), [])"
  obtain run1 xs ts where d: "poolDrive sched ?b w ?st = (run1, xs, ts)" by (metis prod_cases3)
  with poolDrive_run [OF assms(1), of ?b ?st sched]
  have r: "poolRun ?b w ?st (run1, xs, ts)" "resting (run1, xs, ts) \<or> crashed (run1, xs, ts)" by auto
  show ?thesis
  proof (cases "crashed (run1, xs, ts)")
    case True
    with False d r(1) assms(2) show ?thesis
      by (auto simp: scheduledPhase_def Let_def intro: phase_with.broken)
  next
    case nc: False
    with r have "xs = []" "ts = []" by (auto simp: resting_def)
    moreover obtain n run2 where "verifyPhase c ctx run1 = (n, run2)" by fastforce
    ultimately show ?thesis
      using False nc d r(1) assms(2) by (auto simp: scheduledPhase_def Let_def intro: phase_with.drained)
  qed
qed

lemma scheduledPhase_complete:
  assumes "phase_with w c cfg ctx keys i ph failures run res run'"
  shows "\<exists>sched. scheduledPhase sched w c cfg ctx keys i ph failures run = (res, run')"
  using assms
proof cases
  case skipped
  then show ?thesis by (simp add: scheduledPhase_def Let_def)
next
  case (broken xs ts)
  from poolDrive_complete [OF broken(3)] broken(4) obtain sched where
    "poolDrive sched (convergeKeyT c cfg (CtxGroup ctx) (phMode ph)) w
       (startPhase run, selected (phSelects ph) keys (arSets run), []) = (run', xs, ts)" by blast
  with broken show ?thesis by (intro exI [of _ sched]) (simp add: scheduledPhase_def Let_def)
next
  case (drained run1 n)
  from poolDrive_complete [OF drained(3)] obtain sched where
    "poolDrive sched (convergeKeyT c cfg (CtxGroup ctx) (phMode ph)) w
       (startPhase run, selected (phSelects ph) keys (arSets run), []) = (run1, [], [])" by (auto simp: resting_def)
  with drained show ?thesis by (intro exI [of _ sched]) (simp add: scheduledPhase_def Let_def crashed_def)
qed

lemma scheduledPhases_run:
  "0 < w \<Longrightarrow> scheduledPhases sched w c cfg ctx keys i phs failures run = (res, run') \<Longrightarrow>
   phases_with w c cfg ctx keys i phs failures run res run'"
proof (induction phs arbitrary: i failures run)
  case (Cons ph phs)
  obtain x r1 where x: "scheduledPhase (sched i) w c cfg ctx keys i ph failures run = (x, r1)" by fastforce
  note ph = scheduledPhase_run [OF Cons.prems(1) x]
  show ?case
  proof (cases x)
    case None
    with x ph Cons.prems(2) show ?thesis by (auto intro: phases_with.stop)
  next
    case (Some failures')
    with x Cons.prems have "phases_with w c cfg ctx keys (Suc i) phs failures' r1 res run'"
      by (intro Cons.IH) simp_all
    with ph Some show ?thesis by (auto intro: phases_with.go_on)
  qed
qed (auto intro: phases_with.all_run)

lemma scheduledPhases_cong:
  "(\<And>j. i \<le> j \<Longrightarrow> sched j = sched' j) \<Longrightarrow>
   scheduledPhases sched w c cfg ctx keys i phs failures run = scheduledPhases sched' w c cfg ctx keys i phs failures run"
proof (induction phs arbitrary: i failures run)
  case (Cons ph phs)
  have "scheduledPhases sched w c cfg ctx keys (Suc i) phs f r = scheduledPhases sched' w c cfg ctx keys (Suc i) phs f r" for f r
    by (intro Cons.IH) (simp add: Cons.prems)
  then show ?case by (simp add: Cons.prems split: prod.split option.split)
qed simp

lemma scheduledPhases_complete:
  "phases_with w c cfg ctx keys i phs failures run res run' \<Longrightarrow>
   \<exists>sched. scheduledPhases sched w c cfg ctx keys i phs failures run = (res, run')"
proof (induction rule: phases_with.induct)
  case (stop i ph failures run run' phs)
  then obtain s where "scheduledPhase s w c cfg ctx keys i ph failures run = (None, run')"
    using scheduledPhase_complete by blast
  then show ?case by (intro exI [of _ "\<lambda>_. s"]) simp
next
  case (go_on i ph failures run failures' run' phs res run'')
  then obtain s where s: "scheduledPhase s w c cfg ctx keys i ph failures run = (Some failures', run')"
    using scheduledPhase_complete by blast
  from go_on.IH obtain sched where r: "scheduledPhases sched w c cfg ctx keys (Suc i) phs failures' run' = (res, run'')" by blast
  have "scheduledPhases (sched(i := s)) w c cfg ctx keys (Suc i) phs failures' run' = (res, run'')"
    unfolding r [symmetric] by (intro scheduledPhases_cong) simp
  with s show ?case by (intro exI [of _ "sched(i := s)"]) (simp add: fun_upd_def)
qed simp

lemma ex_of_pair: "(\<exists>a b. (\<exists>x. f x = (a, b)) \<and> g a b = y) \<longleftrightarrow> (\<exists>x. (case f x of (a, b) \<Rightarrow> g a b) = y)"
proof
  assume "\<exists>x. (case f x of (a, b) \<Rightarrow> g a b) = y"
  then obtain x where "(case f x of (a, b) \<Rightarrow> g a b) = y" ..
  then show "\<exists>a b. (\<exists>x. f x = (a, b)) \<and> g a b = y" by (cases "f x") auto
qed (metis case_prod_conv)

lemma scheduledApply_iff:
  assumes "0 < w"
  shows "apply_with w c cfg shuffle ctx ch p out p' \<longleftrightarrow> (\<exists>sched. scheduledApply sched w c cfg shuffle ctx ch p = (out, p'))"
proof -
  obtain a v where a: "cSnapshot c ctx (world p) = (a, v)" by fastforce
  show ?thesis
  proof (cases a)
    case (Inl e)
    with a show ?thesis by (auto simp: apply_with_def scheduledApply_def)
  next
    case (Inr sn)
    let ?st = "foldChanges cfg ch (pmets p)"
    let ?ph = "\<lambda>sched. scheduledPhases sched w c cfg ctx (planKeys shuffle ?st) 0 applyPhases [length (fsRejected ?st), 0, 0, 0]
      (beginRun sn ?st (p\<lparr>world := v\<rparr>))"
    have iff: "phases_with w c cfg ctx (planKeys shuffle ?st) 0 applyPhases [length (fsRejected ?st), 0, 0, 0]
        (beginRun sn ?st (p\<lparr>world := v\<rparr>)) res run' \<longleftrightarrow> (\<exists>sched. ?ph sched = (res, run'))" for res run'
      by (rule iffI, erule scheduledPhases_complete, erule exE, erule scheduledPhases_run [OF assms])
    have "apply_with w c cfg shuffle ctx ch p out p' \<longleftrightarrow>
        (\<exists>res run'. (\<exists>sched. ?ph sched = (res, run')) \<and> applied c cfg res run' = (out, p'))"
      unfolding apply_with_def a Inr prod.case sum.case Let_def iff by (rule refl)
    also have "\<dots> \<longleftrightarrow> (\<exists>sched. (case ?ph sched of (res, run') \<Rightarrow> applied c cfg res run') = (out, p'))"
      by (rule ex_of_pair)
    finally show ?thesis using a Inr by (simp add: scheduledApply_def Let_def)
  qed
qed

end
