(* ===== verification/Provider.thy ===== *)
theory Provider
  imports Endpoints Fixpoint Schedules
begin

text \<open>
  The operations external-dns reaches through the webhook, of \<^verbatim>\<open>internal/opnsense/provider.go\<close>:
  reading the records, applying a plan, adjusting endpoints, the background startup check and the
  readiness probe.  \<open>now\<close> is the time the error counter is stamped with.
\<close>

section \<open>Reading\<close>

definition countType :: "'m endpoint_scheme list \<Rightarrow> string \<Rightarrow> int" where
  "countType eps rr = int (length (filter (\<lambda>e. RecordType e = rr) eps))"

definition recordOp :: "int \<Rightarrow> bool \<Rightarrow> 'w prov \<Rightarrow> 'w prov" where
  "recordOp now failed = meter (RecordOperation failed now)"

definition readRecords ::
  "'w client \<Rightarrow> (string \<Rightarrow> string \<Rightarrow> int \<Rightarrow> string list \<Rightarrow> 'm endpoint_scheme) \<Rightarrow> ctx \<Rightarrow> 'w prov \<Rightarrow>
     'm endpoint_scheme list result \<times> 'w prov" where
  "readRecords c newEndpoint ctx p =
     (case cSnapshot c ctx (world p) of
        (Inl e, w) \<Rightarrow> (Inl e, p\<lparr>world := w\<rparr>)
      | (Inr sn, w) \<Rightarrow>
          (let eps = Endpoints newEndpoint sn
           in (Inr eps,
               meter (fold (\<lambda>rr. UpdateRecordsByType rr (countType eps rr)) publishedTypes)
                 (meter (setGauge RowsGauge (snTotal sn)) (p\<lparr>world := w\<rparr>)))))"

definition Records ::
  "'w client \<Rightarrow> config \<Rightarrow> (string \<Rightarrow> string \<Rightarrow> int \<Rightarrow> string list \<Rightarrow> 'm endpoint_scheme) \<Rightarrow> int \<Rightarrow> ctx \<Rightarrow>
     'w prov \<Rightarrow> 'm endpoint_scheme list result \<times> 'w prov" where
  "Records c cfg newEndpoint now ctx p =
     (case (if pending p then reconfigure c cfg True p else (None, p)) of
        (Some e, p) \<Rightarrow> (Inl (Wrap ''applying pending reconfigure before read'' e), recordOp now True p)
      | (None, p) \<Rightarrow>
          (case readRecords c newEndpoint ctx p of
             (Inl e, p) \<Rightarrow> (Inl e, recordOp now True p)
           | (Inr eps, p) \<Rightarrow> (Inr eps, recordOp now False p)))"

section \<open>Applying\<close>

text \<open>
  The apply runs under its own context, detached from the request.  A panic leaves the
  return value unset, so the deferred metric sees a nil error.
\<close>

definition applyCtx :: "config \<Rightarrow> ctx \<Rightarrow> ctx" where
  "applyCtx cfg ctx = CtxWithTimeout (CtxWithoutCancel ctx) (cApplyTimeout cfg)"

text \<open>
  A configuration that passes validation has at least one worker, so \<open>applyWorkers\<close> is the limit of the error
  group; with none, the group would never start a goroutine.  \<open>sched\<close> is the order of the goroutines' steps.
\<close>

definition applyWorkers :: "config \<Rightarrow> nat" where
  "applyWorkers cfg = max 1 (nat (cApplyWorkers cfg))"

definition ApplyChanges ::
  "'w client \<Rightarrow> config \<Rightarrow> (nat \<Rightarrow> nat \<Rightarrow> nat) \<Rightarrow> (rowKey list \<Rightarrow> rowKey list) \<Rightarrow> int \<Rightarrow> ctx \<Rightarrow> 'm changes \<Rightarrow>
     (error, 'w prov) act" where
  "ApplyChanges c cfg sched shuffle now ctx ch p =
     (case scheduledApply sched (applyWorkers cfg) c cfg shuffle (applyCtx cfg ctx) ch p of
        (out, p) \<Rightarrow> (out, recordOp now (case out of Fail _ \<Rightarrow> True | _ \<Rightarrow> False) (meter (inc ApplyDuration) p)))"

text \<open>The same as a relation, for every order and any limit of workers.\<close>

definition changes_with ::
  "nat \<Rightarrow> 'w client \<Rightarrow> config \<Rightarrow> (rowKey list \<Rightarrow> rowKey list) \<Rightarrow> int \<Rightarrow> ctx \<Rightarrow> 'm changes \<Rightarrow> 'w prov \<Rightarrow>
     error outcome \<Rightarrow> 'w prov \<Rightarrow> bool" where
  "changes_with lim c cfg shuffle now ctx ch p out p' \<longleftrightarrow>
     (\<exists>q. apply_with lim c cfg shuffle (applyCtx cfg ctx) ch p out q \<and>
        p' = recordOp now (case out of Fail _ \<Rightarrow> True | _ \<Rightarrow> False) (meter (inc ApplyDuration) q))"

lemma applyWorkers_valid: "validConfig cfg \<Longrightarrow> int (applyWorkers cfg) = cApplyWorkers cfg"
  by (auto simp: applyWorkers_def validConfig_def)

lemma ApplyChanges_iff:
  "changes_with (applyWorkers cfg) c cfg shuffle now ctx ch p out p' \<longleftrightarrow>
     (\<exists>sched. ApplyChanges c cfg sched shuffle now ctx ch p = (out, p'))"
proof -
  have "0 < applyWorkers cfg" by (simp add: applyWorkers_def)
  note iff = scheduledApply_iff [OF this]
  let ?h = "\<lambda>out p. recordOp now (case out of Fail _ \<Rightarrow> True | _ \<Rightarrow> False) (meter (inc ApplyDuration) p)"
  have split: "(case x of (out, p) \<Rightarrow> (out, ?h out p)) = (out, p') \<longleftrightarrow> (\<exists>q. x = (out, q) \<and> p' = ?h out q)" for x
    by (cases x) auto
  show ?thesis unfolding changes_with_def iff ApplyChanges_def split by blast
qed

lemma ApplyChanges_with: "ApplyChanges c cfg sched shuffle now ctx ch p = (out, p') \<Longrightarrow> changes_with (applyWorkers cfg) c cfg shuffle now ctx ch p out p'"
  unfolding ApplyChanges_iff by (rule exI)

section \<open>Adjusting endpoints\<close>

fun firstInvalidTXT :: "string list \<Rightarrow> bool" where
  "firstInvalidTXT [] \<longleftrightarrow> False"
| "firstInvalidTXT (t # ts) \<longleftrightarrow> isl (validateTXT t) \<or> firstInvalidTXT ts"

text \<open>The reason, empty for an endpoint that is kept, and whether an invalid TXT value was counted.\<close>

definition dropReason :: "config \<Rightarrow> 'm endpoint_scheme \<Rightarrow> string \<Rightarrow> metrics \<Rightarrow> string \<times> metrics" where
  "dropReason cfg e name m =
     (if RecordType e \<noteq> recordTypeA \<and> RecordType e \<noteq> recordTypeAAAA \<and> RecordType e \<noteq> recordTypeTXT then (''type'', m)
      else if SetIdentifier e \<noteq> [] then (''set-identifier'', m)
      else if isWildcard name then (''wildcard'', m)
      else case splitName name (cDomains cfg) of
        Inl err \<Rightarrow>
          (if error_is err ErrApexName then (''apex'', m)
           else if error_is err ErrNameOutsideDomains then (''domain'', m)
           else (''name'', m))
      | Inr _ \<Rightarrow>
          if RecordType e = recordTypeTXT \<and> firstInvalidTXT (Targets e) then (''txt'', inc TXTInvalid m)
          else ([], m))"

fun AdjustEndpoints ::
  "config \<Rightarrow> 'm endpoint_scheme list \<Rightarrow> metrics \<Rightarrow> 'm endpoint_scheme list \<times> metrics" where
  "AdjustEndpoints cfg [] m = ([], m)"
| "AdjustEndpoints cfg (e # es) m =
     (let name = normaliseName (DNSName e)
      in case dropReason cfg e name m of
           (reason, m) \<Rightarrow>
             if reason \<noteq> [] then AdjustEndpoints cfg es (inc (EndpointsDropped reason) m)
             else (case AdjustEndpoints cfg es m of
                     (out, m) \<Rightarrow> (e\<lparr>DNSName := name, RecordTTL := clampTTL (RecordTTL e)\<rparr> # out, m)))"

section \<open>Startup and readiness\<close>

definition servedKeys :: "localData list \<Rightarrow> rowKey list" where
  "servedKeys served = map (\<lambda>d. RowKey (normaliseName (ldName d)) (ldRRType d)) served"

definition unserved :: "config \<Rightarrow> localData list \<Rightarrow> hostRow list \<Rightarrow> hostRow list" where
  "unserved cfg served rs =
     filter (\<lambda>r. \<not> (\<not> enabled r \<or> IsAlias (cols r) \<or> Description (cols r) \<noteq> cOwnerMarker cfg) \<and>
                 rowKeyOf r \<notin> set (servedKeys served)) rs"

definition servedStateCheck :: "'w client \<Rightarrow> config \<Rightarrow> ctx \<Rightarrow> 'w prov \<Rightarrow> error option \<times> 'w prov" where
  "servedStateCheck c cfg ctx p =
     (case cSnapshot c ctx (world p) of
        (Inl e, w) \<Rightarrow> (Some e, p\<lparr>world := w\<rparr>)
      | (Inr sn, w) \<Rightarrow>
          (case cListLocalData c ctx w of
             (Inl e, w) \<Rightarrow> (Some e, p\<lparr>world := w\<rparr>)
           | (Inr served, w) \<Rightarrow>
               let p = p\<lparr>world := w\<rparr>
               in if unserved cfg served (map (deref sn) (snRows sn)) = [] then (None, p)
                  else reconfigure c cfg False (setPending True p)))"

definition Startup :: "'w client \<Rightarrow> config \<Rightarrow> ctx \<Rightarrow> 'w prov \<Rightarrow> 'w prov" where
  "Startup c cfg ctx p =
     (let ctx = CtxWithTimeout ctx (cApplyTimeout cfg)
      in case cServiceStatus c ctx (world p) of
           (Some e, w) \<Rightarrow> p\<lparr>world := w\<rparr>
         | (None, w) \<Rightarrow> snd (servedStateCheck c cfg ctx (p\<lparr>world := w\<rparr>)))"

definition Ready :: "'w client \<Rightarrow> ctx \<Rightarrow> 'w prov \<Rightarrow> error option \<times> 'w prov" where
  "Ready c ctx p =
     (case cSearch c ctx 1 1 (world p) of
        (Inl e, w) \<Rightarrow> (Some e, p\<lparr>world := w\<rparr>)
      | (Inr _, w) \<Rightarrow> (None, p\<lparr>world := w\<rparr>))"

text \<open>A \<^verbatim>\<open>time.Duration\<close> is an \<^verbatim>\<open>int64\<close>: the sum wraps.\<close>

definition ApplyBudget :: "config \<Rightarrow> int" where
  "ApplyBudget cfg = i64 (cApplyTimeout cfg + cReconfigureTimeout cfg)"

lemmas provider_defs [go_defs] = countType_def recordOp_def readRecords_def Records_def applyCtx_def
  applyWorkers_def ApplyChanges_def dropReason_def servedKeys_def unserved_def servedStateCheck_def Startup_def Ready_def
  ApplyBudget_def

section \<open>What is kept of the desired endpoints\<close>

text \<open>What the write path can hold, as a specification.\<close>

definition writable :: "config \<Rightarrow> 'm endpoint_scheme \<Rightarrow> string \<Rightarrow> bool" where
  "writable cfg e name \<longleftrightarrow>
     RecordType e \<in> {recordTypeA, recordTypeAAAA, recordTypeTXT} \<and> SetIdentifier e = [] \<and> CHR ''*'' \<notin> set name \<and>
     \<not> isl (splitName name (cDomains cfg)) \<and>
     (RecordType e = recordTypeTXT \<longrightarrow> list_all (\<lambda>t. \<not> isl (validateTXT t)) (Targets e))"

lemma firstInvalidTXT_iff: "firstInvalidTXT ts \<longleftrightarrow> \<not> list_all (\<lambda>t. \<not> isl (validateTXT t)) ts"
  by (induction ts) auto

lemma dropReason_iff: "fst (dropReason cfg e name m) = [] \<longleftrightarrow> writable cfg e name"
  by (auto simp: dropReason_def writable_def isWildcard_def contains_char firstInvalidTXT_iff
        split: sum.splits)

lemma dropReason_kept: "writable cfg e name \<Longrightarrow> dropReason cfg e name m = ([], m)"
  by (auto simp: dropReason_def writable_def isWildcard_def contains_char firstInvalidTXT_iff
        split: sum.splits)

lemma dropReason_closed: "fst (dropReason cfg e name m) \<in> insert [] (set DropReasons)"
  by (auto simp: dropReason_def DropReasons_def split: sum.splits)

definition adjusted :: "'m endpoint_scheme \<Rightarrow> 'm endpoint_scheme" where
  "adjusted e = e\<lparr>DNSName := normaliseName (DNSName e), RecordTTL := clampTTL (RecordTTL e)\<rparr>"

definition kept :: "config \<Rightarrow> 'm endpoint_scheme \<Rightarrow> bool" where
  "kept cfg e \<longleftrightarrow> writable cfg e (normaliseName (DNSName e))"

lemma AdjustEndpoints_eq: "fst (AdjustEndpoints cfg es m) = map adjusted (filter (kept cfg) es)"
proof (induction es arbitrary: m)
  case (Cons e es)
  let ?d = "dropReason cfg e (normaliseName (DNSName e)) m"
  show ?case
  proof (cases "kept cfg e")
    case True
    then have "?d = ([], m)" by (simp add: kept_def dropReason_kept)
    with True Cons [of m] show ?thesis
      by (cases "AdjustEndpoints cfg es m") (simp add: Let_def adjusted_def)
  next
    case False
    then have "fst ?d \<noteq> []" by (simp add: kept_def dropReason_iff)
    with False Cons show ?thesis by (cases ?d) (simp add: Let_def)
  qed
qed simp

text \<open>Every dropped endpoint is counted under exactly one reason of the closed set.\<close>

lemma AdjustEndpoints_counts:
  "(\<Sum>r\<leftarrow>DropReasons. reading (snd (AdjustEndpoints cfg es m)) (EndpointsDropped r)) =
   (\<Sum>r\<leftarrow>DropReasons. reading m (EndpointsDropped r)) + int (length (filter (\<lambda>e. \<not> kept cfg e) es))"
proof (induction es arbitrary: m)
  case (Cons e es)
  let ?d = "dropReason cfg e (normaliseName (DNSName e)) m"
  show ?case
  proof (cases "kept cfg e")
    case True
    then have "?d = ([], m)" by (simp add: kept_def dropReason_kept)
    with True Cons [of m] show ?thesis by (cases "AdjustEndpoints cfg es m") (simp add: Let_def)
  next
    case False
    then have ne: "fst ?d \<noteq> []" by (simp add: kept_def dropReason_iff)
    with dropReason_closed [of cfg e _ m] have r: "fst ?d \<in> set DropReasons" by auto
    have d: "reading (snd ?d) (EndpointsDropped r) = reading m (EndpointsDropped r)" for r
      by (auto simp: dropReason_def split: sum.splits)
    have "(\<Sum>r\<leftarrow>DropReasons. reading (inc (EndpointsDropped (fst ?d)) (snd ?d)) (EndpointsDropped r)) =
        (\<Sum>r\<leftarrow>DropReasons. reading m (EndpointsDropped r)) + 1"
      using r by (auto simp: DropReasons_def d)
    moreover have "snd (AdjustEndpoints cfg (e # es) m) =
        snd (AdjustEndpoints cfg es (inc (EndpointsDropped (fst ?d)) (snd ?d)))"
      using ne by (cases ?d) (simp add: Let_def)
    ultimately show ?thesis
      using False Cons [of "inc (EndpointsDropped (fst ?d)) (snd ?d)"] by simp
  qed
qed simp

text \<open>
  The plan never has to reject what was kept: with a clean name and at least one target, the
  fold defines the set and reports nothing.
\<close>

lemma foldTargets_kept:
  "rr \<in> {recordTypeA, recordTypeAAAA, recordTypeTXT} \<Longrightarrow>
   (rr = recordTypeTXT \<longrightarrow> list_all (\<lambda>t. \<not> isl (validateTXT t)) ts) \<Longrightarrow>
   \<exists>out. foldTargets rr name acc ts = Inr out"
  by (induction ts arbitrary: acc) (auto split: sum.splits)

lemma adjusted_defines:
  assumes k: "kept cfg e" and clean: "cleanName (normaliseName (DNSName e))" and ne: "Targets e \<noteq> []"
    and fresh: "RowKey (normaliseName (DNSName e)) (RecordType e) \<notin> set (fsConflicted st)"
      "map_of (fsSets st) (RowKey (normaliseName (DNSName e)) (RecordType e)) = None"
  shows "\<exists>s. define_ep cfg False (adjusted e) st =
    st\<lparr>fsSets := AList.update (RowKey (normaliseName (DNSName e)) (RecordType e)) s (fsSets st)\<rparr>"
proof -
  let ?n = "normaliseName (DNSName e)"
  have n: "normaliseName ?n = ?n" using clean by (simp add: cleanName_def)
  from k obtain h d where "splitName ?n (cDomains cfg) = Inr (h, d)"
    by (cases "splitName ?n (cDomains cfg)") (auto simp: kept_def writable_def)
  moreover obtain out where "foldTargets (RecordType e) ?n [] (Targets e) = Inr out"
    using k foldTargets_kept [of "RecordType e" "Targets e" ?n "[]"] by (auto simp: kept_def writable_def)
  ultimately show ?thesis
    using n ne fresh by (auto simp: define_ep_def adjusted_def Let_def)
qed

section \<open>Reading repairs first\<close>

text \<open>Records answers from the table only when no reload is outstanding.\<close>

lemma Records_served:
  assumes r: "Records (logged c) cfg newEndpoint now ctx p = (Inr eps, p')"
  shows "\<not> pending p' \<and> (\<exists>sn. snd (world p') =
      snd (world p) @ (if pending p then [CallReload None] else []) @ [CallRead (Inr sn)] \<and> eps = Endpoints newEndpoint sn)"
proof -
  obtain e p1 where r1: "(if pending p then reconfigure (logged c) cfg True p else (None, p)) = (e, p1)" by fastforce
  have e: "e = None" using r r1 by (cases e) (auto simp: Records_def)
  have np: "\<not> pending p1" using r1 e by (auto split: if_splits dest: reconfigure_pending)
  have l1: "snd (world p1) = snd (world p) @ (if pending p then [CallReload None] else [])"
    using r1 e reconfigure_logged [of c cfg p None p1] by (auto simp: reconfigure_def split: if_splits)
  obtain a w where a: "cSnapshot c ctx (fst (world p1)) = (a, w)" by fastforce
  note a' = cSnapshot_logged [OF a]
  show ?thesis
  proof (cases a)
    case (Inl x)
    with r r1 e a' show ?thesis by (simp add: Records_def readRecords_def)
  next
    case (Inr sn)
    with r r1 e a' have "eps = Endpoints newEndpoint sn" "snd (world p') = snd (world p1) @ [CallRead (Inr sn)]" "pending p' = pending p1"
      by (auto simp: Records_def readRecords_def Let_def recordOp_def)
    with np l1 show ?thesis by simp
  qed
qed

lemma Records_reload_failed:
  assumes "pending p" and "cReconfigure c (CtxWithTimeout CtxBackground (cReconfigureTimeout cfg)) (world p) = (Some e, w)"
  shows "\<exists>p'. Records c cfg newEndpoint now ctx p = (Inl (Wrap ''applying pending reconfigure before read'' e), p') \<and>
    world p' = w \<and> pending p'"
  using assms by (simp add: Records_def reconfigure_def Let_def recordOp_def)

section \<open>The startup check\<close>

lemma servedStateCheck_idle:
  assumes "cSnapshot c ctx (world p) = (Inr sn, w)" and "cListLocalData c ctx w = (Inr served, w')"
  shows "(servedStateCheck c cfg ctx p = (None, p\<lparr>world := w'\<rparr>)) \<or>
    unserved cfg served (map (deref sn) (snRows sn)) \<noteq> [] \<and>
    servedStateCheck c cfg ctx p = reconfigure c cfg False (setPending True (p\<lparr>world := w'\<rparr>))"
  using assms by (auto simp: servedStateCheck_def Let_def)

section \<open>Properties\<close>

text \<open>C24: Adjusting keeps exactly the endpoints the write path can hold, in order, with their name normalised and
their TTL clamped, and drops the others.\<close>

theorem adjust_filters: "fst (AdjustEndpoints cfg es m) = map adjusted (filter (kept cfg) es)"
  by (rule AdjustEndpoints_eq)

text \<open>Every dropped endpoint is counted once, under one reason of the closed label set.\<close>

theorem adjust_counts:
  "(\<Sum>r\<leftarrow>DropReasons. reading (snd (AdjustEndpoints cfg es m)) (EndpointsDropped r)) =
   (\<Sum>r\<leftarrow>DropReasons. reading m (EndpointsDropped r)) + int (length (filter (\<lambda>e. \<not> kept cfg e) es))"
  by (rule AdjustEndpoints_counts)

text \<open>C25: An endpoint that was kept is never refused by the plan: with a clean name and a target, and no other
definition of its record set, folding it in defines its set and reports nothing.\<close>

theorem adjusted_accepted:
  assumes "kept cfg e" and "cleanName (normaliseName (DNSName e))" and "Targets e \<noteq> []"
    and "RowKey (normaliseName (DNSName e)) (RecordType e) \<notin> set (fsConflicted st)"
    and "map_of (fsSets st) (RowKey (normaliseName (DNSName e)) (RecordType e)) = None"
  shows "\<exists>s. define_ep cfg False (adjusted e) st =
    st\<lparr>fsSets := AList.update (RowKey (normaliseName (DNSName e)) (RecordType e)) s (fsSets st)\<rparr>"
  using assms by (rule adjusted_defines)

text \<open>C26: A read repairs first.  When Records answers, the calls it made were: a reload, which succeeded, exactly if
one was outstanding; then one read of the table -- nothing else -- and the endpoints are those of that very read;
afterwards no reload is outstanding.\<close>

theorem records_after_reload:
  assumes "Records (logged c) cfg newEndpoint now ctx p = (Inr eps, p')"
  shows "\<not> pending p' \<and> (\<exists>sn. snd (world p') =
      snd (world p) @ (if pending p then [CallReload None] else []) @ [CallRead (Inr sn)] \<and> eps = Endpoints newEndpoint sn)"
  using assms by (rule Records_served)

end
