(* ===== verification/Lifecycle.thy ===== *)
theory Lifecycle
  imports Provider
begin

text \<open>
  The provider over its whole life: a step is one call of one of its operations, in any order and
  any number.  Two invariants: the gauge always shows the pending flag, and the flag is up whenever
  a write has been attempted that no successful reload has followed.
\<close>

section \<open>The gauge\<close>

definition keepsGauge :: "(metrics \<Rightarrow> metrics) \<Rightarrow> bool" where
  "keepsGauge f \<longleftrightarrow> (\<forall>m. f m PendingReconfigure = m PendingReconfigure)"

lemma gaugeOk_meter [simp]: "keepsGauge f \<Longrightarrow> gaugeOk (meter f p) = gaugeOk p"
  by (simp add: gaugeOk_def keepsGauge_def)

lemma gaugeOk_world [simp]: "gaugeOk (p\<lparr>world := w\<rparr>) = gaugeOk p"
  by (simp add: gaugeOk_def)

lemma keepsGauge_simps [simp]:
  "keepsGauge (inc k) \<longleftrightarrow> k \<noteq> PendingReconfigure" "k \<noteq> PendingReconfigure \<Longrightarrow> keepsGauge (setGauge k n)"
  "keepsGauge (RecordChange op rr)" "keepsGauge (RecordOperation failed now)"
  "keepsGauge (RecordReconfigure failed)" "keepsGauge (UpdateRecordsByType rr n)"
  by (auto simp: keepsGauge_def inc_def addTo_def setGauge_def record_defs Let_def)

lemma keepsGauge_fold: "(\<And>x. keepsGauge (f x)) \<Longrightarrow> keepsGauge (fold f xs)"
  by (induction xs) (auto simp: keepsGauge_def)

lemma gaugeOk_reconfigure: "reconfigure c cfg r p = (e, p') \<Longrightarrow> gaugeOk p \<Longrightarrow> gaugeOk p'"
  by (erule reconfigure_cases) auto

text \<open>Every step of the apply path keeps the gauge.\<close>

lemma gauge_onProv: "keepsGauge f \<Longrightarrow> gaugeOk (arP (onProv (meter f) run)) = gaugeOk (arP run)"
  by simp

lemma gauge_putWorld [simp]: "gaugeOk (arP (putWorld w run)) = gaugeOk (arP run)"
  by (simp add: putWorld_def)

lemma gauge_markWrite: "gaugeOk (arP run) \<Longrightarrow> gaugeOk (arP (markWrite run))"
  by (simp add: markWrite_def)

lemma gauge_checkWrites: "checkWrites b ws run = (n, run') \<Longrightarrow> gaugeOk (arP run) \<Longrightarrow> gaugeOk (arP run')"
proof (induction ws arbitrary: n run)
  case (Cons w ws)
  then show ?case by (auto simp: lost_def split: option.splits prod.splits)
qed simp

lemma gauge_verifyPhase: "verifyPhase c ctx run = (n, run') \<Longrightarrow> gaugeOk (arP run) \<Longrightarrow> gaugeOk (arP run')"
  by (auto simp: verifyPhase_def takeWrites_def dest: gauge_checkWrites split: if_splits sum.splits prod.splits)

interpretation gauge: run_invariant "\<lambda>run. gaugeOk (arP run)"
proof
  fix run run' :: "'w applyRun" and c ctx n
  assume "gaugeOk (arP run)" "verifyPhase c ctx run = (n, run')"
  then show "gaugeOk (arP run')" by (rule gauge_verifyPhase [rotated])
qed (auto simp: failSet_def startPhase_def markFailed_def gauge_markWrite)

lemma foldChanges_gauge: "fsMets (foldChanges cfg ch m) PendingReconfigure = m PendingReconfigure"
proof -
  have e: "fsMets (define_ep cfg b e st) PendingReconfigure = fsMets st PendingReconfigure"
    for b :: bool and e :: "'a endpoint_scheme" and st
    by (auto simp: define_ep_def Let_def foldErr_def inc_def addTo_def
          split: sum.splits targetError.splits option.splits)
  have "fsMets (fold (define_ep cfg b) es st) PendingReconfigure = fsMets st PendingReconfigure"
    for b :: bool and es :: "'a endpoint_scheme list" and st
    by (induction es arbitrary: st) (simp_all add: e)
  then show ?thesis by (simp add: foldChanges_def)
qed

lemma gauge_apply:
  assumes ap: "apply_with lim c cfg shuffle ctx ch p out p'" and g: "gaugeOk p"
  shows "gaugeOk p'"
proof -
  let ?st = "foldChanges cfg ch (pmets p)"
  obtain a w where a: "cSnapshot c ctx (world p) = (a, w)" by fastforce
  show ?thesis
  proof (cases a)
    case (Inl e)
    with a ap g show ?thesis by (simp add: apply_with_def)
  next
    case (Inr sn)
    let ?run = "beginRun sn ?st (p\<lparr>world := w\<rparr>)"
    from a Inr ap obtain res r where p: "phases_with lim c cfg ctx (planKeys shuffle ?st) 0 applyPhases
        [length (fsRejected ?st), 0, 0, 0] ?run res r" and e: "applied c cfg res r = (out, p')"
      by (auto simp: apply_with_def Let_def)
    have "gaugeOk (arP ?run)" using g by (simp add: beginRun_def gaugeOk_def foldChanges_gauge)
    with p have gr: "gaugeOk (arP r)" by (rule gauge.phases_keep)
    have "gaugeOk (snd (finishApply c cfg r))"
      using gr gaugeOk_reconfigure [of c cfg False "arP r"]
      by (auto simp: finishApply_def Let_def addErr_def split: prod.splits option.splits)
    with e gr show ?thesis
      by (cases res; cases "finishApply c cfg r"; cases "fst (finishApply c cfg r)") (auto simp: applied_def)
  qed
qed

section \<open>The provider's steps\<close>

inductive prov_step :: "'w client \<Rightarrow> config \<Rightarrow> 'w prov \<Rightarrow> 'w prov \<Rightarrow> bool" for c cfg where
  records: "Records c cfg (newEndpoint :: string \<Rightarrow> string \<Rightarrow> int \<Rightarrow> string list \<Rightarrow> endpoint) now ctx p = (res, p') \<Longrightarrow>
     prov_step c cfg p p'"
| changes: "changes_with lim c cfg shuffle now ctx (ch :: unit changes) p out p' \<Longrightarrow>
     prov_step c cfg p p'"
| adjust: "prov_step c cfg p (meter (\<lambda>m. snd (AdjustEndpoints cfg (es :: endpoint list) m)) p)"
| startup: "prov_step c cfg p (Startup c cfg ctx p)"
| ready: "Ready c ctx p = (res, p') \<Longrightarrow> prov_step c cfg p p'"

inductive_cases prov_stepE: "prov_step c cfg p p'"

inductive prov_run :: "'w client \<Rightarrow> config \<Rightarrow> 'w prov \<Rightarrow> 'w prov \<Rightarrow> bool" for c cfg where
  start: "prov_run c cfg p p"
| more: "prov_run c cfg p p' \<Longrightarrow> prov_step c cfg p' p'' \<Longrightarrow> prov_run c cfg p p''"

lemma prov_run_invariant:
  assumes "prov_run c cfg p p'" and "I p" and "\<And>p p'. prov_step c cfg p p' \<Longrightarrow> I p \<Longrightarrow> I p'"
  shows "I p'"
  using assms by (induction rule: prov_run.induct) auto

lemma inc_other: "k \<noteq> k' \<Longrightarrow> inc k m k' = m k'"
  by (simp add: inc_def addTo_def)

lemma AdjustEndpoints_gauge: "keepsGauge (\<lambda>m. snd (AdjustEndpoints cfg es m))"
  unfolding keepsGauge_def
proof
  fix m show "snd (AdjustEndpoints cfg es m) PendingReconfigure = m PendingReconfigure"
  proof (induction es arbitrary: m)
    case (Cons e es)
    let ?d = "dropReason cfg e (normaliseName (DNSName e)) m"
    have d: "snd ?d PendingReconfigure = m PendingReconfigure"
      by (auto simp: dropReason_def inc_other split: sum.splits)
    show ?case
      using Cons [of "snd ?d"] Cons [of "inc (EndpointsDropped (fst ?d)) (snd ?d)"] d
      by (cases ?d; cases "AdjustEndpoints cfg es (snd ?d)") (auto simp: Let_def inc_other)
  qed simp
qed

lemma gauge_readRecords:
  assumes "readRecords c newEndpoint ctx p = (res, p')" and "gaugeOk p"
  shows "gaugeOk p'"
proof -
  obtain a w where a: "cSnapshot c ctx (world p) = (a, w)" by fastforce
  show ?thesis
  proof (cases a)
    case (Inl e)
    with a assms show ?thesis by (auto simp: readRecords_def)
  next
    case (Inr sn)
    with a assms show ?thesis by (auto simp: readRecords_def Let_def keepsGauge_fold)
  qed
qed

lemma gauge_Records:
  assumes "Records c cfg newEndpoint now ctx p = (res, p')" and g: "gaugeOk p"
  shows "gaugeOk p'"
proof -
  obtain e p1 where r: "(if pending p then reconfigure c cfg True p else (None, p)) = (e, p1)" by fastforce
  then have g1: "gaugeOk p1" using g by (auto split: if_splits dest: gaugeOk_reconfigure)
  obtain b p2 where b: "readRecords c newEndpoint ctx p1 = (b, p2)" by fastforce
  then have "gaugeOk p2" using g1 by (rule gauge_readRecords)
  with assms(1) r b g1 show ?thesis
    by (cases e; cases b) (auto simp: Records_def recordOp_def)
qed

lemma step_gauge:
  assumes "prov_step c cfg p p'" and "gaugeOk p"
  shows "gaugeOk p'"
  using assms
proof (cases rule: prov_step.cases)
  case (records newEndpoint now ctx res)
  then show ?thesis using assms(2) by (rule gauge_Records)
next
  case (changes lim shuffle now ctx ch out)
  then show ?thesis
    using assms(2) by (auto simp: changes_with_def recordOp_def dest: gauge_apply)
next
  case (adjust es)
  then show ?thesis using assms(2) by (simp add: AdjustEndpoints_gauge)
next
  case (startup ctx)
  then show ?thesis
    using assms(2)
    by (auto simp: Startup_def servedStateCheck_def Let_def split: option.splits prod.splits sum.splits)
       (metis gaugeOk_reconfigure gaugeOk_setPending prod.collapse)
next
  case (ready ctx res)
  then show ?thesis using assms(2) by (auto simp: Ready_def split: sum.splits prod.splits)
qed

section \<open>Saved and served\<close>

text \<open>
  \<open>dirty\<close> of a log: a write was attempted after the last successful reload, so what the firewall has
  saved and what it serves may differ.
\<close>

fun unserve :: "call \<Rightarrow> bool \<Rightarrow> bool" where
  "unserve (CallReload None) d \<longleftrightarrow> False"
| "unserve x d \<longleftrightarrow> d \<or> isWrite x"

definition dirty :: "call list \<Rightarrow> bool" where
  "dirty log = fold unserve log False"

lemma dirty_Nil [simp]: "\<not> dirty []"
  by (simp add: dirty_def)

lemma dirty_snoc [simp]: "dirty (log @ [x]) = unserve x (dirty log)"
  by (simp add: dirty_def)

lemma dirty_reload [simp]: "unserve (CallReload e) d \<longleftrightarrow> e \<noteq> None \<and> d"
  by (cases e) simp_all

lemma dirty_read [simp]: "unserve (CallRead r) d = d"
  by simp

lemma dirty_calls: "dirty (log @ l) \<Longrightarrow> dirty log \<or> (\<exists>x \<in> set l. isWrite x)"
proof (induction l rule: rev_induct)
  case (snoc x l)
  from snoc.prems have "unserve x (dirty (log @ l))" by (simp flip: append_assoc)
  then show ?case using snoc.IH by (cases x) auto
qed simp

definition honest :: "('w \<times> call list) prov \<Rightarrow> bool" where
  "honest p \<longleftrightarrow> (dirty (snd (world p)) \<longrightarrow> pending p)"

lemma trace_writes:
  assumes "applyTrace cfg sn st log ps" and "x \<in> set (concat (map phaseCalls ps))" "isWrite x"
  shows "concat (map phaseWrites ps) \<noteq> []"
proof -
  obtain n0 l0 r0 e0 n1 l1 r1 e1 n2 l2 r2 e2 n3 l3 r3 e3
    where ps: "ps = [(n0, l0, r0, e0), (n1, l1, r1, e1), (n2, l2, r2, e2), (n3, l3, r3, e3)]"
    by (rule applyTrace_phases [OF assms(1)])
  have r: "\<not> isWrite y" if "phaseShape cfg sn S ph lg n l r es" "y \<in> set r" for S ph lg n l r es y
    using that by (auto simp: phaseShape_def split: if_splits)
  from assms(1) have sh:
    "\<exists>S ph lg. phaseShape cfg sn S ph lg n0 l0 r0 e0" "\<exists>S ph lg. phaseShape cfg sn S ph lg n1 l1 r1 e1"
    "\<exists>S ph lg. phaseShape cfg sn S ph lg n2 l2 r2 e2" "\<exists>S ph lg. phaseShape cfg sn S ph lg n3 l3 r3 e3"
    unfolding ps applyTrace.simps by blast+
  have "\<not> isWrite y" if "y \<in> set r0 \<union> set r1 \<union> set r2 \<union> set r3" for y
    using that sh r by blast
  with assms(2,3) have "x \<in> set l0 \<union> set l1 \<union> set l2 \<union> set l3"
    by (auto simp: ps phaseCalls_def)
  then show ?thesis by (auto simp: ps phaseWrites_def)
qed

lemma apply_honest:
  assumes ap: "apply_with lim (logged c) cfg shuffle ctx ch p out p'"
    and ok: "\<And>sn w'. cSnapshot c ctx (fst (world p)) = (Inr sn, w') \<Longrightarrow> snapOk sn" and h: "honest p"
  shows "honest p'"
proof -
  obtain a w where a: "cSnapshot c ctx (fst (world p)) = (a, w)" by fastforce
  show ?thesis
  proof (cases a)
    case (Inl e)
    with ap cSnapshot_logged [OF a] have "p' = p\<lparr>world := (w, snd (world p) @ [CallRead (Inl e)])\<rparr>"
      by (simp add: apply_with_def)
    with h show ?thesis by (simp add: honest_def)
  next
    case (Inr sn)
    with a ok have sn: "snapOk sn" "cSnapshot c ctx (fst (world p)) = (Inr sn, w)" by auto
    obtain ps rel where t: "applyTrace cfg sn (foldChanges cfg ch (pmets p)) (snd (world p) @ [CallRead (Inr sn)]) ps"
      and log: "snd (world p') = snd (world p) @ CallRead (Inr sn) # concat (map phaseCalls ps) @ rel"
      and pan: "out = Panicked \<longrightarrow> rel = [] \<and> (pending p \<or> concat (map phaseWrites ps) \<noteq> [] \<longrightarrow> pending p')"
      and fin: "out \<noteq> Panicked \<longrightarrow> applyEnd (pending p \<or> concat (map phaseWrites ps) \<noteq> [])
       (fsErrs (foldChanges cfg ch (pmets p)) @ concat (map phaseErrs ps)) out rel (pending p')"
      by (rule apply_run [OF ap sn(2,1) refl]) blast
    let ?l = "(snd (world p) @ [CallRead (Inr sn)]) @ concat (map phaseCalls ps)"
    show ?thesis
    proof (cases "pending p \<or> concat (map phaseWrites ps) \<noteq> []")
      case True
      show ?thesis
      proof (cases "out = Panicked")
        case False
        with fin True obtain e where "rel = [CallReload e]" "pending p' \<longleftrightarrow> e \<noteq> None"
          by (auto simp: applyEnd_def)
        with log have "snd (world p') = ?l @ [CallReload e]" by simp
        with \<open>pending p' \<longleftrightarrow> e \<noteq> None\<close> show ?thesis
          unfolding honest_def by (simp only: dirty_snoc dirty_reload) simp
      qed (use pan True in \<open>auto simp: honest_def\<close>)
    next
      case False
      with fin pan have "rel = []" by (cases "out = Panicked") (auto simp: applyEnd_def)
      with log have "snd (world p') = ?l" by simp
      moreover have "\<not> dirty (snd (world p) @ [CallRead (Inr sn)])" using h False by (simp add: honest_def)
      ultimately have "\<not> dirty (snd (world p'))"
        using False trace_writes [OF t] dirty_calls by metis
      then show ?thesis by (simp add: honest_def)
    qed
  qed
qed

lemma reconfigure_honest: "reconfigure (logged c) cfg r p = (e, p') \<Longrightarrow> honest p \<Longrightarrow> honest p'"
  using reconfigure_logged [of c cfg p e p']
  by (cases "r \<and> \<not> pending p") (auto simp: reconfigure_def honest_def)

lemma honest_meter [simp]: "honest (meter f p) = honest p"
  by (simp add: honest_def)

text \<open>The client's part of the contract: what it hands out as a snapshot is indexed right.\<close>

locale snapshot_client =
  fixes c :: "'w client"
  assumes snapshot_ok: "cSnapshot c ctx w = (Inr sn, w') \<Longrightarrow> snapOk sn"
begin

lemma step_honest:
  assumes st: "prov_step (logged c) cfg p p'" and h: "honest p"
  shows "honest p'"
  using st
proof (cases rule: prov_step.cases)
  case (records newEndpoint now ctx res)
  obtain e p1 where r: "(if pending p then reconfigure (logged c) cfg True p else (None, p)) = (e, p1)" by fastforce
  then have h1: "honest p1" using h by (auto split: if_splits dest: reconfigure_honest)
  have rd: "honest (snd (readRecords (logged c) newEndpoint ctx p1))"
  proof -
    obtain a w where a: "cSnapshot c ctx (fst (world p1)) = (a, w)" by fastforce
    from cSnapshot_logged [OF a] h1 show ?thesis
      by (cases a) (simp_all add: readRecords_def Let_def honest_def)
  qed
  from records r h1 rd show ?thesis
    by (cases "readRecords (logged c) newEndpoint ctx p1"; cases "fst (readRecords (logged c) newEndpoint ctx p1)"; cases e)
       (auto simp: Records_def recordOp_def)
next
  case (changes lim shuffle now ctx ch out)
  then obtain p1 where ap: "apply_with lim (logged c) cfg shuffle (applyCtx cfg ctx) ch p out p1"
    and "honest p' = honest p1" by (auto simp: changes_with_def recordOp_def)
  with apply_honest [OF ap] h snapshot_ok show ?thesis by blast
next
  case (adjust es)
  with h show ?thesis by simp
next
  case (startup ctx)
  let ?ctx = "CtxWithTimeout ctx (cApplyTimeout cfg)"
  obtain s l where wl: "world p = (s, l)" by fastforce
  have ss: "honest (snd (servedStateCheck (logged c) cfg ?ctx q))" if q: "honest q" for q
  proof -
    obtain a w where a: "cSnapshot c ?ctx (fst (world q)) = (a, w)" by fastforce
    note a' = cSnapshot_logged [OF a]
    show ?thesis
    proof (cases a)
      case (Inl e)
      with a' q show ?thesis by (simp add: servedStateCheck_def honest_def)
    next
      case (Inr sn)
      obtain b w2 where b: "cListLocalData c ?ctx w = (b, w2)" by fastforce
      let ?l = "snd (world q) @ [CallRead a]"
      have b': "cListLocalData (logged c) ?ctx (w, ?l) = (b, w2, ?l)" using b by (simp add: logged_def)
      let ?q = "q\<lparr>world := (w2, ?l)\<rparr>"
      have hq: "honest ?q" using q by (simp add: honest_def)
      obtain e q2 where rc: "reconfigure (logged c) cfg False (setPending True ?q) = (e, q2)" by fastforce
      have "honest (setPending True ?q)" by (simp add: honest_def)
      with rc have "honest q2" by (rule reconfigure_honest)
      with a' Inr b' hq rc show ?thesis
        by (cases b) (simp_all add: servedStateCheck_def Let_def)
    qed
  qed
  obtain e w where e: "cServiceStatus c ?ctx s = (e, w)" by fastforce
  have "honest (p\<lparr>world := (w, l)\<rparr>)" using h wl by (simp add: honest_def)
  with startup ss wl e show ?thesis
    by (cases e) (simp_all add: Startup_def Let_def logged_def)
next
  case (ready ctx res)
  with h show ?thesis
    by (cases "world p") (auto simp: Ready_def logged_def honest_def split: sum.splits prod.splits)
qed

lemma run_honest: "prov_run (logged c) cfg p p' \<Longrightarrow> honest p \<Longrightarrow> honest p'"
  using step_honest prov_run_invariant [of "logged c" cfg p p' honest] by blast

end

interpretation live: snapshot_client "liveClient n cfg" for n :: "'w net" and cfg
proof
  fix ctx w sn w' assume "cSnapshot (liveClient n cfg) ctx w = (Inr sn, w')"
  then show "snapOk sn"
    by (auto simp: liveClient_def dest!: SnapshotCall_Inr intro: snapOk_buildSnapshot)
qed

end
