(* ===== verification/Procs.thy ===== *)
theory Procs
  imports Tasks
begin

text \<open>
  Requests that share a state and may have to wait.  A process is a sequence of steps on the shared state; a step may
  be blocked, as a locked mutex blocks, and may leave a choice, as between the goroutines a request has
  started.  Any number of processes run in any interleaving, and new ones may arrive at any time.
\<close>

section \<open>Processes\<close>

text \<open>Which of its goroutines a process goes on with; only a group of goroutines leaves a choice.\<close>

datatype choice = Fork | Break | Go nat

datatype ('s, 'r) proc = Halt 'r | Step "choice \<Rightarrow> 's \<Rightarrow> ('s \<times> ('s, 'r) proc) option"

lemma proc_induct [case_names Halt Step, induct type: proc]:
  assumes "\<And>r. P (Halt r)" and "\<And>f. (\<And>ch s s' p. f ch s = Some (s', p) \<Longrightarrow> P p) \<Longrightarrow> P (Step f)"
  shows "P p"
proof (induction p rule: proc.induct)
  case (Step f)
  have "P p" if "f ch s = Some (s', p)" for ch s s' p
    by (rule Step [of "f ch" "Some (s', p)" "(s', p)"])
      (use that in \<open>auto simp: snds.simps intro: rangeI range_eqI [where x = s]\<close>)
  then show ?case by (rule assms(2))
qed (rule assms(1))

primrec bindP :: "('s, 'a) proc \<Rightarrow> ('a \<Rightarrow> ('s, 'b) proc) \<Rightarrow> ('s, 'b) proc" where
  "bindP (Halt r) k = k r"
| "bindP (Step f) k = Step (\<lambda>ch s. map_option (map_prod id (\<lambda>p. bindP p k)) (f ch s))"

definition askP :: "('s \<Rightarrow> 'r) \<Rightarrow> ('s, 'r) proc" where
  "askP h = Step (\<lambda>ch s. Some (s, Halt (h s)))"

definition doP :: "('s \<Rightarrow> 's) \<Rightarrow> ('s, unit) proc" where
  "doP g = Step (\<lambda>ch s. Some (g s, Halt ()))"

definition actP :: "('s \<Rightarrow> 'r \<times> 's) \<Rightarrow> ('s, 'r) proc" where
  "actP a = Step (\<lambda>ch s. case a s of (r, s') \<Rightarrow> Some (s', Halt r))"

text \<open>A step that waits until its guard holds.\<close>

definition awaitP :: "('s \<Rightarrow> bool) \<Rightarrow> ('s \<Rightarrow> 's) \<Rightarrow> ('s, unit) proc" where
  "awaitP c g = Step (\<lambda>ch s. if c s then Some (g s, Halt ()) else None)"

fun eachP :: "('x \<Rightarrow> ('s, unit) proc) \<Rightarrow> 'x list \<Rightarrow> ('s, unit) proc" where
  "eachP f [] = Halt ()"
| "eachP f (x # xs) = bindP (f x) (\<lambda>_. eachP f xs)"

section \<open>A process on its own\<close>

inductive alone :: "('s, 'r) proc \<Rightarrow> 's \<Rightarrow> 'r \<Rightarrow> 's \<Rightarrow> bool" where
  halt: "alone (Halt r) s r s"
| step: "f ch s = Some (s1, p) \<Longrightarrow> alone p s1 r s' \<Longrightarrow> alone (Step f) s r s'"

inductive_simps alone_Halt [simp]: "alone (Halt x) s r s'"
inductive_simps alone_Step: "alone (Step f) s r s'"

lemma alone_bindP [simp]: "alone (bindP p k) s r s' \<longleftrightarrow> (\<exists>a s1. alone p s a s1 \<and> alone (k a) s1 r s')"
proof (induction p arbitrary: s)
  case (Step f)
  have "alone (bindP (Step f) k) s r s' \<longleftrightarrow> (\<exists>ch s1 p. f ch s = Some (s1, p) \<and> alone (bindP p k) s1 r s')"
    unfolding bindP.simps alone_Step by (fastforce simp: map_prod_def)
  also have "\<dots> \<longleftrightarrow> (\<exists>ch s1 p. f ch s = Some (s1, p) \<and> (\<exists>a s2. alone p s1 a s2 \<and> alone (k a) s2 r s'))"
    using Step by blast
  finally show ?case unfolding alone_Step by blast
qed simp

lemma alone_simps [simp]:
  "alone (askP h) s r s' \<longleftrightarrow> r = h s \<and> s' = s"
  "alone (doP g) s u s' \<longleftrightarrow> s' = g s"
  "alone (actP a) s r s' \<longleftrightarrow> a s = (r, s')"
  "alone (awaitP c g) s u s' \<longleftrightarrow> c s \<and> s' = g s"
  by (auto simp: askP_def doP_def actP_def awaitP_def alone_Step split: prod.splits)

lemma alone_eachP: "alone (eachP (\<lambda>x. doP (f x)) xs) s u s' \<longleftrightarrow> s' = fold f xs s"
  by (induction xs arbitrary: s) simp_all

section \<open>Many processes\<close>

text \<open>\<open>new\<close> says which processes may arrive.\<close>

type_synonym ('s, 'r) crowd = "'s \<times> ('s, 'r) proc list"

inductive crowdStep :: "(('s, 'r) proc \<Rightarrow> bool) \<Rightarrow> ('s, 'r) crowd \<Rightarrow> ('s, 'r) crowd \<Rightarrow> bool" for new where
  arrive: "new p \<Longrightarrow> crowdStep new (s, ps) (s, ps @ [p])"
| move: "i < length ps \<Longrightarrow> ps ! i = Step f \<Longrightarrow> f ch s = Some (s', p) \<Longrightarrow> crowdStep new (s, ps) (s', ps[i := p])"

abbreviation crowdRun :: "(('s, 'r) proc \<Rightarrow> bool) \<Rightarrow> ('s, 'r) crowd \<Rightarrow> ('s, 'r) crowd \<Rightarrow> bool" where
  "crowdRun new \<equiv> (crowdStep new)\<^sup>*\<^sup>*"

text \<open>Crowds, executable: a schedule names the process that goes on and the choice it makes.\<close>

fun crowdExec :: "(nat \<times> choice) list \<Rightarrow> ('s, 'r) crowd \<Rightarrow> ('s, 'r) crowd option" where
  "crowdExec [] st = Some st"
| "crowdExec ((i, ch) # sched) (s, ps) =
     (if i < length ps then
        (case ps ! i of
           Halt r \<Rightarrow> None
         | Step f \<Rightarrow> (case f ch s of None \<Rightarrow> None | Some (s', p) \<Rightarrow> crowdExec sched (s', ps[i := p])))
      else None)"

lemma crowdExec_run: "crowdExec sched st = Some st' \<Longrightarrow> crowdRun new st st'"
proof (induction sched st rule: crowdExec.induct)
  case (2 i ch sched s ps)
  from 2(2) obtain f s' p where f: "i < length ps" "ps ! i = Step f" "f ch s = Some (s', p)"
    and r: "crowdExec sched (s', ps[i := p]) = Some st'"
    by (auto split: if_splits proc.splits option.splits)
  have "crowdStep new (s, ps) (s', ps[i := p])" using f by (rule crowdStep.move)
  moreover have "crowdRun new (s', ps[i := p]) st'" using 2(1) [OF f refl r] .
  ultimately show ?case by (rule converse_rtranclp_into_rtranclp)
qed simp

lemma crowd_arrive: "crowdRun new (s, ps) (s, ps @ qs)" if "\<forall>q \<in> set qs. new q"
  using that
proof (induction qs rule: rev_induct)
  case (snoc q qs)
  then show ?case using crowdStep.arrive [of new q s "ps @ qs"] by (auto intro: rtranclp.rtrancl_into_rtrancl)
qed simp

text \<open>With no arrivals every crowd comes to rest.\<close>

definition nextProc :: "(('s, 'r) proc \<times> ('s, 'r) proc) set" where
  "nextProc = {(p, q). \<exists>f ch s s'. q = Step f \<and> f ch s = Some (s', p)}"

lemma wf_nextProc: "wf (nextProc :: (('s, 'r) proc \<times> ('s, 'r) proc) set)"
proof (rule wfUNIVI)
  fix P :: "('s, 'r) proc \<Rightarrow> bool" and p
  assume step: "\<forall>p. (\<forall>q. (q, p) \<in> nextProc \<longrightarrow> P q) \<longrightarrow> P p"
  show "P p"
  proof (induction p)
    case (Halt r)
    show ?case using step [THEN spec, of "Halt r"] by (auto simp: nextProc_def)
  next
    case (Step f)
    then show ?case using step [THEN spec, of "Step f"] by (auto simp: nextProc_def)
  qed
qed

abbreviation nobody :: "('s, 'r) proc \<Rightarrow> bool" where
  "nobody p \<equiv> False"

lemma wf_crowdStep: "wf {(b, a). crowdStep nobody a (b :: ('s, 'r) crowd)}"
proof (rule wf_subset)
  let ?r = "inv_image (mult nextProc) (\<lambda>st :: ('s, 'r) crowd. mset (snd st))"
  show "wf ?r" by (intro wf_inv_image wf_mult wf_nextProc)
  have "(b, a) \<in> ?r" if "crowdStep nobody a b" for a b
    using that
  proof cases
    case (move i ps f ch s s' p)
    obtain I where I: "mset ps = I + {#ps ! i#}" "mset (ps[i := p]) = I + {#p#}"
      using mset_others [OF move(3)] by metis
    have "(p, ps ! i) \<in> nextProc" using move(4,5) by (auto simp: nextProc_def)
    then have "(mset (ps[i := p]), mset ps) \<in> mult nextProc"
      unfolding I by (intro one_step_implies_mult) simp_all
    with move show ?thesis by simp
  qed simp
  then show "{(b, a). crowdStep nobody a b} \<subseteq> ?r" by auto
qed

section \<open>What every interleaving keeps\<close>

text \<open>
  As for tasks, a process holds a token and \<open>Inv\<close> relates the shared state to all tokens.  A process heeds \<open>Inv\<close> if each
  of its steps, from any state the others may have left, trades its token for one with which \<open>Inv\<close> holds again, and if
  it has a step whenever \<open>Can\<close> says so; \<open>Over\<close> tokens belong to processes that have ended, and \<open>Q\<close> relates their results to
  them.
\<close>

inductive heeds ::
  "('s \<Rightarrow> 'g multiset \<Rightarrow> bool) \<Rightarrow> ('g \<Rightarrow> 's \<Rightarrow> bool) \<Rightarrow> ('g \<Rightarrow> bool) \<Rightarrow> ('r \<Rightarrow> 'g \<Rightarrow> bool) \<Rightarrow> ('s, 'r) proc \<Rightarrow> 'g \<Rightarrow> bool"
  for Inv Can Over Q where
  halt: "Q r g \<Longrightarrow> heeds Inv Can Over Q (Halt r) g"
| step: "\<not> Over g \<Longrightarrow>
     (\<And>s G. Inv s (add_mset g G) \<Longrightarrow> Can g s \<Longrightarrow> \<exists>ch. f ch s \<noteq> None) \<Longrightarrow>
     (\<And>s G ch s' p. Inv s (add_mset g G) \<Longrightarrow> f ch s = Some (s', p) \<Longrightarrow>
        \<exists>g'. Inv s' (add_mset g' G) \<and> heeds Inv Can Over Q p g') \<Longrightarrow>
     heeds Inv Can Over Q (Step f) g"

inductive_simps heeds_Halt: "heeds Inv Can Over Q (Halt r) g"
inductive_cases heeds_StepE: "heeds Inv Can Over Q (Step f) g"

lemma heeds_bindP:
  assumes "heeds Inv Can Over R p g" and k: "\<And>r g. R r g \<Longrightarrow> heeds Inv Can Over Q (k r) g"
  shows "heeds Inv Can Over Q (bindP p k) g"
  using assms(1)
proof (induction rule: heeds.induct)
  case (step g f)
  show ?case
    unfolding bindP.simps
  proof (rule heeds.step, goal_cases)
    case 1
    show ?case by (rule step.hyps(1))
  next
    case (2 s G)
    with step.hyps(2) show ?case by simp
  next
    case (3 s G ch s' q)
    then obtain p where p: "f ch s = Some (s', p)" "q = bindP p k" by auto
    with step.IH [OF 3(1) p(1)] show ?case by blast
  qed
qed (simp add: k)

lemma heeds_weaken:
  assumes "heeds Inv Can Over R p g" and "\<And>r g. R r g \<Longrightarrow> Q r g"
  shows "heeds Inv Can Over Q p g"
  using assms(1)
proof (induction rule: heeds.induct)
  case (step g f)
  show ?case
  proof (rule heeds.step)
    show "\<not> Over g" by (rule step.hyps(1))
    show "\<exists>ch. f ch s \<noteq> None" if "Inv s (add_mset g G)" "Can g s" for s G using step.hyps(2) that .
    show "\<exists>g'. Inv s' (add_mset g' G) \<and> heeds Inv Can Over Q p g'" if "Inv s (add_mset g G)" "f ch s = Some (s', p)" for s G ch s' p
      using step.IH [OF that] by blast
  qed
qed (rule heeds.halt, rule assms(2))

lemma heeds_actP:
  assumes "\<not> Over g"
    and "\<And>s G r s'. Inv s (add_mset g G) \<Longrightarrow> a s = (r, s') \<Longrightarrow> \<exists>g'. Inv s' (add_mset g' G) \<and> Q r g'"
  shows "heeds Inv Can Over Q (actP a) g"
  unfolding actP_def
proof (rule heeds.step, goal_cases)
  case (3 s G ch s' p)
  then obtain r where "a s = (r, s')" "p = Halt r" by (auto split: prod.splits)
  with assms(2) 3(1) show ?case by (auto simp: heeds_Halt)
qed (use assms(1) in \<open>auto split: prod.split\<close>)

lemma heeds_askP:
  assumes "\<not> Over g" and "\<And>s G. Inv s (add_mset g G) \<Longrightarrow> \<exists>g'. Inv s (add_mset g' G) \<and> Q (h s) g'"
  shows "heeds Inv Can Over Q (askP h) g"
  unfolding askP_def using assms by (intro heeds.step) (auto simp: heeds_Halt)

lemma heeds_doP:
  assumes "\<not> Over g" and "\<And>s G. Inv s (add_mset g G) \<Longrightarrow> Inv (h s) (add_mset g' G)" and "Q () g'"
  shows "heeds Inv Can Over Q (doP h) g"
  unfolding doP_def using assms by (intro heeds.step) (auto simp: heeds_Halt)

lemma heeds_awaitP:
  assumes "\<not> Over g" and "\<And>s. Can g s \<Longrightarrow> c s"
    and "\<And>s G. Inv s (add_mset g G) \<Longrightarrow> c s \<Longrightarrow> Inv (h s) (add_mset g' G)" and "Q () g'"
  shows "heeds Inv Can Over Q (awaitP c h) g"
  unfolding awaitP_def using assms by (intro heeds.step) (auto simp: heeds_Halt split: if_splits)

lemma heeds_eachP:
  assumes "\<And>x. x \<in> set xs \<Longrightarrow> heeds Inv Can Over (\<lambda>_ g'. g' = g) (f x) g" and "Q () g"
  shows "heeds Inv Can Over Q (eachP f xs) g"
  using assms
proof (induction xs)
  case (Cons x xs)
  have "heeds Inv Can Over Q (eachP f xs) g" using Cons by simp
  then show ?case unfolding eachP.simps by (intro heeds_bindP [OF Cons.prems(1)]) simp_all
qed (simp add: heeds_Halt)

text \<open>The tokens of a whole crowd.\<close>

definition crowdInv ::
  "('s \<Rightarrow> 'g multiset \<Rightarrow> bool) \<Rightarrow> ('g \<Rightarrow> 's \<Rightarrow> bool) \<Rightarrow> ('g \<Rightarrow> bool) \<Rightarrow> ('r \<Rightarrow> 'g \<Rightarrow> bool) \<Rightarrow> ('s, 'r) crowd \<Rightarrow> 'g list \<Rightarrow> bool" where
  "crowdInv Inv Can Over Q st gs \<longleftrightarrow> list_all2 (heeds Inv Can Over Q) (snd st) gs \<and> Inv (fst st) (mset gs)"

lemma crowdInv_step:
  assumes "crowdStep new st st'" and i: "crowdInv Inv Can Over Q st gs"
    and new: "\<And>p. new p \<Longrightarrow> heeds Inv Can Over Q p g0" and fresh: "\<And>s G. Inv s G \<Longrightarrow> Inv s (add_mset g0 G)"
  shows "\<exists>gs. crowdInv Inv Can Over Q st' gs"
  using assms(1)
proof cases
  case (arrive p s ps)
  with i new fresh have "crowdInv Inv Can Over Q st' (gs @ [g0])"
    by (simp add: crowdInv_def list_all2_appendI)
  then show ?thesis by blast
next
  case (move k ps f ch s s' p)
  with i have l: "list_all2 (heeds Inv Can Over Q) ps gs" "Inv s (mset gs)" by (simp_all add: crowdInv_def)
  then have "k < length gs" using move(3) by (simp add: list_all2_lengthD)
  then obtain G where G: "mset gs = G + {#gs ! k#}" "\<And>g. mset (gs[k := g]) = G + {#g#}"
    using mset_others by (metis add_right_imp_eq)
  have "heeds Inv Can Over Q (Step f) (gs ! k)" using list_all2_nthD [OF l(1) move(3)] move(4) by simp
  moreover have "Inv s (add_mset (gs ! k) G)" using l(2) G(1) by simp
  ultimately obtain g' where g': "Inv s' (add_mset g' G)" "heeds Inv Can Over Q p g'"
    using move(5) by (elim heeds_StepE) blast
  have "crowdInv Inv Can Over Q st' (gs[k := g'])"
    using move(2) l(1) g' G(2) by (simp add: crowdInv_def list_all2_update_cong)
  then show ?thesis by blast
qed

lemma crowdInv_run:
  assumes "crowdRun new st st'" and "crowdInv Inv Can Over Q st gs"
    and "\<And>p. new p \<Longrightarrow> heeds Inv Can Over Q p g0" and "\<And>s G. Inv s G \<Longrightarrow> Inv s (add_mset g0 G)"
  obtains gs where "crowdInv Inv Can Over Q st' gs"
proof -
  from assms(1) have "\<exists>gs. crowdInv Inv Can Over Q st' gs"
  proof (induction rule: rtranclp_induct)
    case base
    from assms(2) show ?case by blast
  next
    case (step y z)
    from step.IH obtain gs where "crowdInv Inv Can Over Q y gs" by blast
    from step.hyps(2) this assms(3,4) show ?case by (rule crowdInv_step)
  qed
  with that show ?thesis by blast
qed

lemma crowd_move:
  assumes "crowdInv Inv Can Over Q (s, ps) gs" and n: "i < length ps" and f: "ps ! i = Step f" and "Can (gs ! i) s"
  shows "\<exists>st'. crowdStep nobody (s, ps) st'"
proof -
  from assms(1) have l: "list_all2 (heeds Inv Can Over Q) ps gs" "Inv s (mset gs)" by (simp_all add: crowdInv_def)
  have h: "heeds Inv Can Over Q (Step f) (gs ! i)" using list_all2_nthD [OF l(1) n] unfolding f .
  have "gs ! i \<in># mset gs" using n l(1) by (simp add: list_all2_lengthD)
  then obtain G where "mset gs = add_mset (gs ! i) G" by (rule mset_add)
  then have "Inv s (add_mset (gs ! i) G)" using l(2) by simp
  with h assms(4) obtain ch where "f ch s \<noteq> None" by (elim heeds_StepE) blast
  then obtain s' p where "f ch s = Some (s', p)" by auto
  with f n crowdStep.move [of i ps f ch s s' p nobody] show ?thesis by blast
qed

text \<open>A process that can go on keeps the crowd from standing still.\<close>

lemma crowd_progress:
  assumes "crowdInv Inv Can Over Q (s, ps) gs" and "g \<in> set gs" and "Can g s" and "\<And>r. \<not> Q r g"
  shows "\<exists>st'. crowdStep nobody (s, ps) st'"
proof -
  from assms(2) obtain i where i: "i < length gs" "gs ! i = g" by (auto simp: in_set_conv_nth)
  from assms(1) have l: "list_all2 (heeds Inv Can Over Q) ps gs" by (simp add: crowdInv_def)
  then have n: "i < length ps" using i(1) by (simp add: list_all2_lengthD)
  have h: "heeds Inv Can Over Q (ps ! i) g" using list_all2_nthD [OF l n] unfolding i(2) .
  with assms(4) obtain f where "ps ! i = Step f" by (cases "ps ! i") (simp_all add: heeds_Halt)
  with crowd_move [OF assms(1) n] i(2) assms(3) show ?thesis by blast
qed

end
