(* ===== verification/Requests.thy ===== *)
theory Requests
  imports Provider Procs
begin

text \<open>
  The provider of \<^verbatim>\<open>internal/opnsense/provider.go\<close> under concurrent requests.  Each operation is a process on the
  shared provider and its two mutexes; its steps are the atomic loads and stores of the pending flag, the updates
  of single metrics, the calls of the client, and, for an apply, the steps of the goroutines of its
  phases.  An operation that has the provider to itself is the operation of \<open>Provider\<close>.
\<close>

record 'w shared =
  shProv :: "'w prov"
  applyMu :: bool
  reconfigureMu :: bool

definition onShared :: "('w prov \<Rightarrow> 'w prov) \<Rightarrow> 'w shared \<Rightarrow> 'w shared" where
  "onShared g s = s\<lparr>shProv := g (shProv s)\<rparr>"

type_synonym ('w, 'r) request = "('w shared, 'r) proc"

section \<open>Steps\<close>

definition callP :: "('w \<Rightarrow> 'r \<times> 'w) \<Rightarrow> ('w, 'r) request" where
  "callP call = actP (\<lambda>s. case call (world (shProv s)) of (r, w) \<Rightarrow> (r, onShared (\<lambda>p. p\<lparr>world := w\<rparr>) s))"

definition meterP :: "(metrics \<Rightarrow> metrics) \<Rightarrow> ('w, unit) request" where
  "meterP f = doP (onShared (meter f))"

definition lockApply :: "('w, unit) request" where
  "lockApply = awaitP (\<lambda>s. \<not> applyMu s) (\<lambda>s. s\<lparr>applyMu := True\<rparr>)"

definition unlockApply :: "('w, unit) request" where
  "unlockApply = doP (\<lambda>s. s\<lparr>applyMu := False\<rparr>)"

definition lockReconfigure :: "('w, unit) request" where
  "lockReconfigure = awaitP (\<lambda>s. \<not> reconfigureMu s) (\<lambda>s. s\<lparr>reconfigureMu := True\<rparr>)"

definition unlockReconfigure :: "('w, unit) request" where
  "unlockReconfigure = doP (\<lambda>s. s\<lparr>reconfigureMu := False\<rparr>)"

text \<open>\<^verbatim>\<open>setPending\<close> stores the flag and then sets the gauge.\<close>

definition storeP :: "bool \<Rightarrow> ('w, unit) request" where
  "storeP v = doP (onShared (\<lambda>p. p\<lparr>pending := v\<rparr>))"

definition setPendingP :: "bool \<Rightarrow> ('w, unit) request" where
  "setPendingP v = bindP (storeP v) (\<lambda>_. meterP (setGauge PendingReconfigure (if v then 1 else 0)))"

lemmas step_defs = callP_def meterP_def lockApply_def unlockApply_def lockReconfigure_def unlockReconfigure_def storeP_def

section \<open>The reload\<close>

definition reloadP :: "'w client \<Rightarrow> config \<Rightarrow> ('w, error option) request" where
  "reloadP c cfg =
     bindP (callP (cReconfigure c (CtxWithTimeout CtxBackground (cReconfigureTimeout cfg)))) (\<lambda>err.
     bindP (meterP (RecordReconfigure (err \<noteq> None))) (\<lambda>_.
     bindP (setPendingP (err \<noteq> None)) (\<lambda>_. Halt err)))"

definition reconfigureP :: "'w client \<Rightarrow> config \<Rightarrow> bool \<Rightarrow> ('w, error option) request" where
  "reconfigureP c cfg repair =
     bindP lockReconfigure (\<lambda>_.
     bindP (askP (\<lambda>s. repair \<and> \<not> pending (shProv s))) (\<lambda>idle.
     bindP (if idle then Halt None else reloadP c cfg) (\<lambda>err.
     bindP unlockReconfigure (\<lambda>_. Halt err))))"

section \<open>Reading, startup, readiness, adjusting\<close>

definition answerP :: "int \<Rightarrow> 'r result \<Rightarrow> ('w, 'r result) request" where
  "answerP now r = bindP (meterP (RecordOperation (isl r) now)) (\<lambda>_. Halt r)"

definition publishP :: "'m endpoint_scheme list \<Rightarrow> ('w, unit) request" where
  "publishP eps = eachP (\<lambda>rr. meterP (UpdateRecordsByType rr (countType eps rr))) publishedTypes"

definition recordsP ::
  "'w client \<Rightarrow> config \<Rightarrow> (string \<Rightarrow> string \<Rightarrow> int \<Rightarrow> string list \<Rightarrow> 'm endpoint_scheme) \<Rightarrow> int \<Rightarrow> ctx \<Rightarrow>
     ('w, 'm endpoint_scheme list result) request" where
  "recordsP c cfg newEndpoint now ctx =
     bindP (askP (\<lambda>s. pending (shProv s))) (\<lambda>behind.
     bindP (if behind then reconfigureP c cfg True else Halt None) (\<lambda>err.
     case err of
       Some e \<Rightarrow> answerP now (Inl (Wrap ''applying pending reconfigure before read'' e))
     | None \<Rightarrow>
         bindP (callP (cSnapshot c ctx)) (\<lambda>r.
         case r of
           Inl e \<Rightarrow> answerP now (Inl e)
         | Inr sn \<Rightarrow>
             bindP (meterP (setGauge RowsGauge (snTotal sn))) (\<lambda>_.
             bindP (publishP (Endpoints newEndpoint sn)) (\<lambda>_.
             answerP now (Inr (Endpoints newEndpoint sn)))))))"

definition servedStateCheckP :: "'w client \<Rightarrow> config \<Rightarrow> ctx \<Rightarrow> ('w, error option) request" where
  "servedStateCheckP c cfg ctx =
     bindP (callP (cSnapshot c ctx)) (\<lambda>r.
     case r of
       Inl e \<Rightarrow> Halt (Some e)
     | Inr sn \<Rightarrow>
         bindP (callP (cListLocalData c ctx)) (\<lambda>r.
         case r of
           Inl e \<Rightarrow> Halt (Some e)
         | Inr served \<Rightarrow>
             if unserved cfg served (map (deref sn) (snRows sn)) = [] then Halt None
             else bindP (setPendingP True) (\<lambda>_. reconfigureP c cfg False)))"

definition startupP :: "'w client \<Rightarrow> config \<Rightarrow> ctx \<Rightarrow> ('w, unit) request" where
  "startupP c cfg ctx =
     bindP (callP (cServiceStatus c (CtxWithTimeout ctx (cApplyTimeout cfg)))) (\<lambda>err.
     case err of
       Some e \<Rightarrow> Halt ()
     | None \<Rightarrow> bindP (servedStateCheckP c cfg (CtxWithTimeout ctx (cApplyTimeout cfg))) (\<lambda>_. Halt ()))"

definition readyP :: "'w client \<Rightarrow> ctx \<Rightarrow> ('w, error option) request" where
  "readyP c ctx =
     bindP (callP (cSearch c ctx 1 1)) (\<lambda>r. Halt (case r of Inl e \<Rightarrow> Some e | Inr _ \<Rightarrow> None))"

definition adjustP :: "config \<Rightarrow> 'm endpoint_scheme list \<Rightarrow> ('w, 'm endpoint_scheme list) request" where
  "adjustP cfg es =
     actP (\<lambda>s. case AdjustEndpoints cfg es (pmets (shProv s)) of (out, m) \<Rightarrow> (out, onShared (meter (\<lambda>_. m)) s))"

section \<open>Applying\<close>

text \<open>
  The goroutines of a phase work on the run of their apply and on the shared provider.  \<open>Break\<close> is the end of the
  apply once one of them has panicked.  In the program that is the end of the process, since nothing recovers the panic of
  a goroutine; here the apply goes on to answer \<open>Panicked\<close> and the other requests may go on too, which only adds
  behaviours.
\<close>

definition poolMove :: "('x \<Rightarrow> ('e, 's) task) \<Rightarrow> nat \<Rightarrow> choice \<Rightarrow> ('x, 'e, 's) pool \<Rightarrow> ('x, 'e, 's) pool option" where
  "poolMove body lim ch st =
     (case st of (s, xs, ts) \<Rightarrow>
        (case ch of
           Fork \<Rightarrow> (case xs of [] \<Rightarrow> None | x # xs \<Rightarrow> if length ts < lim then Some (s, xs, ts @ [body x]) else None)
         | Go i \<Rightarrow>
             (if i < length ts then
                (case ts ! i of
                   Return out \<Rightarrow> if out = Done then Some (s, xs, take i ts @ drop (Suc i) ts) else None
                 | Atom f \<Rightarrow> Some (fst (f s), xs, ts[i := snd (f s)]))
              else None)
         | Break \<Rightarrow> None))"

lemma poolMove_iff: "(\<exists>ch. poolMove body lim ch st = Some st') \<longleftrightarrow> poolStep body lim st st'"
proof
  assume "\<exists>ch. poolMove body lim ch st = Some st'"
  then obtain ch where "poolMove body lim ch st = Some st'" by blast
  then show "poolStep body lim st st'"
    by (cases st; cases ch) (auto simp: poolMove_def intro: poolStep.intros split: list.splits task.splits if_splits)
next
  assume "poolStep body lim st st'"
  then show "\<exists>ch. poolMove body lim ch st = Some st'"
  proof cases
    case (start ts s x xs)
    then show ?thesis by (intro exI [of _ Fork]) (simp add: poolMove_def)
  next
    case (move i ts f s xs)
    then show ?thesis by (intro exI [of _ "Go i"]) (simp add: poolMove_def)
  next
    case (leave i ts s xs)
    then show ?thesis by (intro exI [of _ "Go i"]) (simp add: poolMove_def)
  qed
qed

lemma poolMove_order: "poolMove body lim ch (s, xs, ts) = Some (s', xs', ts') \<Longrightarrow> ((xs', ts'), (xs, ts)) \<in> poolOrder"
  by (rule poolStep_order) (auto simp flip: poolMove_iff)

definition broken :: "('e, 's) task list \<Rightarrow> bool" where
  "broken ts \<longleftrightarrow> list_ex (\<lambda>t. case t of Return out \<Rightarrow> out \<noteq> Done | Atom f \<Rightarrow> False) ts"

lemma crashed_broken: "crashed (s, xs, ts) \<longleftrightarrow> broken ts"
proof -
  have "(case t of Return out \<Rightarrow> out \<noteq> Done | Atom f \<Rightarrow> False) \<longleftrightarrow> (\<exists>out. t = Return out \<and> out \<noteq> Done)" for t :: "('e, 's) task"
    by (cases t) auto
  then show ?thesis by (auto simp: crashed_def broken_def list_ex_iff)
qed

definition pull :: "'w shared \<Rightarrow> 'w applyRun \<Rightarrow> 'w applyRun" where
  "pull s run = run\<lparr>arP := shProv s\<rparr>"

definition push :: "'w applyRun \<Rightarrow> 'w shared \<Rightarrow> 'w shared" where
  "push run s = s\<lparr>shProv := arP run\<rparr>"

function groupP ::
  "('x \<Rightarrow> (error, 'w applyRun) task) \<Rightarrow> nat \<Rightarrow> 'w applyRun \<Rightarrow> 'x list \<Rightarrow> (error, 'w applyRun) task list \<Rightarrow>
     ('w, bool \<times> 'w applyRun) request" where
  "groupP body lim run xs ts =
     (if xs = [] \<and> ts = [] then Halt (True, run)
      else Step (\<lambda>ch s.
        if ch = Break then (if broken ts then Some (s, Halt (False, run)) else None)
        else (case poolMove body lim ch (pull s run, xs, ts) of
                None \<Rightarrow> None
              | Some (run', xs', ts') \<Rightarrow> Some (push run' s, groupP body lim run' xs' ts'))))"
  by pat_completeness auto
termination
  by (relation "inv_image poolOrder (\<lambda>(body, lim, run, xs, ts). (xs, ts))")
    (auto simp: wf_poolOrder dest: poolMove_order)

declare groupP.simps [simp del]

definition verifyP :: "'w client \<Rightarrow> ctx \<Rightarrow> 'w applyRun \<Rightarrow> ('w, nat \<times> 'w applyRun) request" where
  "verifyP c ctx run = actP (\<lambda>s. case verifyPhase c ctx (pull s run) of (n, run') \<Rightarrow> ((n, run'), push run' s))"

definition phaseP ::
  "nat \<Rightarrow> 'w client \<Rightarrow> config \<Rightarrow> ctx \<Rightarrow> rowKey list \<Rightarrow> nat \<Rightarrow> phase \<Rightarrow> nat list \<Rightarrow> 'w applyRun \<Rightarrow>
     ('w, nat list option \<times> 'w applyRun) request" where
  "phaseP lim c cfg ctx keys i ph failures run =
     (let sel = selected (phSelects ph) keys (arSets run)
      in if gatedOut ph failures then Halt (Some failures, fold markFailed sel run)
         else bindP (groupP (convergeKeyT c cfg (CtxGroup ctx) (phMode ph)) lim (startPhase run) sel []) (\<lambda>(ok, run1).
              if ok then bindP (verifyP c ctx run1) (\<lambda>(n, run2). Halt (Some (failures[i := failures ! i + phaseFailed run1 + n]), run2))
              else Halt (None, run1)))"

fun phasesP ::
  "nat \<Rightarrow> 'w client \<Rightarrow> config \<Rightarrow> ctx \<Rightarrow> rowKey list \<Rightarrow> nat \<Rightarrow> phase list \<Rightarrow> nat list \<Rightarrow> 'w applyRun \<Rightarrow>
     ('w, nat list option \<times> 'w applyRun) request" where
  "phasesP lim c cfg ctx keys i [] failures run = Halt (Some failures, run)"
| "phasesP lim c cfg ctx keys i (ph # phs) failures run =
     bindP (phaseP lim c cfg ctx keys i ph failures run) (\<lambda>(res, run').
     case res of
       None \<Rightarrow> Halt (None, run')
     | Some failures' \<Rightarrow> phasesP lim c cfg ctx keys (Suc i) phs failures' run')"

definition outcomeOf :: "error option \<Rightarrow> error outcome" where
  "outcomeOf err = (case err of None \<Rightarrow> Done | Some e \<Rightarrow> Fail e)"

definition finishP :: "'w client \<Rightarrow> config \<Rightarrow> 'w applyRun \<Rightarrow> ('w, error outcome) request" where
  "finishP c cfg run =
     bindP (if wrote run then Halt True else askP (\<lambda>s. pending (shProv s))) (\<lambda>due.
     bindP (if due then reconfigureP c cfg False else Halt None) (\<lambda>err.
     Halt (outcomeOf (joinErrors (arErrs run @ (case err of None \<Rightarrow> [] | Some e \<Rightarrow> [Wrap ''reconfigure'' e]))))))"

definition applyP ::
  "nat \<Rightarrow> 'w client \<Rightarrow> config \<Rightarrow> (rowKey list \<Rightarrow> rowKey list) \<Rightarrow> ctx \<Rightarrow> 'm changes \<Rightarrow> ('w, error outcome) request" where
  "applyP lim c cfg shuffle ctx ch =
     bindP (callP (cSnapshot c ctx)) (\<lambda>r.
     case r of
       Inl e \<Rightarrow> Halt (Fail e)
     | Inr sn \<Rightarrow>
         bindP (actP (\<lambda>s. let st = foldChanges cfg ch (pmets (shProv s)); run = beginRun sn st (shProv s) in ((st, run), push run s)))
           (\<lambda>(st, run).
         bindP (phasesP lim c cfg ctx (planKeys shuffle st) 0 applyPhases [length (fsRejected st), 0, 0, 0] run) (\<lambda>(res, run').
         if res = None then Halt Panicked else finishP c cfg run')))"

definition changesP ::
  "nat \<Rightarrow> 'w client \<Rightarrow> config \<Rightarrow> (rowKey list \<Rightarrow> rowKey list) \<Rightarrow> int \<Rightarrow> ctx \<Rightarrow> 'm changes \<Rightarrow> ('w, error outcome) request" where
  "changesP lim c cfg shuffle now ctx ch =
     bindP lockApply (\<lambda>_.
     bindP (applyP lim c cfg shuffle (applyCtx cfg ctx) ch) (\<lambda>out.
     bindP (meterP (inc ApplyDuration)) (\<lambda>_.
     bindP (meterP (RecordOperation (case out of Fail _ \<Rightarrow> True | _ \<Rightarrow> False) now)) (\<lambda>_.
     bindP unlockApply (\<lambda>_. Halt out)))))"

section \<open>A request with the provider to itself\<close>

lemma alone_callP [simp]:
  "alone (callP call) s r s' \<longleftrightarrow> (\<exists>w. call (world (shProv s)) = (r, w) \<and> s' = onShared (\<lambda>p. p\<lparr>world := w\<rparr>) s)"
  by (auto simp: callP_def split: prod.splits)

lemma alone_call_bind:
  "call (world (shProv s)) = (x, w) \<Longrightarrow> alone (bindP (callP call) k) s r s' \<longleftrightarrow> alone (k x) (onShared (\<lambda>p. p\<lparr>world := w\<rparr>) s) r s'"
  by simp

lemma alone_meterP [simp]: "alone (meterP f) s u s' \<longleftrightarrow> s' = onShared (meter f) s"
  by (simp add: meterP_def)

lemma shared_simps [simp]:
  "shProv (onShared g s) = g (shProv s)" "applyMu (onShared g s) = applyMu s" "reconfigureMu (onShared g s) = reconfigureMu s"
  "onShared g (onShared h s) = onShared (\<lambda>p. g (h p)) s"
  "onShared g (s\<lparr>reconfigureMu := b\<rparr>) = onShared g s\<lparr>reconfigureMu := b\<rparr>" "onShared g (s\<lparr>applyMu := b\<rparr>) = onShared g s\<lparr>applyMu := b\<rparr>"
  by (simp_all add: onShared_def)

lemma alone_reconfigureP:
  assumes "\<not> reconfigureMu s"
  shows "alone (reconfigureP c cfg repair) s r s' \<longleftrightarrow>
    (\<exists>p. reconfigure c cfg repair (shProv s) = (r, p) \<and> s' = s\<lparr>shProv := p\<rparr>)"
  using assms
  by (auto simp: reconfigureP_def reloadP_def setPendingP_def storeP_def lockReconfigure_def unlockReconfigure_def
        reconfigure_def Let_def onShared_def setPending_def split: prod.splits option.splits if_splits)

lemma pull_simps [simp]: "arP (pull s run) = shProv s" "shProv (push run s) = arP run" "push run' (push run s) = push run' s"
  "arP run = shProv s \<Longrightarrow> pull s run = run" "arP run = shProv s \<Longrightarrow> push run s = s" "pull (push run s) run = run"
  by (simp_all add: pull_def push_def)

lemma alone_groupP_run:
  "alone (groupP body lim run xs ts) s r s' \<Longrightarrow> arP run = shProv s \<Longrightarrow>
     \<exists>xs' ts'. poolRun body lim (run, xs, ts) (snd r, xs', ts') \<and> s' = push (snd r) s \<and>
       (if fst r then xs' = [] \<and> ts' = [] else crashed (snd r, xs', ts'))"
proof (induction body lim run xs ts arbitrary: s rule: groupP.induct)
  case (1 body lim run xs ts)
  show ?case
  proof (cases "xs = [] \<and> ts = []")
    case True
    with 1(2,3) show ?thesis by (auto simp: groupP.simps)
  next
    case False
    with 1(2) obtain ch s1 p where st: "(if ch = Break then (if broken ts then Some (s, Halt (False, run)) else None)
        else (case poolMove body lim ch (pull s run, xs, ts) of
                None \<Rightarrow> None
              | Some (run', xs', ts') \<Rightarrow> Some (push run' s, groupP body lim run' xs' ts'))) = Some (s1, p)" and p: "alone p s1 r s'"
      by (subst (asm) groupP.simps) (auto simp: alone_Step)
    show ?thesis
    proof (cases "ch = Break")
      case True
      with st p 1(3) show ?thesis
        by (intro exI [of _ xs] exI [of _ ts]) (auto simp: crashed_broken split: if_splits)
    next
      case ch: False
      with st obtain run1 xs1 ts1 where m: "poolMove body lim ch (pull s run, xs, ts) = Some (run1, xs1, ts1)"
        and e: "s1 = push run1 s" "p = groupP body lim run1 xs1 ts1" by (auto split: option.splits)
      from p e have "alone (groupP body lim run1 xs1 ts1) (push run1 s) r s'" by simp
      from 1(1) [OF False ch m refl refl this] obtain xs' ts' where r: "poolRun body lim (run1, xs1, ts1) (snd r, xs', ts')"
        "s' = push (snd r) (push run1 s)" "if fst r then xs' = [] \<and> ts' = [] else crashed (snd r, xs', ts')" by auto
      have "poolStep body lim (run, xs, ts) (run1, xs1, ts1)" using m 1(3) by (auto simp flip: poolMove_iff)
      with r(1) have "poolRun body lim (run, xs, ts) (snd r, xs', ts')" by (rule converse_rtranclp_into_rtranclp [rotated])
      with r(2,3) show ?thesis by (intro exI [of _ xs'] exI [of _ ts']) simp
    qed
  qed
qed

lemma alone_groupP_if:
  assumes "poolRun body lim st st'" and "st = (run, xs, ts)" and "st' = (run', xs', ts')" and "arP run = shProv s"
    and "if ok then xs' = [] \<and> ts' = [] else crashed (run', xs', ts')"
  shows "alone (groupP body lim run xs ts) s (ok, run') (push run' s)"
  using assms(1,2,4)
proof (induction arbitrary: run xs ts s rule: converse_rtranclp_induct)
  case base
  with assms(3) have e: "run' = run" "xs' = xs" "ts' = ts" by simp_all
  show ?case
  proof (cases ok)
    case True
    with e assms(5) base show ?thesis by (simp add: groupP.simps)
  next
    case False
    with e assms(5) have b: "broken ts" by (simp add: crashed_broken)
    then have "ts \<noteq> []" by (auto simp: broken_def)
    with b False e base show ?thesis by (subst groupP.simps) (auto simp: alone_Step intro!: exI [of _ Break])
  qed
next
  case (step y z)
  obtain run1 xs1 ts1 where z: "z = (run1, xs1, ts1)" by (cases z)
  from step.hyps(1) step.prems z obtain ch where m: "poolMove body lim ch (run, xs, ts) = Some (run1, xs1, ts1)"
    by (auto simp flip: poolMove_iff)
  have "alone (groupP body lim run1 xs1 ts1) (push run1 s) (ok, run') (push run' (push run1 s))"
    by (rule step.IH [OF z]) simp
  moreover have "ch \<noteq> Break" using m by (auto simp: poolMove_def)
  moreover have "\<not> (xs = [] \<and> ts = [])"
    using m by (auto simp: poolMove_def split: choice.splits if_splits)
  ultimately show ?case
    using m step.prems by (subst groupP.simps) (auto simp: alone_Step intro!: exI [of _ ch])
qed

lemma alone_groupP:
  assumes "arP run = shProv s"
  shows "alone (groupP body lim run xs []) s (ok, run') s' \<longleftrightarrow> s' = push run' s \<and>
    (\<exists>xs' ts'. poolRun body lim (run, xs, []) (run', xs', ts') \<and> (if ok then xs' = [] \<and> ts' = [] else crashed (run', xs', ts')))"
proof
  assume "alone (groupP body lim run xs []) s (ok, run') s'"
  from alone_groupP_run [OF this assms] show "s' = push run' s \<and>
    (\<exists>xs' ts'. poolRun body lim (run, xs, []) (run', xs', ts') \<and> (if ok then xs' = [] \<and> ts' = [] else crashed (run', xs', ts')))"
    unfolding fst_conv snd_conv by blast
next
  assume "s' = push run' s \<and>
    (\<exists>xs' ts'. poolRun body lim (run, xs, []) (run', xs', ts') \<and> (if ok then xs' = [] \<and> ts' = [] else crashed (run', xs', ts')))"
  then show "alone (groupP body lim run xs []) s (ok, run') s'" using alone_groupP_if [OF _ refl refl assms] by blast
qed

section \<open>Operations on their own\<close>

lemma verifyP_alone [simp]: "alone (verifyP c ctx run) s (n, run') s' \<longleftrightarrow> verifyPhase c ctx (pull s run) = (n, run') \<and> s' = push run' s"
  by (auto simp: verifyP_def split: prod.splits)

lemma arP_markFailed: "arP (fold markFailed ss run) = arP run"
  by (induction ss arbitrary: run) (simp_all add: markFailed_def)

lemma arP_startPhase [simp]: "arP (startPhase run) = arP run"
  by (simp add: startPhase_def)

lemma alone_phaseP:
  assumes "arP run = shProv s"
  shows "alone (phaseP lim c cfg ctx keys i ph F run) s (res, run') s' \<longleftrightarrow>
    phase_with lim c cfg ctx keys i ph F run res run' \<and> s' = push run' s"
proof (cases "gatedOut ph F")
  case True
  with assms show ?thesis
    by (auto simp: phaseP_def phase_with.simps arP_markFailed)
next
  case False
  let ?sel = "selected (phSelects ph) keys (arSets run)"
  have g: "alone (groupP (convergeKeyT c cfg (CtxGroup ctx) (phMode ph)) lim (startPhase run) ?sel []) s (ok, r1) s1 \<longleftrightarrow> s1 = push r1 s \<and>
    (\<exists>xs' ts'. poolRun (convergeKeyT c cfg (CtxGroup ctx) (phMode ph)) lim (startPhase run, ?sel, []) (r1, xs', ts') \<and>
      (if ok then xs' = [] \<and> ts' = [] else crashed (r1, xs', ts')))" for ok r1 s1
    by (rule alone_groupP) (simp add: assms)
  from False show ?thesis
    by (simp add: phaseP_def Let_def phase_with.simps split_paired_Ex g ex_bool_eq) blast
qed

lemma phases_with_alone:
  "alone (phasesP lim c cfg ctx keys i phs F run) s (res, run') s' \<longleftrightarrow>
    phases_with lim c cfg ctx keys i phs F run res run' \<and> s' = push run' s"
  if "arP run = shProv s"
  using that
proof (induction phs arbitrary: i F run s)
  case Nil
  then show ?case by (auto simp: phases_with_Nil)
next
  case (Cons ph phs)
  note p = alone_phaseP [OF Cons.prems]
  have g: "alone (phasesP lim c cfg ctx keys (Suc i) phs F' r1) (push r1 s) (res, run') s' \<longleftrightarrow>
    phases_with lim c cfg ctx keys (Suc i) phs F' r1 res run' \<and> s' = push run' s" for F' r1
    using Cons.IH [of r1 "push r1 s" "Suc i" F'] by simp
  show ?case
    by (simp add: split_paired_Ex split_option_ex p g phases_with_Cons conj_disj_distribL ex_disj_distrib) blast
qed

lemma alone_finishP:
  assumes "arP run = shProv s" and "\<not> reconfigureMu s"
  shows "alone (finishP c cfg run) s out s' \<longleftrightarrow>
    (\<exists>err p. finishApply c cfg run = (err, p) \<and> out = outcomeOf err \<and> s' = s\<lparr>shProv := p\<rparr>)"
proof (cases "wrote run \<or> pending (arP run)")
  case True
  obtain err p where r: "reconfigure c cfg False (shProv s) = (err, p)" by fastforce
  have "alone (finishP c cfg run) s out s' \<longleftrightarrow> s' = s\<lparr>shProv := p\<rparr> \<and>
      out = outcomeOf (joinErrors (arErrs run @ (case err of None \<Rightarrow> [] | Some e \<Rightarrow> [Wrap ''reconfigure'' e])))"
    using True assms r by (auto simp: finishP_def alone_reconfigureP)
  then show ?thesis
    using True assms r by (auto simp: finishApply_def Let_def addErr_def split: option.splits)
next
  case False
  with assms show ?thesis by (auto simp: finishP_def finishApply_def Let_def)
qed

lemma outcomeOf_applied: "applied c cfg (Some F) run = (out, p) \<longleftrightarrow> (\<exists>err. finishApply c cfg run = (err, p) \<and> out = outcomeOf err)"
  by (auto simp: applied_def outcomeOf_def split: prod.splits option.splits)

lemma alone_applyP:
  assumes "\<not> reconfigureMu s"
  shows "alone (applyP lim c cfg shuffle ctx ch) s out s' \<longleftrightarrow>
    (\<exists>p. apply_with lim c cfg shuffle ctx ch (shProv s) out p \<and> s' = s\<lparr>shProv := p\<rparr>)"
proof -
  obtain a w where a: "cSnapshot c ctx (world (shProv s)) = (a, w)" by fastforce
  show ?thesis
  proof (cases a)
    case (Inl e)
    with a show ?thesis by (auto simp: applyP_def apply_with_def onShared_def)
  next
    case (Inr sn)
    let ?st = "foldChanges cfg ch (pmets (shProv s))"
    let ?run = "beginRun sn ?st (shProv s\<lparr>world := w\<rparr>)"
    have e: "push r (onShared g s) = s\<lparr>shProv := arP r\<rparr>" for r and g by (simp add: push_def onShared_def)
    have ph: "alone (phasesP lim c cfg ctx keys 0 applyPhases F ?run) (s\<lparr>shProv := arP ?run\<rparr>) (res, r) s1 \<longleftrightarrow>
        phases_with lim c cfg ctx keys 0 applyPhases F ?run res r \<and> s1 = s\<lparr>shProv := arP r\<rparr>" for res r s1 keys F
      using phases_with_alone [of ?run "s\<lparr>shProv := arP ?run\<rparr>"] by (simp add: push_def)
    have f: "(if res = None then alone (Halt Panicked) (s\<lparr>shProv := arP r\<rparr>) out s' else alone (finishP c cfg r) (s\<lparr>shProv := arP r\<rparr>) out s') \<longleftrightarrow>
        (\<exists>p. applied c cfg res r = (out, p) \<and> s' = s\<lparr>shProv := p\<rparr>)" for res r
      using assms alone_finishP [of r "s\<lparr>shProv := arP r\<rparr>"]
      by (cases res) (auto simp: outcomeOf_applied, auto simp: applied_def)
    have st: "beginRun sn (foldChanges cfg ch (pmets (shProv (onShared (\<lambda>p. p\<lparr>world := w\<rparr>) s)))) (shProv (onShared (\<lambda>p. p\<lparr>world := w\<rparr>) s)) = ?run"
      by simp
    from a Inr have "alone (applyP lim c cfg shuffle ctx ch) s out s' \<longleftrightarrow>
      (\<exists>res r. phases_with lim c cfg ctx (planKeys shuffle ?st) 0 applyPhases [length (fsRejected ?st), 0, 0, 0] ?run res r \<and>
        (if res = None then alone (Halt Panicked) (s\<lparr>shProv := arP r\<rparr>) out s' else alone (finishP c cfg r) (s\<lparr>shProv := arP r\<rparr>) out s'))"
      by (simp add: applyP_def Let_def split_paired_Ex e ph if_distrib [where f = "\<lambda>p. alone p _ _ _"] cong: if_cong)
    also have "\<dots> \<longleftrightarrow> (\<exists>p. apply_with lim c cfg shuffle ctx ch (shProv s) out p \<and> s' = s\<lparr>shProv := p\<rparr>)"
      using a Inr by (auto simp: apply_with_def Let_def f)
    finally show ?thesis .
  qed
qed

lemma alone_changesP:
  assumes "\<not> applyMu s" "\<not> reconfigureMu s"
  shows "alone (changesP lim c cfg shuffle now ctx ch) s out s' \<longleftrightarrow>
    (\<exists>p. changes_with lim c cfg shuffle now ctx ch (shProv s) out p \<and> s' = s\<lparr>shProv := p\<rparr>)"
proof -
  have a: "alone (applyP lim c cfg shuffle (applyCtx cfg ctx) ch) (s\<lparr>applyMu := True\<rparr>) out s1 \<longleftrightarrow>
      (\<exists>q. apply_with lim c cfg shuffle (applyCtx cfg ctx) ch (shProv s) out q \<and> s1 = s\<lparr>applyMu := True, shProv := q\<rparr>)" for out s1
    using alone_applyP [of "s\<lparr>applyMu := True\<rparr>"] assms(2) by simp
  show ?thesis
    using assms(1)
    by (auto simp: changesP_def lockApply_def unlockApply_def a changes_with_def recordOp_def onShared_def)
qed

lemma alone_answerP [simp]: "alone (answerP now r) s a s' \<longleftrightarrow> a = r \<and> s' = onShared (recordOp now (isl r)) s"
  by (auto simp: answerP_def recordOp_def)

lemma fold_onShared: "fold (\<lambda>x. onShared (meter (f x))) xs s = onShared (meter (fold f xs)) s"
  by (induction xs arbitrary: s) (simp_all add: onShared_def meter_def)

lemma alone_publishP [simp]:
  "alone (publishP eps) s u s' \<longleftrightarrow> s' = onShared (meter (fold (\<lambda>rr. UpdateRecordsByType rr (countType eps rr)) publishedTypes)) s"
  unfolding publishP_def meterP_def by (simp add: alone_eachP fold_onShared)

lemma alone_recordsP:
  assumes "\<not> reconfigureMu s"
  shows "alone (recordsP c cfg newEndpoint now ctx) s r s' \<longleftrightarrow>
    (\<exists>p. Records c cfg newEndpoint now ctx (shProv s) = (r, p) \<and> s' = s\<lparr>shProv := p\<rparr>)"
proof -
  obtain err p1 where r: "(if pending (shProv s) then reconfigure c cfg True (shProv s) else (None, shProv s)) = (err, p1)" by fastforce
  have "alone (if pending (shProv s) then reconfigureP c cfg True else Halt None) s e s1 \<longleftrightarrow> e = err \<and> s1 = s\<lparr>shProv := p1\<rparr>" for e s1
    using r assms by (auto simp: alone_reconfigureP)
  then have s1: "alone (recordsP c cfg newEndpoint now ctx) s r s' \<longleftrightarrow>
    alone (case err of Some e \<Rightarrow> answerP now (Inl (Wrap ''applying pending reconfigure before read'' e))
     | None \<Rightarrow> bindP (callP (cSnapshot c ctx)) (\<lambda>r. case r of Inl e \<Rightarrow> answerP now (Inl e)
         | Inr sn \<Rightarrow> bindP (meterP (setGauge RowsGauge (snTotal sn))) (\<lambda>_.
             bindP (publishP (Endpoints newEndpoint sn)) (\<lambda>_. answerP now (Inr (Endpoints newEndpoint sn)))))) (s\<lparr>shProv := p1\<rparr>) r s'"
    by (simp add: recordsP_def)
  obtain a w where a: "cSnapshot c ctx (world p1) = (a, w)" by fastforce
  then have a': "alone (bindP (callP (cSnapshot c ctx)) k) (s\<lparr>shProv := p1\<rparr>) r s' \<longleftrightarrow>
      alone (k a) (onShared (\<lambda>p. p\<lparr>world := w\<rparr>) (s\<lparr>shProv := p1\<rparr>)) r s'" for k :: "_ \<Rightarrow> ('a, 'b endpoint_scheme list result) request"
    by (intro alone_call_bind) simp
  show ?thesis
    using r a unfolding s1
    by (cases err; cases a) (auto simp: a' Records_def readRecords_def Let_def onShared_def recordOp_def)
qed

lemma alone_setPendingP [simp]: "alone (setPendingP v) s u s' \<longleftrightarrow> s' = onShared (setPending v) s"
  by (simp add: setPendingP_def storeP_def setPending_def onShared_def)

lemma alone_servedStateCheckP:
  assumes "\<not> reconfigureMu s"
  shows "alone (servedStateCheckP c cfg ctx) s r s' \<longleftrightarrow>
    (\<exists>p. servedStateCheck c cfg ctx (shProv s) = (r, p) \<and> s' = s\<lparr>shProv := p\<rparr>)"
proof -
  obtain a w where a: "cSnapshot c ctx (world (shProv s)) = (a, w)" by fastforce
  obtain b v where b: "cListLocalData c ctx w = (b, v)" by fastforce
  then have b': "cListLocalData c ctx (world (shProv (onShared (\<lambda>p. p\<lparr>world := w\<rparr>) s))) = (b, v)" by simp
  show ?thesis
    using a b assms
    by (cases a; cases b) (auto simp: servedStateCheckP_def alone_call_bind [where call = "cSnapshot c ctx", OF a] alone_call_bind [where call = "cListLocalData c ctx", OF b']
        servedStateCheck_def Let_def alone_reconfigureP onShared_def)
qed

lemma alone_startupP:
  assumes "\<not> reconfigureMu s"
  shows "alone (startupP c cfg ctx) s u s' \<longleftrightarrow> s' = s\<lparr>shProv := Startup c cfg ctx (shProv s)\<rparr>"
proof -
  obtain a w where a: "cServiceStatus c (CtxWithTimeout ctx (cApplyTimeout cfg)) (world (shProv s)) = (a, w)" by fastforce
  obtain e p where p: "servedStateCheck c cfg (CtxWithTimeout ctx (cApplyTimeout cfg)) (shProv s\<lparr>world := w\<rparr>) = (e, p)" by fastforce
  have "alone (servedStateCheckP c cfg (CtxWithTimeout ctx (cApplyTimeout cfg))) (onShared (\<lambda>p. p\<lparr>world := w\<rparr>) s) r s' \<longleftrightarrow>
      r = e \<and> s' = s\<lparr>shProv := p\<rparr>" for r
    using assms p by (subst alone_servedStateCheckP) (auto simp: onShared_def)
  with a p show ?thesis
    by (cases a) (auto simp: startupP_def Startup_def Let_def onShared_def
        alone_call_bind [where call = "cServiceStatus c (CtxWithTimeout ctx (cApplyTimeout cfg))", OF a])
qed

text \<open>C40: A request that has the provider to itself is the sequential operation: with both mutexes free, the processes
of a read, an apply with any number of workers, a startup check, a readiness probe and an adjustment, run
from lock to unlock with nobody in between, return what the operations return and leave the provider as they leave it,
mutexes free.\<close>

theorem alone_is_sequential:
  assumes "\<not> applyMu s" and "\<not> reconfigureMu s"
  shows "(alone (recordsP c cfg newEndpoint now ctx) s eps s' \<longleftrightarrow>
      (\<exists>p. Records c cfg newEndpoint now ctx (shProv s) = (eps, p) \<and> s' = s\<lparr>shProv := p\<rparr>)) \<and>
    (alone (changesP lim c cfg shuffle now ctx ch) s out s' \<longleftrightarrow>
      (\<exists>p. changes_with lim c cfg shuffle now ctx ch (shProv s) out p \<and> s' = s\<lparr>shProv := p\<rparr>)) \<and>
    (alone (startupP c cfg ctx) s u s' \<longleftrightarrow> s' = s\<lparr>shProv := Startup c cfg ctx (shProv s)\<rparr>) \<and>
    (alone (readyP c ctx) s err s' \<longleftrightarrow> (\<exists>p. Ready c ctx (shProv s) = (err, p) \<and> s' = s\<lparr>shProv := p\<rparr>)) \<and>
    (alone (adjustP cfg es) s good s' \<longleftrightarrow>
      (\<exists>m. AdjustEndpoints cfg es (pmets (shProv s)) = (good, m) \<and> s' = s\<lparr>shProv := meter (\<lambda>_. m) (shProv s)\<rparr>))"
proof (intro conjI)
  obtain a w where a: "cSearch c ctx 1 1 (world (shProv s)) = (a, w)" by fastforce
  then show "alone (readyP c ctx) s err s' \<longleftrightarrow> (\<exists>p. Ready c ctx (shProv s) = (err, p) \<and> s' = s\<lparr>shProv := p\<rparr>)"
    by (cases a) (auto simp: readyP_def alone_call_bind Ready_def onShared_def)
  show "alone (adjustP cfg es) s good s' \<longleftrightarrow>
      (\<exists>m. AdjustEndpoints cfg es (pmets (shProv s)) = (good, m) \<and> s' = s\<lparr>shProv := meter (\<lambda>_. m) (shProv s)\<rparr>)"
    by (auto simp: adjustP_def onShared_def split: prod.splits)
qed (rule alone_recordsP alone_changesP alone_startupP, (rule assms)+)+

end
