(* ===== verification/Crowd.thy ===== *)
theory Crowd
  imports Lifecycle Requests
begin

text \<open>
  Concurrent requests and the reload bookkeeping.  Each request holds a token that says whether it still owes a reload
  and how far it is with one; the invariant \<open>crowdOk\<close> ties the tokens to the mutexes, the pending flag, its gauge
  and the log of the client's calls.  It holds under any interleaving of any number of requests.
\<close>

section \<open>Tokens\<close>

datatype role = Asking | Owing | Applying bool | Finishing | Crashing | Crashed
datatype hold = Free | Inside | Reloaded | Refused | Stored bool

type_synonym token = "role \<times> hold"

fun holding :: "token \<Rightarrow> bool" where
  "holding (r, h) \<longleftrightarrow> h \<noteq> Free"

fun applying :: "token \<Rightarrow> bool" where
  "applying (Applying w, h) \<longleftrightarrow> True"
| "applying (Finishing, h) \<longleftrightarrow> True"
| "applying (Crashing, h) \<longleftrightarrow> True"
| "applying _ \<longleftrightarrow> False"

text \<open>Who will still store the flag after a reload of its own, or never will.\<close>

fun owes :: "token \<Rightarrow> bool" where
  "owes (Owing, h) \<longleftrightarrow> True"
| "owes (Applying w, h) \<longleftrightarrow> w"
| "owes (Crashing, h) \<longleftrightarrow> True"
| "owes (Crashed, h) \<longleftrightarrow> True"
| "owes _ \<longleftrightarrow> False"

text \<open>Who answers for writes the flag may not show.\<close>

fun covers :: "token \<Rightarrow> bool" where
  "covers (Applying w, h) \<longleftrightarrow> w \<and> h \<noteq> Reloaded"
| "covers (Crashing, h) \<longleftrightarrow> True"
| "covers (Crashed, h) \<longleftrightarrow> True"
| "covers _ \<longleftrightarrow> False"

fun gone :: "token \<Rightarrow> bool" where
  "gone (r, h) \<longleftrightarrow> r = Crashed"

text \<open>The role after a reload of one's own.\<close>

fun settle :: "role \<Rightarrow> role" where
  "settle Owing = Asking"
| "settle (Applying w) = Finishing"
| "settle r = r"

type_synonym 'w logShared = "('w \<times> call list) shared"

definition behind :: "'w logShared \<Rightarrow> bool" where
  "behind s \<longleftrightarrow> dirty (snd (world (shProv s)))"

text \<open>Nobody has passed a free mutex, one holder a locked one.\<close>

definition mutex :: "(token \<Rightarrow> bool) \<Rightarrow> bool \<Rightarrow> token multiset \<Rightarrow> bool" where
  "mutex P locked G \<longleftrightarrow> size (filter_mset P G) = of_bool locked"

lemma mutex_free [simp]: "mutex P False G \<longleftrightarrow> (\<forall>g \<in># G. \<not> P g)"
  by (simp add: mutex_def Ball_def)

lemma mutex_add [simp]:
  "mutex P locked (add_mset g G) \<longleftrightarrow> (if P g then locked \<and> (\<forall>g' \<in># G. \<not> P g') else mutex P locked G)"
  by (auto simp: mutex_def)

definition crowdOk :: "'w logShared \<Rightarrow> token multiset \<Rightarrow> bool" where
  "crowdOk s G \<longleftrightarrow>
     mutex holding (reconfigureMu s) G \<and> mutex applying (applyMu s) G \<and>
     (behind s \<longrightarrow> pending (shProv s) \<and> (\<forall>g \<in># G. snd g \<noteq> Reloaded) \<or> (\<exists>g \<in># G. covers g)) \<and>
     (gaugeOk (shProv s) \<or> (\<exists>g \<in># G. owes g \<or> (\<exists>v. snd g = Stored v))) \<and>
     (\<forall>g \<in># G. \<forall>v. snd g = Stored v \<longrightarrow> pending (shProv s) = v \<or> (\<exists>g' \<in># G. owes g'))"

text \<open>A process can go on if the mutexes it might wait for are free.\<close>

fun canGo :: "token \<Rightarrow> 'w shared \<Rightarrow> bool" where
  "canGo (r, h) s \<longleftrightarrow> (h = Free \<longrightarrow> \<not> reconfigureMu s \<and> (r = Asking \<longrightarrow> \<not> applyMu s))"

abbreviation abides :: "('r \<Rightarrow> token \<Rightarrow> bool) \<Rightarrow> ('w \<times> call list, 'r) request \<Rightarrow> token \<Rightarrow> bool" where
  "abides \<equiv> heeds crowdOk canGo gone"

lemmas abides_actP = heeds_actP [where Inv = crowdOk and Can = canGo and Over = gone]
lemmas abides_askP = heeds_askP [where Inv = crowdOk and Can = canGo and Over = gone]
lemmas abides_doP = heeds_doP [where Inv = crowdOk and Can = canGo and Over = gone]
lemmas abides_awaitP = heeds_awaitP [where Inv = crowdOk and Can = canGo and Over = gone]

section \<open>Steps that keep the bookkeeping\<close>

text \<open>A step outside the bookkeeping, and an exchange of tokens.\<close>

definition same :: "'w logShared \<Rightarrow> 'w logShared \<Rightarrow> bool" where
  "same s s' \<longleftrightarrow> behind s' = behind s \<and> pending (shProv s') = pending (shProv s) \<and>
     pmets (shProv s') PendingReconfigure = pmets (shProv s) PendingReconfigure \<and>
     applyMu s' = applyMu s \<and> reconfigureMu s' = reconfigureMu s"

lemma crowdOk_same: "crowdOk s G \<Longrightarrow> same s s' \<Longrightarrow> crowdOk s' G"
  by (simp add: crowdOk_def same_def gaugeOk_def)

lemma same_refl [simp]: "same s s"
  by (simp add: same_def)

lemma same_meter [intro]: "keepsGauge f \<Longrightarrow> same s (onShared (meter f) s)"
  by (simp add: same_def keepsGauge_def behind_def)

lemma crowdOk_swap:
  assumes "crowdOk s (add_mset g G)" and "holding g' = holding g" "applying g' = applying g"
    and "covers g \<Longrightarrow> covers g'" "owes g \<Longrightarrow> owes g'" "snd g' = snd g"
  shows "crowdOk s (add_mset g' G)"
proof -
  have "mutex holding (reconfigureMu s) (add_mset g' G)" "mutex applying (applyMu s) (add_mset g' G)"
    using assms by (simp_all add: crowdOk_def split: if_splits)
  moreover have "behind s \<longrightarrow> pending (shProv s) \<and> (\<forall>g \<in># add_mset g' G. snd g \<noteq> Reloaded) \<or> (\<exists>g \<in># add_mset g' G. covers g)"
    using assms(1,4,6) unfolding crowdOk_def by auto
  moreover have "gaugeOk (shProv s) \<or> (\<exists>g \<in># add_mset g' G. owes g \<or> (\<exists>v. snd g = Stored v))"
    using assms(1,5,6) unfolding crowdOk_def by auto
  moreover have "\<forall>h \<in># add_mset g' G. \<forall>v. snd h = Stored v \<longrightarrow> pending (shProv s) = v \<or> (\<exists>g' \<in># add_mset g' G. owes g')"
    using assms(1,5,6) unfolding crowdOk_def by auto
  ultimately show ?thesis unfolding crowdOk_def by blast
qed

lemma alone_holding: "crowdOk s (add_mset (r, h) G) \<Longrightarrow> h \<noteq> Free \<Longrightarrow> reconfigureMu s \<and> (\<forall>g \<in># G. \<not> holding g)"
  by (cases "reconfigureMu s") (auto simp: crowdOk_def)

lemma alone_applying: "crowdOk s (add_mset g G) \<Longrightarrow> applying g \<Longrightarrow> applyMu s \<and> (\<forall>g \<in># G. \<not> applying g)"
  by (cases "applyMu s") (auto simp: crowdOk_def)

text \<open>The mutexes.\<close>

lemma crowdOk_lockReconfigure:
  assumes "crowdOk s (add_mset (r, Free) G)" and "\<not> reconfigureMu s"
  shows "crowdOk (s\<lparr>reconfigureMu := True\<rparr>) (add_mset (r, Inside) G)"
proof -
  have "covers (r, Free) = covers (r, Inside)" "owes (r, Free) = owes (r, Inside)" "applying (r, Free) = applying (r, Inside)"
    by (cases r; simp)+
  with assms show ?thesis by (auto simp: crowdOk_def behind_def)
qed

lemma crowdOk_unlockReconfigure:
  assumes "crowdOk s (add_mset (r, Inside) G)"
  shows "crowdOk (s\<lparr>reconfigureMu := False\<rparr>) (add_mset (r, Free) G)"
proof -
  have "covers (r, Free) = covers (r, Inside)" "owes (r, Free) = owes (r, Inside)" "applying (r, Free) = applying (r, Inside)"
    by (cases r; simp)+
  moreover have "reconfigureMu s" using alone_holding [OF assms] by simp
  ultimately show ?thesis using assms by (auto simp: crowdOk_def behind_def)
qed

lemma crowdOk_lockApply:
  assumes "crowdOk s (add_mset (Asking, Free) G)" and "\<not> applyMu s"
  shows "crowdOk (s\<lparr>applyMu := True\<rparr>) (add_mset (Applying False, Free) G)"
  using assms by (auto simp: crowdOk_def behind_def)

lemma crowdOk_unlockApply:
  assumes "crowdOk s (add_mset (Finishing, Free) G)"
  shows "crowdOk (s\<lparr>applyMu := False\<rparr>) (add_mset (Asking, Free) G)"
  using assms alone_applying [OF assms] by (auto simp: crowdOk_def behind_def)

lemma crowdOk_unlockCrash:
  assumes "crowdOk s (add_mset (Crashing, Free) G)"
  shows "crowdOk (s\<lparr>applyMu := False\<rparr>) (add_mset (Crashed, Free) G)"
  using assms alone_applying [OF assms] by (auto simp: crowdOk_def behind_def)

text \<open>The reload: the call, the store and the gauge.\<close>

lemma crowdOk_reload:
  assumes "crowdOk s (add_mset (r, Inside) G)" and "\<not> gone (r, h)"
    and "snd (world (shProv s')) = snd (world (shProv s)) @ [CallReload e]" and "pending (shProv s') = pending (shProv s)"
    and "pmets (shProv s') = pmets (shProv s)" "applyMu s' = applyMu s" "reconfigureMu s' = reconfigureMu s"
  shows "crowdOk s' (add_mset (r, if e = None then Reloaded else Refused) G)"
proof -
  have "covers (r, Inside) = covers (r, Refused)" "owes (r, Inside) = owes (r, Reloaded)" "owes (r, Inside) = owes (r, Refused)"
    "applying (r, Inside) = applying (r, Reloaded)" "applying (r, Inside) = applying (r, Refused)"
    by (cases r; simp)+
  with assms show ?thesis by (cases e) (auto simp: crowdOk_def behind_def gaugeOk_def)
qed

lemma crowdOk_store:
  assumes "crowdOk s (add_mset (r, if v then Refused else Reloaded) G)" and "r \<in> {Asking, Owing, Applying w}"
  shows "crowdOk (onShared (\<lambda>p. p\<lparr>pending := v\<rparr>) s) (add_mset (settle r, Stored v) G)"
proof -
  have "reconfigureMu s \<and> (\<forall>g \<in># G. \<not> holding g)" by (rule alone_holding [OF assms(1)]) simp
  then have f: "\<forall>g \<in># G. snd g = Free" by auto
  with assms show ?thesis by (cases v) (auto simp: crowdOk_def behind_def)
qed

lemma crowdOk_gauge:
  assumes "crowdOk s (add_mset (r, Stored v) G)"
  shows "crowdOk (onShared (meter (setGauge PendingReconfigure (if v then 1 else 0))) s) (add_mset (r, Inside) G)"
proof -
  have "covers (r, Inside) = covers (r, Stored v)" "owes (r, Inside) = owes (r, Stored v)" "applying (r, Inside) = applying (r, Stored v)"
    by (cases r; simp)+
  moreover have "\<forall>g \<in># G. snd g = Free" using alone_holding [OF assms] by auto
  ultimately show ?thesis
    using assms by (auto simp: crowdOk_def behind_def gaugeOk_def setGauge_def)
qed

text \<open>Raising the flag outside the mutex, as the startup check and the first write of an apply do.\<close>

lemma crowdOk_raise:
  assumes "crowdOk s (add_mset (r, Free) G)" and "owes (r', Free)" "applying (r', Free) = applying (r, Free)"
    and "covers (r, Free) \<Longrightarrow> covers (r', Free)"
    and "behind s' = behind s" "pending (shProv s')" "applyMu s' = applyMu s" "reconfigureMu s' = reconfigureMu s"
  shows "crowdOk s' (add_mset (r', Free) G)"
  using assms by (auto simp: crowdOk_def)

text \<open>A write of an apply that has raised it.\<close>

lemma crowdOk_write:
  assumes "crowdOk s (add_mset (Applying True, Free) G)"
    and "pending (shProv s') = pending (shProv s)" "pmets (shProv s') PendingReconfigure = pmets (shProv s) PendingReconfigure"
      "applyMu s' = applyMu s" "reconfigureMu s' = reconfigureMu s"
  shows "crowdOk s' (add_mset (Applying True, Free) G)"
  using assms by (auto simp: crowdOk_def gaugeOk_def)

section \<open>The goroutines of an apply\<close>

text \<open>
  What a goroutine may do to the shared provider at each step: raise the flag with \<open>markWrite\<close>, or leave flag and gauge
  alone; and call the firewall only after it has raised the flag.
\<close>

definition polite :: "bool \<Rightarrow> ('w \<times> call list) applyRun \<Rightarrow> ('w \<times> call list) applyRun \<Rightarrow> bool \<Rightarrow> bool" where
  "polite raised run run' raised' \<longleftrightarrow>
     run' = markWrite run \<and> raised' \<or>
     raised' = raised \<and> wrote run' = wrote run \<and> pending (arP run') = pending (arP run) \<and>
     pmets (arP run') PendingReconfigure = pmets (arP run) PendingReconfigure \<and>
     (raised \<or> snd (world (arP run')) = snd (world (arP run)))"

inductive mannerly :: "(error, ('w \<times> call list) applyRun) task \<Rightarrow> bool \<Rightarrow> bool" where
  return: "mannerly (Return out) raised"
| atom: "(\<And>run. \<exists>raised'. polite raised run (fst (f run)) raised' \<and> mannerly (snd (f run)) raised') \<Longrightarrow>
     mannerly (Atom f) raised"

inductive_cases mannerly_AtomE: "mannerly (Atom f) raised"

lemma polite_raised: "polite False run run' raised' \<Longrightarrow> polite True run run' True"
  by (auto simp: polite_def)

lemma mannerly_raised: "mannerly t raised \<Longrightarrow> \<not> raised \<Longrightarrow> mannerly t True"
proof (induction rule: mannerly.induct)
  case (atom raised f)
  have "\<exists>b. polite True run (fst (f run)) b \<and> mannerly (snd (f run)) b" for run
    using atom(1) [of run] atom(2) polite_raised [of run "fst (f run)"] by (metis (full_types))
  then show ?case by (rule mannerly.atom)
qed (rule mannerly.return)

lemma mannerly_mono: "mannerly t False \<Longrightarrow> mannerly t raised"
  by (cases raised) (auto dest: mannerly_raised)

lemma mannerly_bindT:
  assumes "mannerly t raised" and "mannerly b False"
  shows "mannerly (bindT t b) raised"
  using assms(1)
proof (induction rule: mannerly.induct)
  case (return out raised)
  show ?case using mannerly_mono [OF assms(2)] by (simp add: mannerly.return)
next
  case (atom raised f)
  show ?case
    unfolding bindT.simps
  proof (rule mannerly.atom)
    fix run show "\<exists>b'. polite raised run (fst (map_prod id (\<lambda>t. bindT t b) (f run))) b' \<and>
      mannerly (snd (map_prod id (\<lambda>t. bindT t b) (f run))) b'"
      using atom [of run] by auto
  qed
qed

lemma mannerly_eachT: "(\<And>x. mannerly (f x) False) \<Longrightarrow> mannerly (eachT f xs) False"
  by (induction xs) (auto intro: mannerly.return mannerly_bindT)

lemma mannerly_readT: "(\<And>run. mannerly (k run) raised) \<Longrightarrow> mannerly (readT k) raised"
  unfolding readT_def by (rule mannerly.atom) (auto simp: polite_def)

lemma mannerly_doT: "(\<And>run. polite raised run (h run) raised) \<Longrightarrow> mannerly (doT h) raised"
  unfolding doT_def by (rule mannerly.atom) (auto intro: mannerly.return)

lemma mannerly_mark: "mannerly b True \<Longrightarrow> mannerly (bindT (doT markWrite) b) raised"
  unfolding doT_def by (auto intro!: mannerly.atom simp: polite_def)

lemma mannerly_callT: "(\<And>r. mannerly (k r) True) \<Longrightarrow> mannerly (callT call k) True"
  unfolding callT_def by (rule mannerly.atom) (auto simp: polite_def putWorld_def onProv_def split: prod.split)

lemma mannerly_catchT:
  assumes "mannerly t raised" and "\<And>e run raised. polite raised run (h e run) raised"
  shows "mannerly (catchT t h) raised"
  using assms(1)
proof (induction rule: mannerly.induct)
  case (return out raised)
  show ?case by (cases out) (auto intro!: mannerly.intros assms(2))
next
  case (atom raised f)
  show ?case
    unfolding catchT.simps
  proof (rule mannerly.atom)
    fix run show "\<exists>b'. polite raised run (fst (map_prod id (\<lambda>t. catchT t h) (f run))) b' \<and>
      mannerly (snd (map_prod id (\<lambda>t. catchT t h) (f run))) b'"
      using atom [of run] by auto
  qed
qed

lemma polite_meter: "keepsGauge f \<Longrightarrow> polite raised run (onProv (meter f) run) raised"
  by (simp add: polite_def onProv_def keepsGauge_def)

lemma polite_local:
  "polite raised run (recordWrite op k u f run) raised" "polite raised run (addRow r run) raised"
  "polite raised run (removeRow k u run) raised" "polite raised run (failSet s e run) raised"
  by (simp_all add: polite_def recordWrite_def addRow_def removeRow_def failSet_def)

lemmas mannerly_rules = mannerly_bindT mannerly_readT mannerly_doT mannerly_mark mannerly_callT mannerly.return
  polite_meter polite_local keepsGauge_simps

lemma mannerly_setRowT: "mannerly (setRowT c ctx k p f t) raised"
proof -
  have r: "mannerly (actT (retarget k p f)) True"
    unfolding actT_def by (rule mannerly.atom) (auto simp: retarget_def polite_def intro: mannerly.return)
  show ?thesis
    unfolding setRowT_def Let_def
    by (intro mannerly_mark mannerly_readT mannerly_callT) (auto split: option.split intro!: mannerly_rules r)
qed

lemma mannerly_createRowT: "mannerly (createRowT c ctx k f t) raised"
  unfolding createRowT_def by (intro mannerly_mark mannerly_callT) (auto split: sum.split intro!: mannerly_rules)

lemma mannerly_removeOneT: "mannerly (removeOneT c ctx s p) raised"
proof -
  have "mannerly (if b then doT (onProv (meter (RecordChange changeDelete rr))) else Return Done) False" for b rr
    by (auto intro!: mannerly_rules)
  then have rec: "mannerly (bindT (doT (removeRow k u)) (bindT (doT (recordWrite changeDelete k u zeroFields))
      (if b then doT (onProv (meter (RecordChange changeDelete rr))) else Return Done))) True" for k u b rr
    by (intro mannerly_bindT mannerly_doT polite_local)
  show ?thesis
    unfolding removeOneT_def Let_def
    by (intro mannerly_readT) (auto split: sum.split intro!: mannerly_mark mannerly_callT rec
        mannerly.return mannerly_bindT mannerly_doT polite_meter polite_local)
qed

lemma mannerly_convergeKeyT: "mannerly (convergeKeyT c cfg ctx mode s) False"
proof -
  have "mannerly (refreshTargetT c cfg ctx s bt t) False" for bt t
    unfolding refreshTargetT_def
    by (auto split: option.split intro!: mannerly.return mannerly_readT mannerly_setRowT)
  moreover have "mannerly (placeMissingT c cfg ctx s ps miss) False" for ps miss
    unfolding placeMissingT_def Let_def
    by (intro mannerly_readT mannerly_bindT mannerly_eachT mannerly_createRowT) (auto intro: mannerly_setRowT split: prod.split)
  ultimately have add: "mannerly (addSetT c cfg ctx s ps) False" for ps
    unfolding addSetT_def Let_def by (intro mannerly_readT mannerly_bindT mannerly_eachT)
  have rem: "mannerly (removeSurplusT c ctx s ps) False" for ps
    unfolding removeSurplusT_def
    by (auto intro!: mannerly_readT mannerly_eachT mannerly_removeOneT mannerly.return)
  show ?thesis
    unfolding convergeKeyT_def convergeT_def Let_def
    by (intro mannerly_catchT mannerly_readT polite_local) (auto split: convergeMode.split intro: add rem)
qed

section \<open>Requests keep the bookkeeping\<close>

text \<open>Steps outside the bookkeeping keep the token.\<close>

lemma abides_meterP: "keepsGauge f \<Longrightarrow> \<not> gone g \<Longrightarrow> Q () g \<Longrightarrow> abides Q (meterP f) g"
  unfolding meterP_def by (rule abides_doP) (auto intro: crowdOk_same)

text \<open>A call of the client that is neither a write nor a reload.\<close>

definition quietCall :: "('w \<times> call list \<Rightarrow> 'r \<times> 'w \<times> call list) \<Rightarrow> bool" where
  "quietCall call \<longleftrightarrow> (\<forall>wl. dirty (snd (snd (call wl))) = dirty (snd wl))"

lemma quiet_calls:
  "quietCall (cSnapshot (logged c) ctx)" "quietCall (cSearch (logged c) ctx i n)"
  "quietCall (cServiceStatus (logged c) ctx)" "quietCall (cListLocalData (logged c) ctx)"
  by (auto simp: quietCall_def logged_def split: prod.split)

lemma abides_callP:
  assumes "quietCall call" and "\<not> gone g" and "\<And>r. Q r g"
  shows "abides Q (callP call) g"
  unfolding callP_def
proof (rule abides_actP [OF assms(2)])
  fix s G r s'
  assume i: "crowdOk s (add_mset g G)" and "(case call (world (shProv s)) of (r, w) \<Rightarrow> (r, onShared (\<lambda>p. p\<lparr>world := w\<rparr>) s)) = (r, s')"
  then have "s' = onShared (\<lambda>p. p\<lparr>world := snd (call (world (shProv s)))\<rparr>) s" by (auto split: prod.splits)
  moreover have "dirty (snd (snd (call (world (shProv s))))) = dirty (snd (world (shProv s)))"
    using assms(1) unfolding quietCall_def by blast
  ultimately have "same s s'" by (simp add: same_def behind_def)
  with i assms(3) show "\<exists>g'. crowdOk s' (add_mset g' G) \<and> Q r g'" by (blast intro: crowdOk_same)
qed

lemma abides_answerP: "\<not> gone g \<Longrightarrow> (\<And>r. Q r g) \<Longrightarrow> abides Q (answerP now r) g"
  unfolding answerP_def
  by (rule heeds_bindP [OF abides_meterP [where Q = "\<lambda>_ g'. g' = g"]]) (simp_all add: heeds_Halt)

lemma abides_publishP: "\<not> gone g \<Longrightarrow> Q () g \<Longrightarrow> abides Q (publishP eps) g"
  unfolding publishP_def by (rule heeds_eachP) (auto intro: abides_meterP)

text \<open>The reload settles what its caller owes.\<close>

lemma abides_reloadP:
  assumes r: "r \<in> {Asking, Owing, Applying w}"
  shows "abides (\<lambda>_ g. g = (settle r, Inside)) (reloadP (logged c) cfg) (r, Inside)"
proof -
  let ?h = "\<lambda>e. if e = None then Reloaded else Refused"
  have no: "\<not> gone (r, h)" "\<not> gone (settle r, h)" for h using r by auto
  have call: "abides (\<lambda>e g. g = (r, ?h e)) (callP (cReconfigure (logged c) ctx)) (r, Inside)" for ctx
    unfolding callP_def
  proof (rule abides_actP [OF no(1)])
    fix s G e s'
    assume i: "crowdOk s (add_mset (r, Inside) G)"
      and s': "(case cReconfigure (logged c) ctx (world (shProv s)) of (r, w) \<Rightarrow> (r, onShared (\<lambda>p. p\<lparr>world := w\<rparr>) s)) = (e, s')"
    obtain a w where a: "cReconfigure c ctx (fst (world (shProv s))) = (a, w)" by fastforce
    with s' have "e = a" "s' = onShared (\<lambda>p. p\<lparr>world := (w, snd (world (shProv s)) @ [CallReload a])\<rparr>) s"
      by (auto simp: cReconfigure_logged)
    then have "crowdOk s' (add_mset (r, ?h e) G)" by (intro crowdOk_reload [OF i no(1)]) simp_all
    then show "\<exists>g'. crowdOk s' (add_mset g' G) \<and> g' = (r, ?h e)" by blast
  qed
  have met: "abides (\<lambda>_ g'. g' = g) (meterP (RecordReconfigure b)) g" if "\<not> gone g" for g b
    using that by (intro abides_meterP) simp_all
  have set: "abides (\<lambda>_ g. g = (settle r, Inside)) (setPendingP (e \<noteq> None)) (r, ?h e)" for e :: "error option"
    unfolding setPendingP_def
  proof (rule heeds_bindP)
    show "abides (\<lambda>_ g. g = (settle r, Stored (e \<noteq> None))) (storeP (e \<noteq> None)) (r, ?h e)"
      unfolding storeP_def
    proof (rule abides_doP [OF no(1)])
      fix s G assume "crowdOk s (add_mset (r, ?h e) G)"
      then have "crowdOk s (add_mset (r, if e \<noteq> None then Refused else Reloaded) G)" by (cases e) simp_all
      then show "crowdOk (onShared (\<lambda>p. p\<lparr>pending := e \<noteq> None\<rparr>) s) (add_mset (settle r, Stored (e \<noteq> None)) G)"
        using r by (rule crowdOk_store)
    qed simp
    show "abides (\<lambda>_ g. g = (settle r, Inside)) (meterP (setGauge PendingReconfigure (if e \<noteq> None then 1 else 0))) g"
      if "g = (settle r, Stored (e \<noteq> None))" for g
      unfolding that meterP_def by (rule abides_doP [OF no(2) crowdOk_gauge refl])
  qed
  show ?thesis
    unfolding reloadP_def
    by (rule heeds_bindP [OF call], erule ssubst, rule heeds_bindP [OF met [OF no(1)]], erule ssubst,
        rule heeds_bindP [OF set], simp add: heeds_Halt)
qed

lemma abides_reconfigureP:
  assumes r: "r \<in> {Asking, Owing, Applying w}" and rep: "repair \<Longrightarrow> r = Asking"
  shows "abides (\<lambda>_ g. g = (settle r, Free)) (reconfigureP (logged c) cfg repair) (r, Free)"
proof -
  have no: "\<not> gone (r, h)" "\<not> gone (settle r, h)" for h using r by auto
  have lock: "abides (\<lambda>_ g. g = (r, Inside)) lockReconfigure (r, Free)"
    unfolding lockReconfigure_def by (rule abides_awaitP [OF no(1) _ crowdOk_lockReconfigure]) simp_all
  have ask: "abides (\<lambda>idle g. g = (r, Inside) \<and> (idle \<longrightarrow> repair)) (askP (\<lambda>s. repair \<and> \<not> pending (shProv s))) (r, Inside)"
    using no(1) by (rule abides_askP) auto
  have body: "abides (\<lambda>_ g. g = (settle r, Inside)) (if idle then Halt None else reloadP (logged c) cfg) (r, Inside)"
    if "idle \<longrightarrow> repair" for idle
    using that rep abides_reloadP [OF r] by (cases idle) (auto simp: heeds_Halt)
  have leave: "abides (\<lambda>_ g. g = (settle r, Free)) (bindP unlockReconfigure (\<lambda>_. Halt err)) (settle r, Inside)" for err
    unfolding unlockReconfigure_def
    by (rule heeds_bindP [where R = "\<lambda>_ g. g = (settle r, Free)"], rule abides_doP [OF no(2) crowdOk_unlockReconfigure])
      (simp_all add: heeds_Halt)
  show ?thesis
    unfolding reconfigureP_def
    by (rule heeds_bindP [OF lock], erule ssubst, rule heeds_bindP [OF ask], elim conjE, erule ssubst,
        rule heeds_bindP [OF body], assumption, erule ssubst, rule leave)
qed

text \<open>The goroutines of a phase, as one request.\<close>

lemma polite_keeps:
  assumes i: "crowdOk s (add_mset (Applying (wrote run), Free) G)" and p: "polite raised (pull s run) run' raised'"
    and r: "raised \<longrightarrow> wrote run"
  shows "crowdOk (push run' s) (add_mset (Applying (wrote run'), Free) G) \<and> (raised' \<longrightarrow> wrote run') \<and> (wrote run \<longrightarrow> wrote run')"
proof (cases "run' = markWrite (pull s run)")
  case True
  show ?thesis
  proof (cases "wrote run")
    case w: True
    then have "push run' s = s" "wrote run'" using True by (simp_all add: markWrite_def pull_def push_def)
    with i w show ?thesis by simp
  next
    case False
    then have e: "push run' s = onShared (setPending True) s" "wrote run'"
      using True by (simp_all add: markWrite_def pull_def push_def onProv_def onShared_def)
    have "crowdOk (push run' s) (add_mset (Applying True, Free) G)"
      using i unfolding e(1) by (rule crowdOk_raise) (simp_all add: False behind_def)
    with e(2) show ?thesis by simp
  qed
next
  case False
  with p have e: "raised' = raised" "wrote run' = wrote run" "pending (arP run') = pending (shProv s)"
    "pmets (arP run') PendingReconfigure = pmets (shProv s) PendingReconfigure"
    "raised \<or> snd (world (arP run')) = snd (world (shProv s))"
    by (auto simp: polite_def pull_def)
  have sh: "applyMu (push run' s) = applyMu s" "reconfigureMu (push run' s) = reconfigureMu s" by (simp_all add: push_def)
  have "crowdOk (push run' s) (add_mset (Applying (wrote run), Free) G)"
  proof (cases raised)
    case True
    with r i e sh show ?thesis by (auto intro!: crowdOk_write [of s])
  next
    case False
    with e sh have "same s (push run' s)" by (simp add: same_def behind_def)
    with i show ?thesis by (rule crowdOk_same)
  qed
  with e r show ?thesis by simp
qed

definition orderly :: "('w \<times> call list) applyRun \<Rightarrow> (error, ('w \<times> call list) applyRun) task list \<Rightarrow> bool" where
  "orderly run ts \<longleftrightarrow> (\<forall>t \<in> set ts. \<exists>raised. (raised \<longrightarrow> wrote run) \<and> mannerly t raised)"

lemma orderly_step:
  assumes st: "poolStep body lim (pull s run, xs, ts) (run', xs', ts')" and i: "crowdOk s (add_mset (Applying (wrote run), Free) G)"
    and o: "orderly run ts" and b: "\<And>x. mannerly (body x) False"
  shows "crowdOk (push run' s) (add_mset (Applying (wrote run'), Free) G) \<and> orderly run' ts'"
proof -
  have pp: "push (pull s run) s = s" "wrote (pull s run) = wrote run" by (simp_all add: push_def pull_def)
  from st show ?thesis
  proof cases
    case (start x)
    with i o b pp show ?thesis by (auto simp: orderly_def)
  next
    case (move k f)
    from o move(4,5) have "\<exists>raised. (raised \<longrightarrow> wrote run) \<and> mannerly (Atom f) raised"
      unfolding orderly_def by (metis nth_mem)
    then obtain raised where r: "raised \<longrightarrow> wrote run" "mannerly (Atom f) raised" by blast
    then obtain raised' where p: "polite raised (pull s run) run' raised'" "mannerly (snd (f (pull s run))) raised'"
      unfolding move(1) by (elim mannerly_AtomE) blast
    from polite_keeps [OF i p(1) r(1)] have k: "crowdOk (push run' s) (add_mset (Applying (wrote run'), Free) G)"
      "raised' \<longrightarrow> wrote run'" "wrote run \<longrightarrow> wrote run'" by blast+
    have "orderly run' ts'"
      unfolding orderly_def
    proof
      fix t assume "t \<in> set ts'"
      then have "t \<in> set ts \<or> t = snd (f (pull s run))" unfolding move(3) using set_update_subset_insert by fastforce
      then show "\<exists>raised. (raised \<longrightarrow> wrote run') \<and> mannerly t raised"
        using o p(2) k(2,3) unfolding orderly_def by blast
    qed
    with k(1) show ?thesis by blast
  next
    case (leave k)
    with i o pp show ?thesis by (auto simp: orderly_def dest: in_set_takeD in_set_dropD)
  qed
qed

abbreviation pressing :: "('w \<times> call list) applyRun \<Rightarrow> token" where
  "pressing run \<equiv> (Applying (wrote run), Free)"

lemma abides_groupP:
  assumes lim: "0 < lim" and b: "\<And>x. mannerly (body x) False"
  shows "orderly run ts \<Longrightarrow>
    abides (\<lambda>(ok, run') g. g = (if ok then pressing run' else (Crashing, Free))) (groupP body lim run xs ts) (pressing run)"
  using assms
proof (induction body lim run xs ts rule: groupP.induct)
  case (1 body lim run xs ts)
  show ?case
  proof (cases "xs = [] \<and> ts = []")
    case True
    then show ?thesis by (simp add: groupP.simps heeds_Halt)
  next
    case False
    show ?thesis
      unfolding groupP.simps [of body lim run xs ts] if_not_P [OF False]
    proof (rule heeds.step, goal_cases)
      case (2 s G)
      show ?case
      proof (cases "broken ts")
        case True
        then show ?thesis by (intro exI [of _ Break]) simp
      next
        case nb: False
        have "\<not> resting (pull s run, xs, ts)" "\<not> crashed (pull s run, xs, ts)"
          using False nb by (simp_all add: resting_def crashed_broken)
        with pool_progress [OF 1(3)] obtain st' where "poolStep body lim (pull s run, xs, ts) st'" by blast
        then obtain ch where ch: "poolMove body lim ch (pull s run, xs, ts) = Some st'" by (auto simp flip: poolMove_iff)
        then have "ch \<noteq> Break" by (auto simp: poolMove_def)
        with ch show ?thesis by (intro exI [of _ ch]) (auto split: prod.split)
      qed
    next
      case (3 s G ch s' p)
      show ?case
      proof (cases "ch = Break")
        case True
        with 3(2) have e: "s' = s" "p = Halt (False, run)" by (simp_all split: if_splits)
        have "crowdOk s' (add_mset (Crashing, Free) G)" using 3(1) unfolding e(1) by (rule crowdOk_swap) simp_all
        with e(2) show ?thesis by (auto simp: heeds_Halt)
      next
        case ch: False
        with 3(2) obtain run1 xs1 ts1 where m: "poolMove body lim ch (pull s run, xs, ts) = Some (run1, xs1, ts1)"
          and e: "s' = push run1 s" "p = groupP body lim run1 xs1 ts1" by (auto split: option.splits)
        then have "poolStep body lim (pull s run, xs, ts) (run1, xs1, ts1)" by (auto simp flip: poolMove_iff)
        from orderly_step [OF this 3(1) 1(2,4)] have k: "crowdOk s' (add_mset (pressing run1) G)" "orderly run1 ts1"
          unfolding e(1) by blast+
        from 1(1) [OF False ch m refl refl k(2) 1(3,4)] k(1) show ?thesis unfolding e(2) by blast
      qed
    qed simp
  qed
qed

text \<open>The verification read, the phases and the trailing reload.\<close>

lemma checkWrites_quiet:
  "checkWrites b ws run = (n, run') \<Longrightarrow> wrote run' = wrote run \<and> world (arP run') = world (arP run) \<and>
    pending (arP run') = pending (arP run) \<and> pmets (arP run') PendingReconfigure = pmets (arP run) PendingReconfigure"
proof (induction ws arbitrary: n run)
  case (Cons w ws)
  show ?case
  proof (cases "writeProblem b w")
    case None
    with Cons show ?thesis by simp
  next
    case (Some pr)
    let ?run = "lost (wrKey w) (lostError w pr) (onProv (meter (inc (LostWrites (wrOp w)))) run)"
    obtain m where "checkWrites b ws ?run = (m, run')" using Cons.prems Some by (auto split: prod.splits)
    from Cons.IH [OF this] show ?thesis by (simp add: lost_def onProv_def inc_other)
  qed
qed simp

lemma verifyPhase_quiet:
  assumes "verifyPhase (logged c) ctx run = (n, run')"
  shows "wrote run' = wrote run \<and> dirty (snd (world (arP run'))) = dirty (snd (world (arP run))) \<and>
    pending (arP run') = pending (arP run) \<and> pmets (arP run') PendingReconfigure = pmets (arP run) PendingReconfigure"
proof (cases "writes run = []")
  case True
  with assms show ?thesis by (auto simp: verifyPhase_def takeWrites_def)
next
  case False
  obtain a w where a: "cSnapshot c ctx (fst (world (arP run))) = (a, w)" by fastforce
  from assms False cSnapshot_logged [OF a] show ?thesis
    by (cases a) (auto simp: verifyPhase_def takeWrites_def onProv_def putWorld_def inc_other dest!: checkWrites_quiet)
qed

lemma abides_verifyP: "abides (\<lambda>(n, run') g. g = pressing run') (verifyP (logged c) ctx run) (pressing run)"
  unfolding verifyP_def
proof (rule abides_actP)
  fix s G r s'
  assume i: "crowdOk s (add_mset (pressing run) G)"
    and "(case verifyPhase (logged c) ctx (pull s run) of (n, run') \<Rightarrow> ((n, run'), push run' s)) = (r, s')"
  then obtain n run' where v: "verifyPhase (logged c) ctx (pull s run) = (n, run')" and e: "r = (n, run')" "s' = push run' s"
    by (auto split: prod.splits)
  from verifyPhase_quiet [OF v] have "same s s'" "wrote run' = wrote run"
    unfolding e(2) by (simp_all add: same_def behind_def push_def, simp add: pull_def)
  with i e(1) show "\<exists>g'. crowdOk s' (add_mset g' G) \<and> (case r of (n, run') \<Rightarrow> \<lambda>g. g = pressing run') g'"
    by (auto intro: crowdOk_same)
qed simp

lemma wrote_markFailed: "wrote (fold markFailed ss run) = wrote run"
  by (induction ss arbitrary: run) (simp_all add: markFailed_def)

abbreviation pressed :: "nat list option \<times> ('w \<times> call list) applyRun \<Rightarrow> token \<Rightarrow> bool" where
  "pressed x g \<equiv> g = (if fst x = None then (Crashing, Free) else pressing (snd x))"

lemma abides_phaseP:
  assumes "0 < lim"
  shows "abides pressed (phaseP lim (logged c) cfg ctx keys i ph F run) (pressing run)"
proof (cases "gatedOut ph F")
  case True
  then show ?thesis by (simp add: phaseP_def heeds_Halt wrote_markFailed)
next
  case False
  let ?sel = "selected (phSelects ph) keys (arSets run)"
  have "abides (\<lambda>(ok, run') g. g = (if ok then pressing run' else (Crashing, Free)))
      (groupP (convergeKeyT (logged c) cfg (CtxGroup ctx) (phMode ph)) lim (startPhase run) ?sel []) (pressing (startPhase run))"
    by (rule abides_groupP [OF assms mannerly_convergeKeyT]) (simp add: orderly_def)
  then have g: "abides (\<lambda>(ok, run') g. g = (if ok then pressing run' else (Crashing, Free)))
      (groupP (convergeKeyT (logged c) cfg (CtxGroup ctx) (phMode ph)) lim (startPhase run) ?sel []) (pressing run)"
    by (simp add: startPhase_def)
  have "abides pressed (case x of (ok, run1) \<Rightarrow> if ok then bindP (verifyP (logged c) ctx run1)
        (\<lambda>(n, run2). Halt (Some (F[i := F ! i + phaseFailed run1 + n]), run2)) else Halt (None, run1)) g"
    if "(case x of (ok, run') \<Rightarrow> \<lambda>g. g = (if ok then pressing run' else (Crashing, Free))) g" for x g
    using that by (auto simp: heeds_Halt split: prod.splits if_splits intro!: heeds_bindP [OF abides_verifyP])
  with g show ?thesis
    unfolding phaseP_def Let_def if_not_P [OF False] by (rule heeds_bindP)
qed

lemma abides_phasesP:
  assumes "0 < lim"
  shows "abides pressed (phasesP lim (logged c) cfg ctx keys i phs F run) (pressing run)"
proof (induction phs arbitrary: i F run)
  case (Cons ph phs)
  show ?case
    unfolding phasesP.simps
    by (rule heeds_bindP [OF abides_phaseP [OF assms]]) (auto simp: heeds_Halt Cons split: option.split)
qed (simp add: heeds_Halt)

lemma abides_finishP:
  fixes c :: "'w client"
  shows "abides (\<lambda>out g. out \<noteq> Panicked \<and> g = (Finishing, Free)) (finishP (logged c) cfg run) (pressing run)"
proof -
  have ask: "abides (\<lambda>due g. g = (if due then pressing run else (Finishing, Free)))
      (if wrote run then Halt True else askP (\<lambda>s :: 'w logShared. pending (shProv s))) (pressing run)"
  proof (cases "wrote run")
    case False
    have "crowdOk s (add_mset (Finishing, Free) G)" if "crowdOk s (add_mset (Applying False, Free) G)" for s :: "'w logShared" and G
      using that by (rule crowdOk_swap) simp_all
    with False show ?thesis by (auto intro!: abides_askP)
  qed (simp add: heeds_Halt)
  have body: "abides (\<lambda>_ g. g = (Finishing, Free)) (if due then reconfigureP (logged c) cfg False else Halt None)
      (if due then pressing run else (Finishing, Free))" for due
    using abides_reconfigureP [of "Applying (wrote run)" "wrote run" False c cfg] by (simp add: heeds_Halt)
  have fin: "outcomeOf e \<noteq> Panicked" for e by (simp add: outcomeOf_def split: option.split)
  show ?thesis
    unfolding finishP_def
    by (rule heeds_bindP [OF ask], erule ssubst, rule heeds_bindP [OF body], simp add: heeds_Halt fin)
qed

definition closing :: "error outcome \<Rightarrow> token \<Rightarrow> bool" where
  "closing out g \<longleftrightarrow> (if out = Panicked then g = (Crashing, Free) else g = (Finishing, Free) \<or> g = (Applying False, Free))"

lemma abides_applyP:
  fixes c :: "'w client"
  assumes "0 < lim"
  shows "abides closing (applyP lim (logged c) cfg shuffle ctx ch) (Applying False, Free)"
  unfolding applyP_def
proof (rule heeds_bindP [OF abides_callP [where Q = "\<lambda>_ g. g = (Applying False, Free)"]])
  fix r and g :: token assume g: "g = (Applying False, Free)"
  let ?fold = "\<lambda>sn (s :: 'w logShared). let st = foldChanges cfg ch (pmets (shProv s)); run = beginRun sn st (shProv s) in ((st, run), push run s)"
  have fold: "abides (\<lambda>(st, run) g. g = pressing run) (actP (?fold sn)) (Applying False, Free)" for sn
  proof (rule abides_actP)
    fix s :: "'w logShared" and G x s'
    assume i: "crowdOk s (add_mset (Applying False, Free) G)" and e: "?fold sn s = (x, s')"
    have "same s s'" using e
      by (auto simp: Let_def same_def behind_def push_def beginRun_def foldChanges_gauge)
    with i have "crowdOk s' (add_mset (Applying False, Free) G)" by (rule crowdOk_same)
    then show "\<exists>g'. crowdOk s' (add_mset g' G) \<and> (case x of (st, run) \<Rightarrow> \<lambda>g. g = pressing run) g'"
      using e by (auto simp: Let_def beginRun_def)
  qed simp
  have rest: "abides closing (bindP (phasesP lim (logged c) cfg ctx (planKeys shuffle st) 0 applyPhases [length (fsRejected st), 0, 0, 0] run)
      (\<lambda>(res, run'). if res = None then Halt Panicked else finishP (logged c) cfg run')) (pressing run)" for st run
  proof (rule heeds_bindP [OF abides_phasesP [OF assms]])
    fix x :: "nat list option \<times> ('w \<times> call list) applyRun" and g assume "pressed x g"
    moreover have "abides closing (finishP (logged c) cfg run') (pressing run')" for run'
      using abides_finishP by (rule heeds_weaken) (simp add: closing_def)
    ultimately show "abides closing (case x of (res, run') \<Rightarrow> if res = None then Halt Panicked else finishP (logged c) cfg run') g"
      by (auto simp: heeds_Halt closing_def split: prod.split)
  qed
  show "abides closing (case r of Inl e \<Rightarrow> Halt (Fail e) | Inr sn \<Rightarrow> bindP (actP (?fold sn)) (\<lambda>(st, run).
      bindP (phasesP lim (logged c) cfg ctx (planKeys shuffle st) 0 applyPhases [length (fsRejected st), 0, 0, 0] run)
        (\<lambda>(res, run'). if res = None then Halt Panicked else finishP (logged c) cfg run'))) g"
    unfolding g by (cases r) (auto simp: heeds_Halt closing_def split: prod.splits intro!: heeds_bindP [OF fold] rest)
qed (simp_all add: quiet_calls)

lemma abides_changesP:
  fixes c :: "'w client"
  assumes "0 < lim"
  shows "abides (\<lambda>out g. g = (if out = Panicked then (Crashed, Free) else (Asking, Free)))
    (changesP lim (logged c) cfg shuffle now ctx ch) (Asking, Free)"
proof -
  have lock: "abides (\<lambda>_ g. g = (Applying False, Free)) lockApply (Asking, Free)"
    unfolding lockApply_def by (rule abides_awaitP [OF _ _ crowdOk_lockApply]) simp_all
  have free: "crowdOk (s\<lparr>applyMu := False\<rparr>) (add_mset (Asking, Free) G)"
    if "closing out g" "out \<noteq> Panicked" "crowdOk s (add_mset g G)" for out g and s :: "'w logShared" and G
  proof -
    have "g = (Finishing, Free) \<or> g = (Applying False, Free)" using that(1,2) by (simp add: closing_def)
    then have "crowdOk s (add_mset (Finishing, Free) G)"
      using crowdOk_swap [OF that(3), of "(Finishing, Free)"] that(3) by auto
    then show ?thesis by (rule crowdOk_unlockApply)
  qed
  have "abides (\<lambda>_ g. g = (if out = Panicked then (Crashed, Free) else (Asking, Free))) (unlockApply :: ('w \<times> call list, unit) request) g"
    if "closing out g" for out g
    unfolding unlockApply_def
  proof (rule abides_doP [where g' = "if out = Panicked then (Crashed, Free) else (Asking, Free)"])
    show "\<not> gone g" using that by (auto simp: closing_def split: if_splits)
    fix s :: "'w logShared" and G assume i: "crowdOk s (add_mset g G)"
    show "crowdOk (s\<lparr>applyMu := False\<rparr>) (add_mset (if out = Panicked then (Crashed, Free) else (Asking, Free)) G)"
    proof (cases "out = Panicked")
      case True
      with that i crowdOk_unlockCrash show ?thesis by (auto simp: closing_def)
    next
      case False
      with free [OF that _ i] show ?thesis by simp
    qed
  qed simp
  then have unlock: "abides (\<lambda>out g. g = (if out = Panicked then (Crashed, Free) else (Asking, Free)))
      (bindP unlockApply (\<lambda>_. Halt out) :: ('w \<times> call list, error outcome) request) g" if "closing out g" for out g
    using that by (intro heeds_bindP [where R = "\<lambda>_ g. g = (if out = Panicked then (Crashed, Free) else (Asking, Free))"])
      (auto simp: heeds_Halt)
  have met: "abides (\<lambda>_. closing out) (meterP f) g" if "closing out g" "keepsGauge f" for out g f
    using that by (intro abides_meterP) (auto simp: closing_def split: if_splits)
  show ?thesis
    unfolding changesP_def
    by (rule heeds_bindP [OF lock], erule ssubst, rule heeds_bindP [OF abides_applyP [OF assms]],
        rule heeds_bindP [OF met], assumption, simp, rule heeds_bindP [OF met], assumption, simp, rule unlock)
qed

text \<open>Reads, the startup check, the probe and the adjustment.\<close>

abbreviation plain :: "'r \<Rightarrow> token \<Rightarrow> bool" where
  "plain r g \<equiv> g = (Asking, Free)"

lemma abides_recordsP: "abides plain (recordsP (logged c) cfg newEndpoint now ctx) (Asking, Free)"
proof -
  have ask: "abides plain (askP (\<lambda>s. pending (shProv s))) (Asking, Free)" by (rule abides_askP) auto
  have fix1: "abides plain (if due then reconfigureP (logged c) cfg True else Halt None) (Asking, Free)" for due
    using abides_reconfigureP [of Asking False True c cfg] by (simp add: heeds_Halt)
  have call: "abides plain (callP (cSnapshot (logged c) ctx)) (Asking, Free)" by (rule abides_callP) (simp_all add: quiet_calls)
  have met: "abides plain (meterP (setGauge RowsGauge n)) (Asking, Free)" for n by (rule abides_meterP) simp_all
  have pub: "abides plain (publishP eps) (Asking, Free)" for eps by (rule abides_publishP) simp_all
  have ans: "abides plain (answerP now r) (Asking, Free)" for r by (rule abides_answerP) simp_all
  have table: "abides plain (case r of Inl e \<Rightarrow> answerP now (Inl e)
         | Inr sn \<Rightarrow> bindP (meterP (setGauge RowsGauge (snTotal sn))) (\<lambda>_.
             bindP (publishP (Endpoints newEndpoint sn)) (\<lambda>_. answerP now (Inr (Endpoints newEndpoint sn))))) (Asking, Free)" for r
    by (cases r) (auto intro!: ans heeds_bindP [OF met] heeds_bindP [OF pub])
  show ?thesis
    unfolding recordsP_def
    by (rule heeds_bindP [OF ask], erule ssubst, rule heeds_bindP [OF fix1], erule ssubst)
      (auto intro!: ans heeds_bindP [OF call] table split: option.split)
qed

lemma abides_startupP:
  fixes c :: "'w client" shows "abides plain (startupP (logged c) cfg ctx) (Asking, Free)"
proof -
  let ?ctx = "CtxWithTimeout ctx (cApplyTimeout cfg)"
  have set: "abides (\<lambda>_ g. g = (Owing, Free)) (setPendingP True :: ('w \<times> call list, unit) request) (Asking, Free)"
    unfolding setPendingP_def
  proof (rule heeds_bindP)
    show "abides (\<lambda>_ g. g = (Owing, Free)) (storeP True :: ('w \<times> call list, unit) request) (Asking, Free)"
      unfolding storeP_def
    proof (rule abides_doP)
      fix s :: "'w logShared" and G assume "crowdOk s (add_mset (Asking, Free) G)"
      then show "crowdOk (onShared (\<lambda>p. p\<lparr>pending := True\<rparr>) s) (add_mset (Owing, Free) G)"
        by (rule crowdOk_raise) (simp_all add: behind_def)
    qed simp_all
    show "abides (\<lambda>_ g. g = (Owing, Free)) (meterP (setGauge PendingReconfigure (if True then 1 else 0)) :: ('w \<times> call list, unit) request) g"
      if "g = (Owing, Free)" for g
      unfolding that meterP_def
    proof (rule abides_doP)
      fix s :: "'w logShared" and G assume "crowdOk s (add_mset (Owing, Free) G)"
      then show "crowdOk (onShared (meter (setGauge PendingReconfigure (if True then 1 else 0))) s) (add_mset (Owing, Free) G)"
        by (auto simp: crowdOk_def behind_def)
    qed simp_all
  qed
  have rec: "abides plain (reconfigureP (logged c) cfg False) (Owing, Free)"
    using abides_reconfigureP [of Owing False False c cfg] by simp
  have calls: "abides plain (callP (cSnapshot (logged c) ctx)) (Asking, Free)" "abides plain (callP (cListLocalData (logged c) ctx)) (Asking, Free)"
    "abides plain (callP (cServiceStatus (logged c) ctx)) (Asking, Free)" for ctx
    by (rule abides_callP, simp_all add: quiet_calls)+
  have served: "abides plain (case r of Inl e \<Rightarrow> Halt (Some e) | Inr served \<Rightarrow>
      if unserved cfg served (map (deref sn) (snRows sn)) = [] then Halt None
      else bindP (setPendingP True) (\<lambda>_. reconfigureP (logged c) cfg False)) (Asking, Free)" for r sn
    by (cases r) (auto simp: heeds_Halt intro!: heeds_bindP [OF set] rec)
  have "abides plain (servedStateCheckP (logged c) cfg ?ctx) (Asking, Free)"
    unfolding servedStateCheckP_def
    by (rule heeds_bindP [OF calls(1)], erule ssubst)
      (auto simp: heeds_Halt intro!: heeds_bindP [OF calls(2)] served split: sum.split)
  then show ?thesis
    unfolding startupP_def
    by (intro heeds_bindP [OF calls(3)]) (auto simp: heeds_Halt split: option.split intro!: heeds_bindP)
qed

lemma abides_readyP: "abides plain (readyP (logged c) ctx) (Asking, Free)"
proof -
  have "abides plain (callP (cSearch (logged c) ctx 1 1)) (Asking, Free)" by (rule abides_callP) (simp_all add: quiet_calls)
  then show ?thesis unfolding readyP_def by (rule heeds_bindP) (simp add: heeds_Halt)
qed

lemma abides_adjustP: "abides plain (adjustP cfg es) (Asking, Free)"
  unfolding adjustP_def
proof (rule abides_actP)
  fix s :: "'w logShared" and G r s'
  assume i: "crowdOk s (add_mset (Asking, Free) G)"
    and "(case AdjustEndpoints cfg es (pmets (shProv s)) of (out, m) \<Rightarrow> (out, onShared (meter (\<lambda>_. m)) s)) = (r, s')"
  moreover have "snd (AdjustEndpoints cfg es m) PendingReconfigure = m PendingReconfigure" for m
    using AdjustEndpoints_gauge [of cfg es] by (simp add: keepsGauge_def)
  ultimately have "same s s'" by (auto simp: same_def behind_def split: prod.splits) (metis snd_conv)
  with i show "\<exists>g'. crowdOk s' (add_mset g' G) \<and> g' = (Asking, Free)" by (auto intro: crowdOk_same)
qed simp

section \<open>The whole crowd\<close>

datatype reply =
    Listed "endpoint list result"
  | Applied "error outcome"
  | Started
  | Probed "error option"
  | Adjusted "endpoint list"

text \<open>The requests that may arrive: external-dns's through the webhook, the probe's, and the startup check.\<close>

inductive arrival :: "nat \<Rightarrow> 'w client \<Rightarrow> config \<Rightarrow> ('w, reply) request \<Rightarrow> bool" for lim c cfg where
  read: "arrival lim c cfg (bindP (recordsP c cfg newEndpoint now ctx) (\<lambda>r. Halt (Listed r)))"
| change: "arrival lim c cfg (bindP (changesP lim c cfg shuffle now ctx (ch :: unit changes)) (\<lambda>out. Halt (Applied out)))"
| startup: "arrival lim c cfg (bindP (startupP c cfg ctx) (\<lambda>_. Halt Started))"
| probe: "arrival lim c cfg (bindP (readyP c ctx) (\<lambda>err. Halt (Probed err)))"
| adjust: "arrival lim c cfg (bindP (adjustP cfg es) (\<lambda>out. Halt (Adjusted out)))"

definition ended :: "reply \<Rightarrow> token \<Rightarrow> bool" where
  "ended r g \<longleftrightarrow> g = (if r = Applied Panicked then (Crashed, Free) else (Asking, Free))"

lemma arrival_abides:
  assumes "arrival lim (logged c) cfg p" and "0 < lim"
  shows "abides ended p (Asking, Free)"
  using assms(1)
proof cases
  case (read newEndpoint now ctx)
  show ?thesis unfolding read by (rule heeds_bindP [OF abides_recordsP]) (simp add: heeds_Halt ended_def)
next
  case (change shuffle now ctx ch)
  show ?thesis unfolding change by (rule heeds_bindP [OF abides_changesP [OF assms(2)]]) (simp add: heeds_Halt ended_def)
next
  case (startup ctx)
  show ?thesis unfolding startup by (rule heeds_bindP [OF abides_startupP]) (simp add: heeds_Halt ended_def)
next
  case (probe ctx)
  show ?thesis unfolding probe by (rule heeds_bindP [OF abides_readyP]) (simp add: heeds_Halt ended_def)
next
  case (adjust es)
  show ?thesis unfolding adjust by (rule heeds_bindP [OF abides_adjustP]) (simp add: heeds_Halt ended_def)
qed

definition settled :: "'w logShared \<Rightarrow> bool" where
  "settled s \<longleftrightarrow> \<not> applyMu s \<and> \<not> reconfigureMu s \<and> honest (shProv s) \<and> gaugeOk (shProv s)"

lemma crowd_tokens:
  assumes "crowdRun (arrival lim (logged c) cfg) (s, []) (s', ps)" and "0 < lim" and "settled s"
  obtains gs where "list_all2 (abides ended) ps gs" "crowdOk s' (mset gs)"
proof -
  have i: "crowdInv crowdOk canGo gone ended (s, []) []"
    using assms(3) by (simp add: crowdInv_def crowdOk_def settled_def honest_def behind_def)
  have new: "abides ended p (Asking, Free)" if "arrival lim (logged c) cfg p" for p
    using that assms(2) by (rule arrival_abides)
  have add: "crowdOk s (add_mset (Asking, Free) G)" if "crowdOk s G" for s :: "'a logShared" and G
    using that by (auto simp: crowdOk_def)
  obtain gs where "crowdInv crowdOk canGo gone ended (s', ps) gs"
    by (rule crowdInv_run [OF assms(1) i new add])
  with that show ?thesis by (auto simp: crowdInv_def)
qed

lemma token_crashed: "list_all2 (abides ended) ps gs \<Longrightarrow> (Crashed, h) \<in> set gs \<Longrightarrow> Halt (Applied Panicked) \<in> set ps"
proof -
  assume l: "list_all2 (abides ended) ps gs" and "(Crashed, h) \<in> set gs"
  then obtain i where i: "i < length gs" "gs ! i = (Crashed, h)" by (auto simp: in_set_conv_nth)
  with l have n: "i < length ps" by (simp add: list_all2_lengthD)
  have "abides ended (ps ! i) (Crashed, h)" using list_all2_nthD [OF l n] i(2) by simp
  then have "ps ! i = Halt (Applied Panicked)"
    by (cases rule: heeds.cases) (auto simp: ended_def split: if_splits)
  with n show ?thesis by (metis nth_mem)
qed

lemma crowd_truth:
  assumes "crowdRun (arrival lim (logged c) cfg) (s, []) (s', ps)" and "0 < lim" and "settled s"
    and "Halt (Applied Panicked) \<notin> set ps"
  shows "(\<not> applyMu s' \<longrightarrow> honest (shProv s')) \<and> (list_all (\<lambda>p. \<exists>r. p = Halt r) ps \<longrightarrow> gaugeOk (shProv s') \<and> honest (shProv s'))"
proof -
  obtain gs where l: "list_all2 (abides ended) ps gs" and i: "crowdOk s' (mset gs)" by (rule crowd_tokens [OF assms(1-3)])
  have nc: "(Crashed, h) \<notin> set gs" for h using token_crashed [OF l] assms(4) by blast
  have h: "honest (shProv s')" if "\<forall>g \<in> set gs. \<not> applying g"
  proof -
    have "\<not> covers g" if "g \<in> set gs" for g
      using that nc \<open>\<forall>g \<in> set gs. \<not> applying g\<close> by (cases g rule: covers.cases) force+
    with i show ?thesis unfolding crowdOk_def honest_def behind_def by auto
  qed
  moreover have "\<forall>g \<in> set gs. \<not> applying g" if "\<not> applyMu s'" using i that by (auto simp: crowdOk_def)
  moreover have "(\<forall>g \<in> set gs. \<not> applying g) \<and> gaugeOk (shProv s')" if q: "list_all (\<lambda>p. \<exists>r. p = Halt r) ps"
  proof -
    have "g = (Asking, Free)" if "g \<in> set gs" for g
    proof -
      from that obtain k where k: "k < length gs" "gs ! k = g" by (auto simp: in_set_conv_nth)
      with l have n: "k < length ps" by (simp add: list_all2_lengthD)
      with q obtain r where "ps ! k = Halt r" by (auto simp: list_all_length)
      with list_all2_nthD [OF l n] k have "ended r g" by (simp add: heeds_Halt)
      with nc that show ?thesis by (auto simp: ended_def split: if_splits)
    qed
    then have no: "\<not> applying g" "\<not> owes g" "snd g \<noteq> Stored v" if "g \<in> set gs" for g v
      using that by fastforce+
    have "gaugeOk (shProv s') \<or> (\<exists>g \<in> set gs. owes g \<or> (\<exists>v. snd g = Stored v))"
      using i unfolding crowdOk_def set_mset_mset by blast
    with no show ?thesis by blast
  qed
  ultimately show ?thesis by blast
qed

text \<open>Whoever holds a mutex can go on.\<close>

lemma crowd_goes_on:
  assumes "crowdRun (arrival lim (logged c) cfg) (s, []) (s', ps)" and "0 < lim" and "settled s"
    and "\<not> list_all (\<lambda>p. \<exists>r. p = Halt r) ps"
  shows "\<exists>st. crowdStep nobody (s', ps) st"
proof -
  obtain gs where l: "list_all2 (abides ended) ps gs" and i: "crowdOk s' (mset gs)" by (rule crowd_tokens [OF assms(1-3)])
  then have inv: "crowdInv crowdOk canGo gone ended (s', ps) gs" by (simp add: crowdInv_def)
  have busy: "\<exists>st. crowdStep nobody (s', ps) st" if "g \<in> set gs" "canGo g s'" "holding g \<or> applying g" for g
    using inv that(1,2)
  proof (rule crowd_progress)
    show "\<not> ended r g" for r using that(3) by (auto simp: ended_def split: if_splits)
  qed
  show ?thesis
  proof (cases "reconfigureMu s'")
    case True
    with i have "size (filter_mset holding (mset gs)) = 1" by (simp add: crowdOk_def mutex_def)
    then obtain g where "g \<in> set gs" "holding g" by (metis filter_mset_eq_mempty_iff set_mset_mset size_empty zero_neq_one)
    moreover from \<open>holding g\<close> have "canGo g s'" by (cases g) simp
    ultimately show ?thesis using busy by blast
  next
    case r: False
    show ?thesis
    proof (cases "applyMu s'")
      case True
      with i have "size (filter_mset applying (mset gs)) = 1" by (simp add: crowdOk_def mutex_def)
      then obtain g where g: "g \<in> set gs" "applying g" by (metis filter_mset_eq_mempty_iff set_mset_mset size_empty zero_neq_one)
      then have "canGo g s'" using r by (cases g rule: applying.cases) simp_all
      with g show ?thesis using busy [of g] by blast
    next
      case False
      from assms(4) obtain k where k: "k < length ps" "\<nexists>r. ps ! k = Halt r" by (auto simp: list_all_length)
      then obtain f where "ps ! k = Step f" by (cases "ps ! k") auto
      moreover have "canGo (gs ! k) s'" using r False by (cases "gs ! k") simp
      ultimately show ?thesis using crowd_move [OF inv k(1)] by blast
    qed
  qed
qed

text \<open>C16: The reload bookkeeping is truthful under concurrency.  Let reads, applies with any number of workers, startup checks,
probes and adjustments arrive at any time and their steps interleave in any way, against any firewall: whenever no
apply holds the provider's lock, every write since the last successful reload is covered by the pending flag, and when
all requests have been answered the gauge shows the flag -- unless an apply has panicked.  (While an apply holds the lock
this is not so: a read that repairs between two of its writes lowers the flag, and the later write does not raise it
again.)\<close>

theorem crowd_keeps_the_truth:
  assumes "crowdRun (arrival lim (logged c) cfg) (s, []) (s', ps)" and "0 < lim" and "settled s"
    and "Halt (Applied Panicked) \<notin> set ps"
  shows "(\<not> applyMu s' \<longrightarrow> dirty (snd (world (shProv s'))) \<longrightarrow> pending (shProv s')) \<and>
    (list_all (\<lambda>p. \<exists>r. p = Halt r) ps \<longrightarrow>
       pmets (shProv s') PendingReconfigure = Some (if pending (shProv s') then 1 else 0))"
  using crowd_truth [OF assms] by (simp add: honest_def gaugeOk_def)

text \<open>C12: Overlapping requests do not block each other for good.  Whatever reads, applies, startup checks, probes and
adjustments have arrived and however far their steps have interleaved, with the two mutexes held by whom they may be:
as long as a request is not answered yet, some request can take a step; and without new arrivals no interleaving goes
on forever.  So every mutex that is taken is given back on every path, and every request is answered.\<close>

theorem crowd_answers:
  assumes "crowdRun (arrival lim (logged c) cfg) (s, []) (s', ps)" and "0 < lim" and "settled s"
  shows "(list_all (\<lambda>p. \<exists>r. p = Halt r) ps \<or> (\<exists>st. crowdStep nobody (s', ps) st)) \<and>
    wf {(b, a). crowdStep nobody a (b :: ('w logShared, reply) crowd)}"
  using crowd_goes_on [OF assms] wf_crowdStep by blast

end
