(* ===== verification/Contract.thy ===== *)
theory Contract
  imports Lifecycle
begin

text \<open>
  What an apply promises of any client whose snapshots are indexed right, without a word about how the
  first read went: a failed read ends the apply before its first write.  The log is that of the apply
  alone.
\<close>

text \<open>The rows a write may name are judged against the read the apply began with.\<close>

definition firstRead :: "call list \<Rightarrow> snapshot option" where
  "firstRead log = (case log of CallRead (Inr sn) # _ \<Rightarrow> Some sn | _ \<Rightarrow> None)"

definition deletesOf :: "call list \<Rightarrow> (string \<Rightarrow> bool) \<Rightarrow> call \<Rightarrow> bool" where
  "deletesOf log sel x = (case firstRead log of None \<Rightarrow> False | Some sn \<Rightarrow> deletes sn log sel x)"

definition plannedIn :: "config \<Rightarrow> foldState \<Rightarrow> call list \<Rightarrow> call \<Rightarrow> bool" where
  "plannedIn cfg st log x = (case firstRead log of None \<Rightarrow> False | Some sn \<Rightarrow> planned cfg sn st log x)"

definition isReload :: "call \<Rightarrow> bool" where
  "isReload x = (case x of CallReload _ \<Rightarrow> True | _ \<Rightarrow> False)"

lemma apply_unread:
  assumes "apply_with lim (logged c) cfg shuffle ctx ch p out p'"
    and "cSnapshot c ctx (fst (world p)) = (Inl e, w)" and "snd (world p) = []"
  shows "out = Fail e \<and> snd (world p') = [CallRead (Inl e)] \<and> (pending p' \<longleftrightarrow> pending p)"
  using assms(1) cSnapshot_logged [OF assms(2)] assms(3) by (auto simp: apply_with_def)

lemma apply_first:
  assumes "apply_with lim (logged c) cfg shuffle ctx ch p out p'"
    and "cSnapshot c ctx (fst (world p)) = (Inr sn, w)" "snapOk sn" and "snd (world p) = []"
  shows "firstRead (snd (world p')) = Some sn"
proof -
  obtain ps rel where "snd (world p') = snd (world p) @ CallRead (Inr sn) # concat (map phaseCalls ps) @ rel"
    by (rule apply_run [OF assms(1-3) refl]) blast
  with assms(4) show ?thesis by (simp add: firstRead_def)
qed

context snapshot_client
begin

text \<open>The first read fails, or the apply runs on an indexed snapshot.\<close>

lemma read_cases:
  assumes "apply_with lim (logged c) cfg shuffle ctx ch p out p'" and "snd (world p) = []"
  obtains (unread) e where "out = Fail e" "snd (world p') = [CallRead (Inl e)]" "pending p' \<longleftrightarrow> pending p"
  | (read) sn w where "cSnapshot c ctx (fst (world p)) = (Inr sn, w)" "snapOk sn"
      "firstRead (snd (world p')) = Some sn"
proof -
  obtain a w where a: "cSnapshot c ctx (fst (world p)) = (a, w)" by fastforce
  show thesis
  proof (cases a)
    case (Inl e)
    with a apply_unread [OF assms(1) _ assms(2)] show thesis by (intro unread [of e]) auto
  next
    case (Inr sn)
    with a have "snapOk sn" using snapshot_ok by blast
    with a Inr apply_first [OF assms(1) _ _ assms(2)] show thesis by (intro read [of sn w]) auto
  qed
qed

lemma apply_phased:
  assumes ap: "apply_with lim (logged c) cfg shuffle ctx ch p out p'" and start: "snd (world p) = []"
  shows "\<exists>tc dc dd td. filter isWrite (snd (world p')) = tc @ dc @ dd @ td \<and>
    list_all (\<lambda>x. writeRank x = 0) tc \<and> list_all (\<lambda>x. writeRank x = 1) dc \<and>
    list_all (deletesOf (snd (world p')) isData) dd \<and> list_all (deletesOf (snd (world p')) isTXT) td \<and>
    (fsRejected (foldChanges cfg ch (pmets p)) \<noteq> [] \<or> \<not> list_all acked tc \<longrightarrow> dc = []) \<and>
    (\<not> list_all acked dd \<longrightarrow> td = [])"
proof (cases rule: read_cases [OF ap start])
  case (1 e)
  then show ?thesis by (intro exI [of _ "[]"]) simp
next
  case (2 sn w)
  obtain l0 l1 l2 l3 where l: "filter isWrite (snd (world p')) = l0 @ l1 @ l2 @ l3"
    "\<forall>x \<in> set l0. writeRank x = 0" "\<forall>x \<in> set l1. writeRank x = 1"
    "\<forall>x \<in> set l2. deletes sn (snd (world p')) isData x" "\<forall>x \<in> set l3. deletes sn (snd (world p')) isTXT x"
    "fsRejected (foldChanges cfg ch (pmets p)) \<noteq> [] \<or> \<not> list_all acked l0 \<longrightarrow> l1 = []"
    "\<not> list_all acked l2 \<longrightarrow> l3 = []"
    by (rule apply_groups [OF ap 2(1,2) refl start]) auto
  from l(4,5) have "list_all (deletesOf (snd (world p')) isData) l2" "list_all (deletesOf (snd (world p')) isTXT) l3"
    using 2(3) by (simp_all add: list_all_iff deletesOf_def)
  moreover from l(2,3) have "list_all (\<lambda>x. writeRank x = 0) l0" "list_all (\<lambda>x. writeRank x = 1) l1"
    by (simp_all add: list_all_iff)
  ultimately show ?thesis using l(1,6,7) by blast
qed

lemma apply_sorted:
  assumes ap: "apply_with lim (logged c) cfg shuffle ctx ch p out p'" and start: "snd (world p) = []"
  shows "sorted (map writeRank (filter isWrite (snd (world p'))))"
proof (cases rule: read_cases [OF ap start])
  case (2 sn w)
  with ap start show ?thesis by (intro writes_sorted)
qed simp

lemma apply_in_scope:
  assumes ap: "apply_with lim (logged c) cfg shuffle ctx ch p out p'" and start: "snd (world p) = []"
  shows "list_all (plannedIn cfg (foldChanges cfg ch (pmets p)) (snd (world p'))) (filter isWrite (snd (world p')))"
proof (cases rule: read_cases [OF ap start])
  case (2 sn w)
  with writes_planned [OF ap 2(1,2) start] show ?thesis by (simp add: list_all_iff plannedIn_def)
qed simp

lemma apply_done:
  assumes ap: "apply_with lim (logged c) cfg shuffle ctx ch p Done p'" and start: "snd (world p) = []"
  shows "fsErrs (foldChanges cfg ch (pmets p)) = [] \<and> list_all acked (filter isWrite (snd (world p'))) \<and> \<not> pending p'"
proof (cases rule: read_cases [OF ap start])
  case (2 sn w)
  obtain l0 l1 l2 l3 where "filter isWrite (snd (world p')) = l0 @ l1 @ l2 @ l3"
    "fsErrs (foldChanges cfg ch (pmets p)) = [] \<and> list_all acked (l0 @ l1 @ l2 @ l3) \<and> \<not> pending p'"
    by (rule apply_writes [OF ap 2(1,2) refl start]) blast
  then show ?thesis by simp
qed simp

text \<open>An apply that wrote, or found a reload outstanding, reloads exactly once and last.\<close>

lemma apply_reloads:
  assumes ap: "apply_with lim (logged c) cfg shuffle ctx ch p out p'" and start: "snd (world p) = []"
    and pan: "out \<noteq> Panicked"
  shows "if firstRead (snd (world p')) \<noteq> None \<and> (pending p \<or> list_ex isWrite (snd (world p')))
    then \<exists>before e. snd (world p') = before @ [CallReload e] \<and> list_all (\<lambda>x. \<not> isReload x) before \<and> (pending p' \<longleftrightarrow> e \<noteq> None)
    else list_all (\<lambda>x. \<not> isReload x) (snd (world p'))"
proof (cases rule: read_cases [OF ap start])
  case (1 e)
  then show ?thesis by (simp add: firstRead_def isReload_def)
next
  case (2 sn w)
  let ?st = "foldChanges cfg ch (pmets p)"
  obtain ps rel where t: "applyTrace cfg sn ?st (snd (world p) @ [CallRead (Inr sn)]) ps"
    and log: "snd (world p') = snd (world p) @ CallRead (Inr sn) # concat (map phaseCalls ps) @ rel"
    and fin: "applyEnd (pending p \<or> concat (map phaseWrites ps) \<noteq> [])
       (fsErrs ?st @ concat (map phaseErrs ps)) out rel (pending p')"
    by (rule apply_run [OF ap 2(1,2) refl]) (use pan in blast)
  obtain n0 l0 r0 e0 n1 l1 r1 e1 n2 l2 r2 e2 n3 l3 r3 e3
    where ps: "ps = [(n0, l0, r0, e0), (n1, l1, r1, e1), (n2, l2, r2, e2), (n3, l3, r3, e3)]"
    by (rule applyTrace_phases [OF t])
  have shape: "list_all isWrite l \<and> list_all (\<lambda>x. \<not> isReload x) (l @ r) \<and> list_all (\<lambda>x. \<not> isWrite x) r"
    if "phaseShape cfg sn S ph lg n l r es" for S ph lg n l r es
  proof -
    have "filter isWrite (l @ r) = l" by (rule phaseShape_calls(2) [OF that subset_refl])
    then have "set l = set (filter isWrite (l @ r))" by simp
    then have w: "list_all isWrite l" by (auto simp: list_all_iff)
    moreover have "list_all (\<lambda>x. \<not> isReload x) l"
      using w by (auto simp: list_all_iff isReload_def split: call.splits)
    moreover have "list_all (\<lambda>x. \<not> isReload x \<and> \<not> isWrite x) r"
      using that by (auto simp: phaseShape_def isReload_def split: if_splits)
    ultimately show ?thesis by (auto simp: list_all_iff)
  qed
  from t have sh: "\<exists>S ph lg. phaseShape cfg sn S ph lg n0 l0 r0 e0" "\<exists>S ph lg. phaseShape cfg sn S ph lg n1 l1 r1 e1"
    "\<exists>S ph lg. phaseShape cfg sn S ph lg n2 l2 r2 e2" "\<exists>S ph lg. phaseShape cfg sn S ph lg n3 l3 r3 e3"
    unfolding ps applyTrace.simps by blast+
  then have S: "list_all isWrite l0 \<and> list_all (\<lambda>x. \<not> isReload x) (l0 @ r0) \<and> list_all (\<lambda>x. \<not> isWrite x) r0"
    "list_all isWrite l1 \<and> list_all (\<lambda>x. \<not> isReload x) (l1 @ r1) \<and> list_all (\<lambda>x. \<not> isWrite x) r1"
    "list_all isWrite l2 \<and> list_all (\<lambda>x. \<not> isReload x) (l2 @ r2) \<and> list_all (\<lambda>x. \<not> isWrite x) r2"
    "list_all isWrite l3 \<and> list_all (\<lambda>x. \<not> isReload x) (l3 @ r3) \<and> list_all (\<lambda>x. \<not> isWrite x) r3"
    by (blast dest: shape)+
  then have nr: "list_all (\<lambda>x. \<not> isReload x) (concat (map phaseCalls ps))"
    by (simp add: ps phaseCalls_def)
  have ex: "list_ex isWrite (l @ r) \<longleftrightarrow> l \<noteq> []" if "list_all isWrite l" "list_all (\<lambda>x. \<not> isWrite x) r" for l r
    using that by (cases l) (auto simp: list_all_iff list_ex_iff)
  have w: "list_ex isWrite (concat (map phaseCalls ps)) \<longleftrightarrow> concat (map phaseWrites ps) \<noteq> []"
    using S ex [of l0 r0] ex [of l1 r1] ex [of l2 r2] ex [of l3 r3] by (auto simp: ps phaseCalls_def phaseWrites_def)
  show ?thesis
  proof (cases "pending p \<or> concat (map phaseWrites ps) \<noteq> []")
    case True
    with fin obtain e where e: "rel = [CallReload e]" "pending p' \<longleftrightarrow> e \<noteq> None" by (auto simp: applyEnd_def)
    let ?b = "CallRead (Inr sn) # concat (map phaseCalls ps)"
    have "snd (world p') = ?b @ [CallReload e]" using log start e(1) by simp
    moreover have "list_all (\<lambda>x. \<not> isReload x) ?b" using nr by (simp add: isReload_def)
    moreover have "list_ex isWrite (snd (world p')) \<longleftrightarrow> concat (map phaseWrites ps) \<noteq> []"
      using w log start e(1) by simp
    ultimately show ?thesis using True e(2) 2(3) by auto
  next
    case False
    with fin have "rel = []" by (simp add: applyEnd_def)
    with log start nr w False show ?thesis by (auto simp: isReload_def)
  qed
qed

end

end
