(* ===== verification/Http.thy ===== *)
theory Http
  imports Provider
begin

text \<open>
  The server side of an HTTP exchange: the request a handler reads, the response writer it writes to and
  the recorder of \<^verbatim>\<open>internal/httpx/recorder.go\<close> that wraps it.  A handler is an action on the exchange;
  what it mutates through a pointer (the routed pattern, the body reader) is part of the state.
\<close>

section \<open>Requests\<close>

text \<open>
  A request body is the number of bytes the decoder reads before the first JSON value is complete or
  known to be malformed, that value, and the decoder's complaint.  A server request always has a body
  reader.
\<close>

record reqBody =
  bdNeed :: int
  bdValue :: "json option"
  bdProblem :: string

record httpRequest =
  hrMethod :: string
  hrPath :: string
  hrPattern :: string
  hrHeader :: "string \<Rightarrow> string"
  hrBody :: reqBody
  hrLimit :: "int option"
  hrCtx :: ctx

section \<open>The response writer\<close>

record recorder =
  recStatus :: int
  recWritten :: int

record logLine =
  llLevel :: string
  llMethod :: string
  llPath :: string
  llStatus :: int

text \<open>
  \<open>recorders\<close> are the recorders around the writer, the innermost last wrapped first; \<open>sent\<close> is the
  status line on the wire with the headers it went out with.
\<close>

record 'p exchange =
  request :: httpRequest
  header :: "(string \<times> string) list"
  sent :: "(int \<times> (string \<times> string) list) option"
  written :: string
  recorders :: "recorder list"
  hooked :: 'p
  hmets :: metrics
  accessLog :: "logLine list"

type_synonym 'p handler = "(error, 'p exchange) act"

definition setHeader :: "string \<Rightarrow> string \<Rightarrow> 'p exchange \<Rightarrow> 'p exchange" where
  "setHeader k v x = x\<lparr>header := AList.update k v (header x)\<rparr>"

text \<open>The server's own writer: a second status line is dropped.\<close>

definition rawWriteHeader :: "int \<Rightarrow> 'p exchange \<Rightarrow> 'p exchange" where
  "rawWriteHeader code x =
     (case sent x of None \<Rightarrow> x\<lparr>sent := Some (code, header x)\<rparr> | Some _ \<Rightarrow> x)"

definition bodyAllowed :: "int \<Rightarrow> bool" where
  "bodyAllowed code \<longleftrightarrow> \<not> (100 \<le> code \<and> code < 200) \<and> code \<noteq> 204 \<and> code \<noteq> 304"

definition wireStatus :: "'p exchange \<Rightarrow> int" where
  "wireStatus x = (case sent x of None \<Rightarrow> 200 | Some (code, _) \<Rightarrow> code)"

section \<open>The recorder\<close>

definition NewResponseRecorder :: "'p exchange \<Rightarrow> 'p exchange" where
  "NewResponseRecorder x = x\<lparr>recorders := \<lparr>recStatus = 200, recWritten = 0\<rparr> # recorders x\<rparr>"

definition WriteHeader :: "int \<Rightarrow> 'p exchange \<Rightarrow> 'p exchange" where
  "WriteHeader code x =
     rawWriteHeader code (x\<lparr>recorders := map (\<lambda>r. r\<lparr>recStatus := code\<rparr>) (recorders x)\<rparr>)"

definition Write :: "string \<Rightarrow> 'p exchange \<Rightarrow> 'p exchange" where
  "Write b x =
     (let x = rawWriteHeader 200 x
      in if bodyAllowed (wireStatus x)
         then x\<lparr>written := written x @ b,
                recorders := map (\<lambda>r. r\<lparr>recWritten := recWritten r + int (length b)\<rparr>) (recorders x)\<rparr>
         else x)"

text \<open>\<^verbatim>\<open>Status\<close> and \<^verbatim>\<open>Written\<close> of the recorder wrapped last, and the end of its use.\<close>

definition Status :: "'p exchange \<Rightarrow> int" where
  "Status x = recStatus (hd (recorders x))"

definition Written :: "'p exchange \<Rightarrow> int" where
  "Written x = recWritten (hd (recorders x))"

definition unwrap :: "'p exchange \<Rightarrow> 'p exchange" where
  "unwrap x = x\<lparr>recorders := tl (recorders x)\<rparr>"

definition tally :: "(metrics \<Rightarrow> metrics) \<Rightarrow> 'p exchange \<Rightarrow> 'p exchange" where
  "tally f x = x\<lparr>hmets := f (hmets x)\<rparr>"

lemmas http_defs [go_defs] = setHeader_def rawWriteHeader_def bodyAllowed_def wireStatus_def
  NewResponseRecorder_def WriteHeader_def Write_def Status_def Written_def unwrap_def tally_def

section \<open>What the recorders know\<close>

text \<open>
  A recorder agrees with the wire as long as the handler writes at most one status line: every
  recorder shows the wire's status, with the implicit 200 before anything was sent, and has counted
  the bytes that went out since it was wrapped.
\<close>

definition recorded :: "'p exchange \<Rightarrow> bool" where
  "recorded x \<longleftrightarrow> (\<forall>r \<in> set (recorders x). recStatus r = wireStatus x)"

lemma recorded_simps [simp]:
  "recorded (setHeader k v x) = recorded x" "recorded (tally f x) = recorded x"
  "recorded (x\<lparr>hooked := p\<rparr>) = recorded x" "recorded (x\<lparr>request := r\<rparr>) = recorded x"
  "recorded (x\<lparr>accessLog := l\<rparr>) = recorded x"
  by (simp_all add: recorded_def http_defs)

lemma exchange_simps [simp]:
  "sent (setHeader k v x) = sent x" "sent (tally f x) = sent x" "sent (Write b x) = Some (wireStatus x, snd (the (sent (Write b x))))"
  "wireStatus (setHeader k v x) = wireStatus x" "wireStatus (tally f x) = wireStatus x"
  "wireStatus (Write b x) = wireStatus x" "wireStatus (unwrap x) = wireStatus x" "sent (unwrap x) = sent x"
  "hooked (setHeader k v x) = hooked x" "hooked (tally f x) = hooked x" "hooked (Write b x) = hooked x"
  "hooked (WriteHeader n x) = hooked x" "hooked (unwrap x) = hooked x"
  "request (setHeader k v x) = request x" "request (tally f x) = request x" "request (Write b x) = request x"
  "request (WriteHeader n x) = request x" "request (unwrap x) = request x"
  by (auto simp: http_defs Let_def split: option.splits)

lemma unwrap_tally [simp]: "unwrap (tally f x) = tally f (unwrap x)"
  by (simp add: http_defs)

lemma sent_WriteHeader: "sent x = None \<Longrightarrow> sent (WriteHeader code x) = Some (code, header x)"
  by (simp add: http_defs)

lemma wireStatus_WriteHeader: "sent x = None \<Longrightarrow> wireStatus (WriteHeader code x) = code"
  by (simp add: http_defs)

lemma recorded_wrap: "sent x = None \<Longrightarrow> recorded x \<Longrightarrow> recorded (NewResponseRecorder x)"
  by (simp add: recorded_def http_defs)

lemma recorded_WriteHeader: "sent x = None \<Longrightarrow> recorded (WriteHeader code x)"
  by (simp add: recorded_def http_defs)

lemma recorded_Write: "recorded x \<Longrightarrow> recorded (Write b x)"
  by (auto simp: recorded_def http_defs Let_def split: option.splits)

lemma recorded_unwrap: "recorded x \<Longrightarrow> recorded (unwrap x)"
  by (cases "recorders x") (simp_all add: recorded_def http_defs)

lemma recorders_length [simp]:
  "recorders (setHeader k v x) = recorders x" "recorders (tally f x) = recorders x"
  "length (recorders (Write b x)) = length (recorders x)" "length (recorders (WriteHeader n x)) = length (recorders x)"
  by (auto simp: http_defs Let_def split: option.splits)

lemma Status_recorded: "recorded x \<Longrightarrow> recorders x \<noteq> [] \<Longrightarrow> Status x = wireStatus x"
  by (cases "recorders x") (simp_all add: recorded_def Status_def)

end
