(* ===== verification/Webhook.thy ===== *)
theory Webhook
  imports Http
begin

text \<open>
  The webhook protocol of \<^verbatim>\<open>internal/webhook\<close>: media type negotiation and the four handlers.  The provider
  is an interface of external-dns, the record \<open>hooks\<close>; the JSON forms of its plans and endpoints and
  the text of an error belong to other packages and are the record \<open>codec\<close>.
\<close>

section \<open>Media types\<close>

definition mediaTypeFormat :: string where
  "mediaTypeFormat = ''application/external.dns.webhook+json;''"

definition supportedMediaVersions :: "string list" where
  "supportedMediaVersions = [''1'']"

definition mediaTypeVersion :: "string \<Rightarrow> string" where
  "mediaTypeVersion v = mediaTypeFormat @ ''version='' @ v"

definition mediaTypeVersion1 :: string where
  "mediaTypeVersion1 = mediaTypeVersion ''1''"

definition mediaTypeIs :: "string \<Rightarrow> string \<Rightarrow> bool" where
  "mediaTypeIs m headerValue \<longleftrightarrow> m = headerValue"

definition errUnsupportedMediaType :: error where
  "errUnsupportedMediaType = Plain ''unsupported media type version''"

fun matchVersion :: "string list \<Rightarrow> string \<Rightarrow> string option" where
  "matchVersion [] val = None"
| "matchVersion (v # vs) val =
     (if mediaTypeIs (mediaTypeVersion v) val then Some v else matchVersion vs val)"

definition checkAndGetMediaTypeHeaderValue :: "string \<Rightarrow> string result" where
  "checkAndGetMediaTypeHeaderValue val =
     (case matchVersion supportedMediaVersions val of
        Some v \<Rightarrow> Inr v
      | None \<Rightarrow> Inl (Wrap (''received '' @ quotedText val @ '', supported media types are: '' @
                  join_with '', '' (map mediaTypeVersion supportedMediaVersions)) errUnsupportedMediaType))"

section \<open>The provider's interface and the codecs\<close>

record ('m, 'p) hooks =
  hkRecords :: "ctx \<Rightarrow> 'p \<Rightarrow> 'm endpoint_scheme list result \<times> 'p"
  hkApplyChanges :: "ctx \<Rightarrow> 'm changes \<Rightarrow> (error, 'p) act"
  hkAdjustEndpoints :: "'m endpoint_scheme list \<Rightarrow> 'p \<Rightarrow> 'm endpoint_scheme list result \<times> 'p"
  hkDomainFilter :: "'p \<Rightarrow> string option"

record 'm codec =
  cdChanges :: "json \<Rightarrow> 'm changes option"
  cdEndpoints :: "json \<Rightarrow> 'm endpoint_scheme list option"
  cdEncode :: "'m endpoint_scheme list \<Rightarrow> string option"
  cdErrorText :: "error \<Rightarrow> string"

section \<open>Shared steps\<close>

definition contentTypeHeader :: string where "contentTypeHeader = ''Content-Type''"
definition contentTypePlaintext :: string where "contentTypePlaintext = ''text/plain''"
definition acceptHeader :: string where "acceptHeader = ''Accept''"
definition varyHeader :: string where "varyHeader = ''Vary''"
definition endpointTypeAccept :: string where "endpointTypeAccept = ''accept''"
definition endpointTypeContentType :: string where "endpointTypeContentType = ''content-type''"

definition writePlainError :: "int \<Rightarrow> string \<Rightarrow> 'p exchange \<Rightarrow> 'p exchange" where
  "writePlainError status msg x =
     Write msg (WriteHeader status (setHeader contentTypeHeader contentTypePlaintext x))"

text \<open>An answer without a body, for a failing read.\<close>

definition plainStatus :: "int \<Rightarrow> 'p exchange \<Rightarrow> 'p exchange" where
  "plainStatus status x = WriteHeader status (setHeader contentTypeHeader contentTypePlaintext x)"

text \<open>The encoder writes the whole value and a newline, or nothing when it cannot encode.\<close>

definition writeJSON :: "string option \<Rightarrow> 'p exchange \<Rightarrow> 'p exchange" where
  "writeJSON enc x =
     (let x = setHeader varyHeader contentTypeHeader (setHeader contentTypeHeader mediaTypeVersion1 x)
      in case enc of None \<Rightarrow> x | Some s \<Rightarrow> Write (s @ [char_of (10::nat)]) x)"

definition validateMediaHeader ::
  "(error \<Rightarrow> string) \<Rightarrow> string \<Rightarrow> string \<Rightarrow> string \<Rightarrow> string \<Rightarrow> 'p exchange \<Rightarrow> error option \<times> 'p exchange" where
  "validateMediaHeader errText headerName kind missingMsg unsupportedMsg x =
     (let val = hrHeader (request x) headerName
      in if val = [] then
           (Some (Wrap headerName (Plain ''missing required header'')),
            writePlainError 406 missingMsg (tally (inc (HTTPValidationErrors kind)) x))
         else case checkAndGetMediaTypeHeaderValue val of
           Inl err \<Rightarrow>
             (Some err, writePlainError 415 (unsupportedMsg @ '': '' @ errText err)
                (tally (inc (HTTPValidationErrors kind)) x))
         | Inr _ \<Rightarrow> (None, x))"

definition checkContentType :: "(error \<Rightarrow> string) \<Rightarrow> 'p exchange \<Rightarrow> error option \<times> 'p exchange" where
  "checkContentType errText = validateMediaHeader errText contentTypeHeader endpointTypeContentType
     ''client must provide a content type''
     ''client must provide a valid versioned media type in the content type''"

definition checkAccept :: "(error \<Rightarrow> string) \<Rightarrow> 'p exchange \<Rightarrow> error option \<times> 'p exchange" where
  "checkAccept errText = validateMediaHeader errText acceptHeader endpointTypeAccept
     ''client must provide an accept header''
     ''client must provide a valid versioned media type in the accept header''"

text \<open>
  \<^verbatim>\<open>json.Decoder\<close> on the limited reader: it fails with \<^verbatim>\<open>MaxBytesError\<close> when the value is not complete
  within the limit, and otherwise with whatever is wrong with the value.
\<close>

datatype 'a decoded = TooLarge | Malformed | Decoded 'a

definition decodeRequest :: "(json \<Rightarrow> 'a option) \<Rightarrow> httpRequest \<Rightarrow> 'a decoded" where
  "decodeRequest dec r =
     (if (case hrLimit r of None \<Rightarrow> False | Some n \<Rightarrow> bdNeed (hrBody r) > n) then TooLarge
      else case Option.bind (bdValue (hrBody r)) dec of None \<Rightarrow> Malformed | Some v \<Rightarrow> Decoded v)"

definition decodeInto :: "(json \<Rightarrow> 'a option) \<Rightarrow> string \<Rightarrow> 'p exchange \<Rightarrow> 'a option \<times> 'p exchange" where
  "decodeInto dec route x =
     (case decodeRequest dec (request x) of
        TooLarge \<Rightarrow> (None, writePlainError 413 ''request body too large'' x)
      | Malformed \<Rightarrow>
          (None, writePlainError 400 (''error decoding request body: '' @ bdProblem (hrBody (request x)))
             (tally (inc (HTTPJSONErrors route)) x))
      | Decoded v \<Rightarrow> (Some v, x))"

section \<open>The handlers\<close>

definition webhookRecords :: "('m, 'p) hooks \<Rightarrow> 'm codec \<Rightarrow> 'p handler" where
  "webhookRecords hk cd x =
     (case checkAccept (cdErrorText cd) x of
        (Some _, x) \<Rightarrow> (Done, x)
      | (None, x) \<Rightarrow>
          (case hkRecords hk (hrCtx (request x)) (hooked x) of
             (Inl _, p) \<Rightarrow> (Done, plainStatus 500 (x\<lparr>hooked := p\<rparr>))
           | (Inr eps, p) \<Rightarrow> (Done, writeJSON (cdEncode cd eps) (x\<lparr>hooked := p\<rparr>))))"

definition webhookApplyChanges :: "('m, 'p) hooks \<Rightarrow> 'm codec \<Rightarrow> 'p handler" where
  "webhookApplyChanges hk cd x =
     (case checkContentType (cdErrorText cd) x of
        (Some _, x) \<Rightarrow> (Done, x)
      | (None, x) \<Rightarrow>
          (case decodeInto (cdChanges cd) ''/records'' x of
             (None, x) \<Rightarrow> (Done, x)
           | (Some ch, x) \<Rightarrow>
               (case hkApplyChanges hk (hrCtx (request x)) ch (hooked x) of
                  (Panicked, p) \<Rightarrow> (Panicked, x\<lparr>hooked := p\<rparr>)
                | (Fail e, p) \<Rightarrow> (Done, writePlainError 500 (cdErrorText cd e) (x\<lparr>hooked := p\<rparr>))
                | (Done, p) \<Rightarrow> (Done, WriteHeader 204 (x\<lparr>hooked := p\<rparr>)))))"

definition webhookAdjustEndpoints :: "('m, 'p) hooks \<Rightarrow> 'm codec \<Rightarrow> 'p handler" where
  "webhookAdjustEndpoints hk cd x0 =
     (case checkContentType (cdErrorText cd) (tally (inc AdjustEndpointsTotal) x0) of
        (Some _, x) \<Rightarrow> (Done, x)
      | (None, x) \<Rightarrow>
          (case checkAccept (cdErrorText cd) x of
             (Some _, x) \<Rightarrow> (Done, x)
           | (None, x) \<Rightarrow>
               (case decodeInto (cdEndpoints cd) ''/adjustendpoints'' x of
                  (None, x) \<Rightarrow> (Done, x)
                | (Some eps, x) \<Rightarrow>
                    (case hkAdjustEndpoints hk eps (hooked x) of
                       (Inl _, p) \<Rightarrow> (Done, plainStatus 500 (x\<lparr>hooked := p\<rparr>))
                     | (Inr eps, p) \<Rightarrow> (Done, writeJSON (cdEncode cd eps) (x\<lparr>hooked := p\<rparr>))))))"

definition Negotiate :: "('m, 'p) hooks \<Rightarrow> 'm codec \<Rightarrow> 'p handler" where
  "Negotiate hk cd x0 =
     (case checkAccept (cdErrorText cd) (tally (inc NegotiateTotal) x0) of
        (Some _, x) \<Rightarrow> (Done, x)
      | (None, x) \<Rightarrow>
          (let x = setHeader contentTypeHeader mediaTypeVersion1 x
           in (Done, case hkDomainFilter hk (hooked x) of
                       None \<Rightarrow> x | Some s \<Rightarrow> Write (s @ [char_of (10::nat)]) x)))"

lemmas webhook_consts [go_defs] = mediaTypeFormat_def supportedMediaVersions_def mediaTypeVersion_def
  mediaTypeVersion1_def mediaTypeIs_def errUnsupportedMediaType_def contentTypeHeader_def
  contentTypePlaintext_def acceptHeader_def varyHeader_def endpointTypeAccept_def endpointTypeContentType_def

lemmas webhook_steps = writePlainError_def plainStatus_def writeJSON_def validateMediaHeader_def
  checkContentType_def checkAccept_def decodeInto_def

lemmas webhook_handlers = webhookRecords_def webhookApplyChanges_def webhookAdjustEndpoints_def Negotiate_def

section \<open>What a handler answers\<close>

lemma media_type_iff: "checkAndGetMediaTypeHeaderValue val = Inr v \<longleftrightarrow> v = ''1'' \<and> val = mediaTypeVersion1"
  by (auto simp: checkAndGetMediaTypeHeaderValue_def webhook_consts)

lemma not_media_type: "val \<noteq> mediaTypeVersion1 \<longleftrightarrow> isl (checkAndGetMediaTypeHeaderValue val)"
  using media_type_iff [of val] by (cases "checkAndGetMediaTypeHeaderValue val") auto

text \<open>The status a header check answers with, \<^term>\<open>None\<close> when it lets the request through.\<close>

definition refusal :: "string \<Rightarrow> int option" where
  "refusal val = (if val = [] then Some 406 else if val \<noteq> mediaTypeVersion1 then Some 415 else None)"

lemma validateMediaHeader_eq:
  "\<exists>msg e. validateMediaHeader t h k m1 m2 x =
     (case refusal (hrHeader (request x) h) of
        None \<Rightarrow> (None, x)
      | Some code \<Rightarrow> (Some e, writePlainError code msg (tally (inc (HTTPValidationErrors k)) x)))"
  using media_type_iff [of "hrHeader (request x) h"]
  by (cases "checkAndGetMediaTypeHeaderValue (hrHeader (request x) h)")
     (auto simp: validateMediaHeader_def Let_def refusal_def)

lemma answer_simps [simp]:
  "hooked (writePlainError n msg x) = hooked x" "hooked (plainStatus n x) = hooked x" "hooked (writeJSON enc x) = hooked x"
  "request (writePlainError n msg x) = request x" "request (plainStatus n x) = request x" "request (writeJSON enc x) = request x"
  "length (recorders (writePlainError n msg x)) = length (recorders x)"
  "length (recorders (plainStatus n x)) = length (recorders x)"
  "length (recorders (writeJSON enc x)) = length (recorders x)"
  by (simp_all add: webhook_steps Let_def split: option.split)

lemma wireStatus_answer:
  assumes "sent x = None"
  shows "wireStatus (writePlainError n msg x) = n" and "wireStatus (plainStatus n x) = n"
    and "wireStatus (writeJSON enc x) = 200"
  using assms by (simp_all add: webhook_steps Let_def wireStatus_WriteHeader split: option.split)
    (simp_all add: wireStatus_def split: option.split)

lemma recorded_answer:
  assumes "sent x = None" and "recorded x"
  shows "recorded (writePlainError n msg x)" and "recorded (plainStatus n x)" and "recorded (writeJSON enc x)"
  using assms
  by (auto simp: webhook_steps Let_def intro!: recorded_Write recorded_WriteHeader split: option.split)

lemma provider_done [simp]:
  "wireStatus (x\<lparr>hooked := p\<rparr>) = wireStatus x" "sent (x\<lparr>hooked := p\<rparr>) = sent x"
  by (simp_all add: wireStatus_def)

lemma decodeInto_eq:
  "\<exists>x1 x2. sent x1 = sent x \<and> sent x2 = sent x \<and> hooked x1 = hooked x \<and> hooked x2 = hooked x \<and>
     (recorded x \<longrightarrow> recorded x1 \<and> recorded x2) \<and> recorders x1 = recorders x \<and> recorders x2 = recorders x \<and>
     decodeInto dec route x =
     (case decodeRequest dec (request x) of
        TooLarge \<Rightarrow> (None, writePlainError 413 ''request body too large'' x1)
      | Malformed \<Rightarrow> (None, writePlainError 400 (''error decoding request body: '' @ bdProblem (hrBody (request x))) x2)
      | Decoded v \<Rightarrow> (Some v, x))"
  unfolding decodeInto_def
  by (rule exI [of _ x], rule exI [of _ "tally (inc (HTTPJSONErrors route)) x"]) simp

text \<open>A handler keeps the recorders in step with the wire.\<close>

definition tracks :: "'p handler \<Rightarrow> bool" where
  "tracks h \<longleftrightarrow> (\<forall>x out x'. h x = (out, x') \<longrightarrow> sent x = None \<longrightarrow> recorded x \<longrightarrow>
     recorded x' \<and> length (recorders x') = length (recorders x))"

lemma tracksI:
  "(\<And>x out x'. h x = (out, x') \<Longrightarrow> sent x = None \<Longrightarrow> recorded x \<Longrightarrow>
     recorded x' \<and> length (recorders x') = length (recorders x)) \<Longrightarrow> tracks h"
  by (auto simp: tracks_def)

lemma tracksD:
  "tracks h \<Longrightarrow> h x = (out, x') \<Longrightarrow> sent x = None \<Longrightarrow> recorded x \<Longrightarrow>
     recorded x' \<and> length (recorders x') = length (recorders x)"
  by (auto simp: tracks_def)

lemma validate_tracks:
  assumes "validateMediaHeader t h k m1 m2 x = (e, x')" "sent x = None" "recorded x"
  shows "recorded x' \<and> length (recorders x') = length (recorders x) \<and> (e = None \<longrightarrow> sent x' = None)"
proof -
  obtain msg err where "validateMediaHeader t h k m1 m2 x =
     (case refusal (hrHeader (request x) h) of
        None \<Rightarrow> (None, x)
      | Some code \<Rightarrow> (Some err, writePlainError code msg (tally (inc (HTTPValidationErrors k)) x)))"
    using validateMediaHeader_eq by blast
  with assms show ?thesis by (auto intro: recorded_answer split: option.splits)
qed

lemma decode_tracks:
  assumes "decodeInto dec route x = (v, x')" "sent x = None" "recorded x"
  shows "recorded x' \<and> length (recorders x') = length (recorders x) \<and> (v \<noteq> None \<longrightarrow> sent x' = None)"
  using assms by (auto simp: decodeInto_def intro: recorded_answer split: decoded.splits)

lemma handlers_track:
  "tracks (webhookRecords hk cd)" "tracks (webhookApplyChanges hk cd)"
  "tracks (webhookAdjustEndpoints hk cd)" "tracks (Negotiate hk cd)"
proof -
  note ans = recorded_answer recorded_WriteHeader recorded_Write
  show "tracks (webhookRecords hk cd)"
    by (rule tracksI)
       (auto simp: webhookRecords_def checkAccept_def dest!: validate_tracks intro: ans
             split: prod.splits option.splits sum.splits)
  show "tracks (webhookApplyChanges hk cd)"
    by (rule tracksI)
       (auto simp: webhookApplyChanges_def checkContentType_def dest!: validate_tracks decode_tracks intro: ans
             split: prod.splits option.splits outcome.splits)
  show "tracks (webhookAdjustEndpoints hk cd)"
    by (rule tracksI)
       (auto simp: webhookAdjustEndpoints_def checkContentType_def checkAccept_def
             dest!: validate_tracks decode_tracks intro: ans split: prod.splits option.splits sum.splits)
  show "tracks (Negotiate hk cd)"
    by (rule tracksI)
       (auto simp: Negotiate_def Let_def checkAccept_def dest!: validate_tracks intro: ans
             split: prod.splits option.splits)
qed

section \<open>Properties\<close>

text \<open>
  How a plan request is answered: the specification in one table.  The second component is the
  provider's state.
\<close>

definition applyAnswer :: "('m, 'p) hooks \<Rightarrow> 'm codec \<Rightarrow> httpRequest \<Rightarrow> 'p \<Rightarrow> int option \<times> 'p" where
  "applyAnswer hk cd r p =
     (case refusal (hrHeader r contentTypeHeader) of
        Some n \<Rightarrow> (Some n, p)
      | None \<Rightarrow>
          (case decodeRequest (cdChanges cd) r of
             TooLarge \<Rightarrow> (Some 413, p)
           | Malformed \<Rightarrow> (Some 400, p)
           | Decoded ch \<Rightarrow>
               (case hkApplyChanges hk (hrCtx r) ch p of
                  (Done, p) \<Rightarrow> (Some 204, p) | (Fail _, p) \<Rightarrow> (Some 500, p) | (Panicked, p) \<Rightarrow> (None, p))))"

lemma webhookApplyChanges_answer:
  assumes "sent x = None"
  shows "applyAnswer hk cd (request x) (hooked x) =
    (case webhookApplyChanges hk cd x of (out, x') \<Rightarrow>
       (if out = Panicked then None else Some (wireStatus x'), hooked x'))"
proof -
  obtain msg e where v: "checkContentType (cdErrorText cd) x =
     (case refusal (hrHeader (request x) contentTypeHeader) of
        None \<Rightarrow> (None, x)
      | Some code \<Rightarrow> (Some e, writePlainError code msg (tally (inc (HTTPValidationErrors endpointTypeContentType)) x)))"
    unfolding checkContentType_def using validateMediaHeader_eq by blast
  obtain x1 x2 where d: "sent x1 = sent x" "sent x2 = sent x" "hooked x1 = hooked x" "hooked x2 = hooked x"
    "decodeInto (cdChanges cd) ''/records'' x =
     (case decodeRequest (cdChanges cd) (request x) of
        TooLarge \<Rightarrow> (None, writePlainError 413 ''request body too large'' x1)
      | Malformed \<Rightarrow> (None, writePlainError 400 (''error decoding request body: '' @ bdProblem (hrBody (request x))) x2)
      | Decoded v \<Rightarrow> (Some v, x))"
    using decodeInto_eq by blast
  show ?thesis
    using assms d(1-4)
    by (auto simp: applyAnswer_def webhookApplyChanges_def v d(5) wireStatus_answer wireStatus_WriteHeader
        split: option.split decoded.split prod.split outcome.split)
qed

lemma webhookRecords_answer:
  assumes "sent x = None"
  shows "(case refusal (hrHeader (request x) acceptHeader) of
      Some n \<Rightarrow> (n, hooked x)
    | None \<Rightarrow> (case hkRecords hk (hrCtx (request x)) (hooked x) of (res, p) \<Rightarrow> (if isl res then 500 else 200, p))) =
    (case webhookRecords hk cd x of (out, x') \<Rightarrow> (wireStatus x', hooked x'))"
proof -
  obtain msg e where v: "checkAccept (cdErrorText cd) x =
     (case refusal (hrHeader (request x) acceptHeader) of
        None \<Rightarrow> (None, x)
      | Some code \<Rightarrow> (Some e, writePlainError code msg (tally (inc (HTTPValidationErrors endpointTypeAccept)) x)))"
    unfolding checkAccept_def using validateMediaHeader_eq by blast
  show ?thesis
    using assms
    by (auto simp: webhookRecords_def v wireStatus_answer split: option.split prod.split sum.split)
qed

section \<open>The provider behind the handlers\<close>

text \<open>
  The contract a provider gives the webhook: every call keeps an invariant of the provider's state.  Then
  so does every request, whatever its headers and its body.
\<close>

locale webhook_provider =
  fixes hk :: "('m, 'p) hooks" and I :: "'p \<Rightarrow> bool"
  assumes records_keep: "I p \<Longrightarrow> hkRecords hk ctx p = (res, p') \<Longrightarrow> I p'"
    and changes_keep: "I p \<Longrightarrow> hkApplyChanges hk ctx ch p = (out, p') \<Longrightarrow> I p'"
    and adjust_keep: "I p \<Longrightarrow> hkAdjustEndpoints hk es p = (res', p') \<Longrightarrow> I p'"
begin

definition keeps :: "'p handler \<Rightarrow> bool" where
  "keeps h \<longleftrightarrow> (\<forall>x out x'. h x = (out, x') \<longrightarrow> I (hooked x) \<longrightarrow> I (hooked x'))"

lemma keepsI: "(\<And>x out x'. h x = (out, x') \<Longrightarrow> I (hooked x) \<Longrightarrow> I (hooked x')) \<Longrightarrow> keeps h"
  by (auto simp: keeps_def)

lemma keepsD: "keeps h \<Longrightarrow> h x = (out, x') \<Longrightarrow> I (hooked x) \<Longrightarrow> I (hooked x')"
  by (auto simp: keeps_def)

lemma validate_hooked: "validateMediaHeader t h k m1 m2 x = (e, x') \<Longrightarrow> hooked x' = hooked x"
  by (auto simp: validateMediaHeader_def Let_def split: if_splits sum.splits)

lemma decode_hooked: "decodeInto dec route x = (v, x') \<Longrightarrow> hooked x' = hooked x"
  by (auto simp: decodeInto_def split: decoded.splits)

lemma handlers_keep:
  "keeps (webhookRecords hk cd)" "keeps (webhookApplyChanges hk cd)"
  "keeps (webhookAdjustEndpoints hk cd)" "keeps (Negotiate hk cd)"
proof -
  show "keeps (webhookRecords hk cd)"
    by (rule keepsI)
       (auto simp: webhookRecords_def checkAccept_def dest!: validate_hooked intro: records_keep
             split: prod.splits option.splits sum.splits)
  show "keeps (webhookApplyChanges hk cd)"
    by (rule keepsI)
       (auto simp: webhookApplyChanges_def checkContentType_def dest!: validate_hooked decode_hooked
             intro: changes_keep split: prod.splits option.splits outcome.splits)
  show "keeps (webhookAdjustEndpoints hk cd)"
    by (rule keepsI)
       (auto simp: webhookAdjustEndpoints_def checkContentType_def checkAccept_def
             dest!: validate_hooked decode_hooked intro: adjust_keep split: prod.splits option.splits sum.splits)
  show "keeps (Negotiate hk cd)"
    by (rule keepsI)
       (auto simp: Negotiate_def Let_def checkAccept_def dest!: validate_hooked
             split: prod.splits option.splits)
qed

end

end
