(* ===== verification/Middleware.thy ===== *)
theory Middleware
  imports Webhook
begin

text \<open>
  The layers around the handlers: the metrics middleware of \<^verbatim>\<open>internal/metrics/middleware.go\<close>, and the
  panic recovery, access log and body limit of \<^verbatim>\<open>internal/server/middleware.go\<close>.
\<close>

section \<open>Metrics\<close>

fun fromSlash :: "string \<Rightarrow> string option" where
  "fromSlash [] = None"
| "fromSlash (c # s) = (if c = CHR ''/'' then Some (c # s) else fromSlash s)"

definition RouteLabel :: "httpRequest \<Rightarrow> string" where
  "RouteLabel r =
     (if hrPattern r = [] then ''other''
      else case fromSlash (hrPattern r) of Some path \<Rightarrow> path | None \<Rightarrow> ''other'')"

text \<open>The deferred decrement runs on a panic too; the request itself is then not recorded.\<close>

definition HTTPMetricsMiddleware :: "'p handler \<Rightarrow> 'p handler" where
  "HTTPMetricsMiddleware next x =
     (case next (NewResponseRecorder (tally (inc HTTPInFlight) x)) of
        (Panicked, x) \<Rightarrow> (Panicked, tally (addTo HTTPInFlight (-1)) (unwrap x))
      | (out, x) \<Rightarrow>
          (out, tally (addTo HTTPInFlight (-1))
             (unwrap (tally (RecordHTTPRequest (hrMethod (request x)) (RouteLabel (request x))
                               (Status x) (Written x)) x))))"

section \<open>Recovery and access log\<close>

definition isProbePath :: "string \<Rightarrow> bool" where
  "isProbePath path \<longleftrightarrow> path = ''/healthz'' \<or> path = ''/readyz'' \<or> path = ''/metrics''"

definition logLevel :: "int \<Rightarrow> string \<Rightarrow> string" where
  "logLevel status path =
     (if status \<ge> 500 then ''ERROR'' else if status \<ge> 400 then ''WARN''
      else if isProbePath path then ''DEBUG'' else ''INFO'')"

definition logRequest :: "'p exchange \<Rightarrow> 'p exchange" where
  "logRequest x =
     x\<lparr>accessLog := accessLog x @
         [\<lparr>llLevel = logLevel (Status x) (hrPath (request x)), llMethod = hrMethod (request x),
           llPath = hrPath (request x), llStatus = Status x\<rparr>]\<rparr>"

definition recovered :: "'p exchange \<Rightarrow> 'p exchange" where
  "recovered x = WriteHeader 500 (tally (inc (PanicsTotal (RouteLabel (request x)))) x)"

definition recoveryAndAccessLog :: "'p handler \<Rightarrow> 'p handler" where
  "recoveryAndAccessLog next x =
     (case next (NewResponseRecorder x) of
        (Panicked, x) \<Rightarrow> (Done, unwrap (logRequest (recovered x)))
      | (out, x) \<Rightarrow> (out, unwrap (logRequest x)))"

section \<open>The body limit\<close>

definition limitBody :: "int \<Rightarrow> 'p handler \<Rightarrow> 'p handler" where
  "limitBody maxBytes next x =
     next (x\<lparr>request := (request x)\<lparr>hrLimit := Some maxBytes\<rparr>\<rparr>)"

lemmas middleware_defs [go_defs] = RouteLabel_def HTTPMetricsMiddleware_def isProbePath_def logLevel_def
  logRequest_def recovered_def recoveryAndAccessLog_def limitBody_def

section \<open>What the layers guarantee\<close>

lemma fromSlash_append: "CHR ''/'' \<notin> set m \<Longrightarrow> fromSlash (m @ CHR ''/'' # p) = Some (CHR ''/'' # p)"
  by (induction m) auto

text \<open>
  A handler leaves the access log and the in-flight gauge as they were, and never returns an error of
  its own.
\<close>

definition quiet :: "'p handler \<Rightarrow> bool" where
  "quiet h \<longleftrightarrow> (\<forall>x out x'. h x = (out, x') \<longrightarrow> accessLog x' = accessLog x \<and>
     reading (hmets x') HTTPInFlight = reading (hmets x) HTTPInFlight \<and> out \<in> {Done, Panicked})"

lemma quietI:
  "(\<And>x out x'. h x = (out, x') \<Longrightarrow> accessLog x' = accessLog x \<and>
     reading (hmets x') HTTPInFlight = reading (hmets x) HTTPInFlight \<and> out \<in> {Done, Panicked}) \<Longrightarrow> quiet h"
  by (auto simp: quiet_def)

lemma quietD:
  "quiet h \<Longrightarrow> h x = (out, x') \<Longrightarrow> accessLog x' = accessLog x \<and>
     reading (hmets x') HTTPInFlight = reading (hmets x) HTTPInFlight \<and> out \<in> {Done, Panicked}"
  by (auto simp: quiet_def)

lemma quiet_simps [simp]:
  "accessLog (setHeader k v x) = accessLog x" "accessLog (tally f x) = accessLog x"
  "accessLog (Write b x) = accessLog x" "accessLog (WriteHeader n x) = accessLog x"
  "accessLog (unwrap x) = accessLog x" "accessLog (NewResponseRecorder x) = accessLog x"
  "hmets (setHeader k v x) = hmets x" "hmets (tally f x) = f (hmets x)" "hmets (Write b x) = hmets x"
  "hmets (WriteHeader n x) = hmets x" "hmets (unwrap x) = hmets x" "hmets (NewResponseRecorder x) = hmets x"
  by (simp_all add: http_defs Let_def split: option.split)

lemma metrics_quiet:
  assumes "quiet next"
  shows "quiet (HTTPMetricsMiddleware next)"
proof (rule quietI)
  fix x out x' assume h: "HTTPMetricsMiddleware next x = (out, x')"
  obtain o1 y where n: "next (NewResponseRecorder (tally (inc HTTPInFlight) x)) = (o1, y)" by fastforce
  from quietD [OF assms n]
  have "reading (hmets y) HTTPInFlight = reading (hmets x) HTTPInFlight + 1"
    "accessLog y = accessLog x" "o1 \<in> {Done, Panicked}" by simp_all
  with h n show "accessLog x' = accessLog x \<and> reading (hmets x') HTTPInFlight = reading (hmets x) HTTPInFlight \<and>
      out \<in> {Done, Panicked}"
    by (cases o1) (auto simp: HTTPMetricsMiddleware_def RecordHTTPRequest_def Let_def split: if_splits)
qed

lemma limit_quiet: "quiet next \<Longrightarrow> quiet (limitBody n next)"
  unfolding limitBody_def by (rule quietI) (force dest: quietD)

lemma answer_quiet [simp]:
  "accessLog (writePlainError n msg x) = accessLog x" "accessLog (plainStatus n x) = accessLog x"
  "accessLog (writeJSON enc x) = accessLog x" "hmets (writePlainError n msg x) = hmets x"
  "hmets (plainStatus n x) = hmets x" "hmets (writeJSON enc x) = hmets x"
  by (simp_all add: webhook_steps Let_def split: option.split)

lemma validate_quiet:
  "validateMediaHeader t h k m1 m2 x = (e, x') \<Longrightarrow>
   accessLog x' = accessLog x \<and> reading (hmets x') HTTPInFlight = reading (hmets x) HTTPInFlight"
  by (auto simp: validateMediaHeader_def Let_def split: if_splits sum.splits)

lemma decode_quiet:
  "decodeInto dec route x = (v, x') \<Longrightarrow>
   accessLog x' = accessLog x \<and> reading (hmets x') HTTPInFlight = reading (hmets x) HTTPInFlight"
  by (auto simp: decodeInto_def split: decoded.splits)

lemma handlers_quiet:
  "quiet (webhookRecords hk cd)" "quiet (webhookApplyChanges hk cd)"
  "quiet (webhookAdjustEndpoints hk cd)" "quiet (Negotiate hk cd)"
proof -
  show "quiet (webhookRecords hk cd)"
    by (rule quietI)
       (auto simp: webhookRecords_def checkAccept_def dest!: validate_quiet split: prod.splits option.splits sum.splits)
  show "quiet (webhookApplyChanges hk cd)"
    by (rule quietI)
       (auto simp: webhookApplyChanges_def checkContentType_def dest!: validate_quiet decode_quiet
             split: prod.splits option.splits outcome.splits)
  show "quiet (webhookAdjustEndpoints hk cd)"
    by (rule quietI)
       (auto simp: webhookAdjustEndpoints_def checkContentType_def checkAccept_def
             dest!: validate_quiet decode_quiet split: prod.splits option.splits sum.splits)
  show "quiet (Negotiate hk cd)"
    by (rule quietI)
       (auto simp: Negotiate_def Let_def checkAccept_def dest!: validate_quiet split: prod.splits option.splits)
qed

text \<open>A handler that panics does so before it has sent anything.\<close>

definition prompt :: "'p handler \<Rightarrow> bool" where
  "prompt h \<longleftrightarrow> (\<forall>x x'. h x = (Panicked, x') \<longrightarrow> sent x = None \<longrightarrow> sent x' = None)"

lemma promptD: "prompt h \<Longrightarrow> h x = (Panicked, x') \<Longrightarrow> sent x = None \<Longrightarrow> sent x' = None"
  by (auto simp: prompt_def)

lemma validate_sent: "validateMediaHeader t h k m1 m2 x = (None, x') \<Longrightarrow> sent x' = sent x"
  by (auto simp: validateMediaHeader_def Let_def split: if_splits sum.splits)

lemma decode_sent: "decodeInto dec route x = (Some v, x') \<Longrightarrow> sent x' = sent x"
  by (auto simp: decodeInto_def split: decoded.splits)

lemma handlers_prompt:
  "prompt (webhookRecords hk cd)" "prompt (webhookApplyChanges hk cd)"
  "prompt (webhookAdjustEndpoints hk cd)" "prompt (Negotiate hk cd)"
  unfolding prompt_def
  by (auto simp: webhook_handlers Let_def checkContentType_def checkAccept_def dest!: validate_sent decode_sent
      split: prod.splits option.splits sum.splits outcome.splits)

lemma metrics_prompt: "prompt next \<Longrightarrow> prompt (HTTPMetricsMiddleware next)"
  unfolding prompt_def
  by (auto simp: HTTPMetricsMiddleware_def NewResponseRecorder_def tally_def unwrap_def split: prod.splits outcome.splits)

lemma limit_prompt: "prompt next \<Longrightarrow> prompt (limitBody n next)"
  by (auto simp: prompt_def limitBody_def)

text \<open>The line that is logged tells the status that went over the wire, unless a panic came after one.\<close>

lemma recorded_NewRecorder: "sent x = None \<Longrightarrow> recorders x = [] \<Longrightarrow> recorded (NewResponseRecorder x)"
  by (simp add: recorded_def http_defs)

lemma metrics_tracks:
  assumes "tracks next"
  shows "tracks (HTTPMetricsMiddleware next)"
proof (rule tracksI)
  fix x out x'
  assume h: "HTTPMetricsMiddleware next x = (out, x')" and s: "sent x = None" and r: "recorded x"
  obtain o1 y where n: "next (NewResponseRecorder (tally (inc HTTPInFlight) x)) = (o1, y)" by fastforce
  have "recorded (NewResponseRecorder (tally (inc HTTPInFlight) x))"
    using s r by (intro recorded_wrap) simp_all
  moreover have "sent (NewResponseRecorder (tally (inc HTTPInFlight) x)) = None"
    using s by (simp add: http_defs)
  ultimately have y: "recorded y" "length (recorders y) = Suc (length (recorders x))"
    using tracksD [OF assms n] by (simp_all add: NewResponseRecorder_def)
  moreover have "length (recorders (unwrap y)) = length (recorders x)" using y(2) by (simp add: unwrap_def)
  ultimately show "recorded x' \<and> length (recorders x') = length (recorders x)"
    using h n recorded_unwrap [of y]
    by (cases o1) (auto simp: HTTPMetricsMiddleware_def intro: recorded_unwrap)
qed

lemma limit_tracks: "tracks next \<Longrightarrow> tracks (limitBody n next)"
  unfolding limitBody_def by (rule tracksI) (force dest: tracksD)

text \<open>
  What the outermost layer makes of any handler, panics included: the request is answered, one line is
  logged, its status is the one on the wire, and the in-flight gauge is back.
\<close>

definition answeredOnce :: "'p exchange \<Rightarrow> 'p exchange \<Rightarrow> bool" where
  "answeredOnce x x' \<longleftrightarrow>
     (\<exists>l. accessLog x' = accessLog x @ [l] \<and> llStatus l = wireStatus x' \<and> llMethod l = hrMethod (request x')) \<and>
     reading (hmets x') HTTPInFlight = reading (hmets x) HTTPInFlight"

lemma unwrap_log [simp]:
  "wireStatus (logRequest x) = wireStatus x" "accessLog (unwrap x) = accessLog x" "hmets (logRequest x) = hmets x"
  "request (logRequest x) = request x"
  by (simp_all add: logRequest_def wireStatus_def unwrap_def)

lemma logRequest_line:
  "Status x = wireStatus x \<Longrightarrow>
   \<exists>l. accessLog (logRequest x) = accessLog x @ [l] \<and> llStatus l = wireStatus x \<and> llMethod l = hrMethod (request x)"
  by (simp add: logRequest_def)

lemma recovery_answers:
  assumes "tracks next" "quiet next" "prompt next" and "sent x = None" and "recorders x = []"
  shows "\<exists>x'. recoveryAndAccessLog next x = (Done, x') \<and> answeredOnce x x'"
proof -
  obtain out y where n: "next (NewResponseRecorder x) = (out, y)" by fastforce
  have s: "recorded (NewResponseRecorder x)" "sent (NewResponseRecorder x) = None"
    using assms(4,5) by (simp_all add: recorded_NewRecorder) (simp add: http_defs)
  with tracksD [OF assms(1) n] have y: "recorded y" "length (recorders y) = 1"
    using assms(5) by (simp_all add: NewResponseRecorder_def)
  then have ne: "recorders y \<noteq> []" by auto
  have q: "accessLog y = accessLog x" "reading (hmets y) HTTPInFlight = reading (hmets x) HTTPInFlight"
    "out \<in> {Done, Panicked}"
    using quietD [OF assms(2) n] by simp_all
  show ?thesis
  proof (cases "out = Panicked")
    case True
    let ?y = "recovered y"
    have "sent y = None" using promptD [OF assms(3)] n s(2) True by blast
    then have "recorded ?y" by (simp add: recovered_def recorded_WriteHeader)
    moreover have "recorders ?y \<noteq> []"
      using ne by (metis length_0_conv recorders_length(4) recorders_length(2) recovered_def)
    ultimately have "Status ?y = wireStatus ?y" by (rule Status_recorded)
    with True n q logRequest_line [of ?y] show ?thesis
      by (auto simp: recoveryAndAccessLog_def answeredOnce_def recovered_def)
  next
    case False
    have "Status y = wireStatus y" using y(1) ne by (rule Status_recorded)
    with False n q logRequest_line [of y] show ?thesis
      by (auto simp: recoveryAndAccessLog_def answeredOnce_def)
  qed
qed

end
