(* ===== verification/Readiness.thy ===== *)
theory Readiness
  imports Middleware
begin

text \<open>
  The readiness probe of \<^verbatim>\<open>internal/server/readiness.go\<close>: a result cache with a time to live, filled by
  at most one probe at a time.  \<open>Check\<close> is one caller on its own; \<open>probe_step\<close> interleaves any number of
  callers at the points where the code takes its lock or enters the single flight.  Times are readings
  of the monotonic clock.
\<close>

section \<open>The cache\<close>

definition probeTimeout :: int where "probeTimeout = 10 * second"

record probeCache =
  lastAt :: "int option"
  lastErr :: "error option"

definition newCachedProbe :: probeCache where
  "newCachedProbe = \<lparr>lastAt = None, lastErr = None\<rparr>"

definition fresh :: "int \<Rightarrow> int \<Rightarrow> probeCache \<Rightarrow> bool" where
  "fresh ttl now c = (case lastAt c of None \<Rightarrow> False | Some t \<Rightarrow> now - t < ttl)"

text \<open>The three readings of the clock: on entry, inside the flight, and when the probe returned.\<close>

record readings =
  atEntry :: int
  inFlight :: int
  atReturn :: int

definition Check ::
  "(ctx \<Rightarrow> 'p \<Rightarrow> error option \<times> 'p) \<Rightarrow> int \<Rightarrow> readings \<Rightarrow> ctx \<Rightarrow> probeCache \<times> 'p \<Rightarrow> error option \<times> probeCache \<times> 'p" where
  "Check probe ttl ts ctx s =
     (case s of (c, p) \<Rightarrow>
        if fresh ttl (atEntry ts) c then (lastErr c, c, p)
        else if fresh ttl (inFlight ts) c then (lastErr c, c, p)
        else case probe (CtxWithTimeout (CtxWithoutCancel ctx) probeTimeout) p of
          (e, p) \<Rightarrow> (e, \<lparr>lastAt = Some (atReturn ts), lastErr = e\<rparr>, p))"

definition noopProbe :: "ctx \<Rightarrow> 'p \<Rightarrow> error option \<times> 'p" where
  "noopProbe ctx p = (None, p)"

lemmas readiness_defs [go_defs] = probeTimeout_def newCachedProbe_def fresh_def Check_def noopProbe_def

section \<open>The handlers\<close>

definition okHandler :: "'p handler" where
  "okHandler x = (Done, Write ''OK'' (WriteHeader 200 x))"

definition readyzHandler ::
  "(ctx \<Rightarrow> 'p \<Rightarrow> error option \<times> 'p) \<Rightarrow> int \<Rightarrow> readings \<Rightarrow> (probeCache \<times> 'p) handler" where
  "readyzHandler probe ttl ts x =
     (case Check probe ttl ts (hrCtx (request x)) (hooked x) of
        (Some _, s) \<Rightarrow>
          (Done, Write (''not ready'' @ [char_of (10::nat)])
             (WriteHeader 503 (setHeader ''Content-Type'' ''text/plain; charset=utf-8'' (x\<lparr>hooked := s\<rparr>))))
      | (None, s) \<Rightarrow> okHandler (x\<lparr>hooked := s\<rparr>))"

lemma ok_tracks: "tracks okHandler"
  by (rule tracksI) (auto simp: okHandler_def intro!: recorded_Write recorded_WriteHeader)

lemma readyz_tracks: "tracks (readyzHandler probe ttl ts)"
  by (rule tracksI)
     (auto simp: readyzHandler_def okHandler_def intro!: recorded_Write recorded_WriteHeader
           split: prod.splits option.splits)

section \<open>Many callers\<close>

text \<open>
  \<open>missed\<close> are the callers that saw a stale cache and have not yet entered the flight; a flight is
  first \<open>Starting\<close>, until its leader has looked at the cache again, and then \<open>Probing\<close> since a time.
  \<open>finished\<close> lists the probes that returned, with their start, end and verdict; \<open>answers\<close> what each
  caller got, and when.
\<close>

datatype flightStage = Starting | Probing int

record probeRun =
  cache :: probeCache
  now :: int
  missed :: "nat list"
  flight :: "(flightStage \<times> nat list) option"
  finished :: "(int \<times> int \<times> error option) list"
  answers :: "(nat \<times> int \<times> error option) list"

definition startRun :: "int \<Rightarrow> probeRun" where
  "startRun t = \<lparr>cache = newCachedProbe, now = t, missed = [], flight = None, finished = [], answers = []\<rparr>"

definition answerAll :: "nat list \<Rightarrow> error option \<Rightarrow> probeRun \<Rightarrow> probeRun" where
  "answerAll is e s = s\<lparr>answers := answers s @ map (\<lambda>i. (i, now s, e)) is\<rparr>"

inductive probe_step :: "int \<Rightarrow> probeRun \<Rightarrow> probeRun \<Rightarrow> bool" for ttl where
  tick: "0 \<le> d \<Longrightarrow> probe_step ttl s (s\<lparr>now := now s + d\<rparr>)"
| hit: "fresh ttl (now s) (cache s) \<Longrightarrow> probe_step ttl s (answerAll [i] (lastErr (cache s)) s)"
| miss: "\<not> fresh ttl (now s) (cache s) \<Longrightarrow> probe_step ttl s (s\<lparr>missed := i # missed s\<rparr>)"
| lead: "i \<in> set (missed s) \<Longrightarrow> flight s = None \<Longrightarrow>
     probe_step ttl s (s\<lparr>missed := remove1 i (missed s), flight := Some (Starting, [i])\<rparr>)"
| join: "i \<in> set (missed s) \<Longrightarrow> flight s = Some (g, is) \<Longrightarrow>
     probe_step ttl s (s\<lparr>missed := remove1 i (missed s), flight := Some (g, is @ [i])\<rparr>)"
| recheck: "flight s = Some (Starting, is) \<Longrightarrow> fresh ttl (now s) (cache s) \<Longrightarrow>
     probe_step ttl s (answerAll is (lastErr (cache s)) (s\<lparr>flight := None\<rparr>))"
| launch: "flight s = Some (Starting, is) \<Longrightarrow> \<not> fresh ttl (now s) (cache s) \<Longrightarrow>
     probe_step ttl s (s\<lparr>flight := Some (Probing (now s), is)\<rparr>)"
| return: "flight s = Some (Probing t, is) \<Longrightarrow>
     probe_step ttl s (answerAll is e (s\<lparr>cache := \<lparr>lastAt = Some (now s), lastErr = e\<rparr>,
        finished := finished s @ [(t, now s, e)], flight := None\<rparr>))"

inductive_cases probe_stepE: "probe_step ttl s s'"

inductive probe_reach :: "int \<Rightarrow> int \<Rightarrow> probeRun \<Rightarrow> bool" for ttl t0 where
  reach_start: "probe_reach ttl t0 (startRun t0)"
| reach_step: "probe_reach ttl t0 s \<Longrightarrow> probe_step ttl s s' \<Longrightarrow> probe_reach ttl t0 s'"

text \<open>An answer is the verdict of a probe that returned at most the time to live ago, or just now.\<close>

definition justified :: "int \<Rightarrow> probeRun \<Rightarrow> nat \<times> int \<times> error option \<Rightarrow> bool" where
  "justified ttl s a = (case a of (i, t, e) \<Rightarrow>
     \<exists>b u. (b, u, e) \<in> set (finished s) \<and> u \<le> t \<and> (t - u < ttl \<or> u = t))"

text \<open>No probe starts before the previous one's verdict has expired.\<close>

definition spaced :: "int \<Rightarrow> (int \<times> int \<times> error option) list \<Rightarrow> bool" where
  "spaced ttl ps = sorted_wrt (\<lambda>(b, u, e) (b', u', e'). u + ttl \<le> b') ps"

definition cacheOk :: "probeRun \<Rightarrow> bool" where
  "cacheOk s \<longleftrightarrow>
     (case lastAt (cache s) of
        None \<Rightarrow> finished s = []
      | Some u \<Rightarrow> u \<le> now s \<and> (\<exists>b. (b, u, lastErr (cache s)) \<in> set (finished s)) \<and>
                  (\<forall>(b, u', e) \<in> set (finished s). u' \<le> u))"

definition flightOk :: "int \<Rightarrow> probeRun \<Rightarrow> bool" where
  "flightOk ttl s \<longleftrightarrow>
     (\<forall>t is. flight s = Some (Probing t, is) \<longrightarrow> t \<le> now s \<and> (\<forall>u. lastAt (cache s) = Some u \<longrightarrow> u + ttl \<le> t))"

definition probeInv :: "int \<Rightarrow> probeRun \<Rightarrow> bool" where
  "probeInv ttl s \<longleftrightarrow> cacheOk s \<and> flightOk ttl s \<and> spaced ttl (finished s) \<and> list_all (justified ttl s) (answers s)"

lemma probeInv_start: "probeInv ttl (startRun t)"
  by (simp add: probeInv_def cacheOk_def flightOk_def startRun_def newCachedProbe_def spaced_def)

lemma cacheOk_cong: "cacheOk s \<Longrightarrow> cache s' = cache s \<Longrightarrow> finished s' = finished s \<Longrightarrow> now s \<le> now s' \<Longrightarrow> cacheOk s'"
  by (auto simp: cacheOk_def split: option.splits)

lemma justified_more:
  "justified ttl s a \<Longrightarrow> set (finished s) \<subseteq> set (finished s') \<Longrightarrow> justified ttl s' a"
  by (fastforce simp: justified_def)

lemma justified_simps [simp]:
  "justified ttl (s\<lparr>now := n\<rparr>) = justified ttl s" "justified ttl (s\<lparr>missed := m\<rparr>) = justified ttl s"
  "justified ttl (s\<lparr>flight := f\<rparr>) = justified ttl s" "justified ttl (answerAll is e s) = justified ttl s"
  by (simp_all add: justified_def answerAll_def fun_eq_iff)

lemma answerAll_simps [simp]:
  "cache (answerAll is e s) = cache s" "now (answerAll is e s) = now s" "flight (answerAll is e s) = flight s"
  "finished (answerAll is e s) = finished s" "answers (answerAll is e s) = answers s @ map (\<lambda>i. (i, now s, e)) is"
  by (simp_all add: answerAll_def)

lemma cached_justified: "cacheOk s \<Longrightarrow> fresh ttl (now s) (cache s) \<Longrightarrow> justified ttl s (i, now s, lastErr (cache s))"
  by (auto simp: cacheOk_def fresh_def justified_def split: option.splits)

lemma probeInv_step:
  assumes "probe_step ttl s s'" and "probeInv ttl s"
  shows "probeInv ttl s'"
  using assms(1)
proof (cases rule: probe_step.cases)
  note inv = assms(2) [unfolded probeInv_def]
  case (return t "is" e)
  have ended: "u' \<le> u" if "lastAt (cache s) = Some u" "(b, u', e') \<in> set (finished s)" for u b u' e'
    using inv that by (auto simp: cacheOk_def)
  have none: "finished s = []" if "lastAt (cache s) = None" using inv that by (simp add: cacheOk_def)
  have before: "u' + ttl \<le> t" "u' \<le> now s" if "(b, u', e') \<in> set (finished s)" for b u' e'
  proof -
    from that none obtain u where u: "lastAt (cache s) = Some u" by fastforce
    with inv return(2) have "u + ttl \<le> t" "u \<le> now s" by (auto simp: flightOk_def cacheOk_def)
    with ended [OF u that] show "u' + ttl \<le> t" "u' \<le> now s" by auto
  qed
  have "spaced ttl (finished s')"
    using inv before by (auto simp: return(1) spaced_def sorted_wrt_append)
  moreover have "cacheOk s'" using before by (auto simp: return(1) cacheOk_def)
  moreover have "list_all (justified ttl s') (answers s')"
  proof -
    have "list_all (justified ttl s') (answers s)"
      using inv justified_more [of ttl s _ s'] by (simp add: list_all_iff) (simp add: return(1) subset_iff)
    moreover have "justified ttl s' (i, now s, e)" for i by (auto simp: return(1) justified_def)
    moreover have "answers s' = answers s @ map (\<lambda>i. (i, now s, e)) is" by (simp add: return(1))
    ultimately show ?thesis by (auto simp: list_all_iff)
  qed
  moreover have "flightOk ttl s'" by (simp add: return(1) flightOk_def)
  ultimately show ?thesis by (simp add: probeInv_def)
next
  note inv = assms(2) [unfolded probeInv_def]
  case (launch "is")
  have "flightOk ttl s'" using launch(3) by (auto simp: launch(1) flightOk_def fresh_def)
  with inv show ?thesis by (auto simp: launch(1) probeInv_def intro: cacheOk_cong)
next
  note inv = assms(2) [unfolded probeInv_def]
  case (tick d)
  then have "cacheOk s'" "flightOk ttl s'" using inv by (auto simp: flightOk_def intro: cacheOk_cong)
  with inv tick show ?thesis by (simp add: probeInv_def)
next
  note inv = assms(2) [unfolded probeInv_def]
  case (hit i)
  with inv cached_justified [of s ttl i] show ?thesis
    by (auto simp: probeInv_def flightOk_def intro: cacheOk_cong)
next
  note inv = assms(2) [unfolded probeInv_def]
  case (recheck "is")
  let ?s = "answerAll is (lastErr (cache s)) (s\<lparr>flight := None\<rparr>)"
  have "list_all (justified ttl s) (map (\<lambda>i. (i, now s, lastErr (cache s))) is)"
    using inv cached_justified recheck(3) by (simp add: list_all_iff)
  moreover have "justified ttl ?s = justified ttl s" by simp
  moreover have "cacheOk ?s" using inv by (auto intro: cacheOk_cong)
  ultimately show ?thesis using inv recheck(1) by (simp add: probeInv_def flightOk_def)
next
  note inv = assms(2) [unfolded probeInv_def]
  case (join i g "is")
  with inv show ?thesis by (auto simp: probeInv_def flightOk_def intro: cacheOk_cong)
next
  note inv = assms(2) [unfolded probeInv_def]
  case (lead i)
  with inv show ?thesis by (auto simp: probeInv_def flightOk_def intro: cacheOk_cong)
next
  note inv = assms(2) [unfolded probeInv_def]
  case (miss i)
  with inv show ?thesis by (auto simp: probeInv_def flightOk_def intro: cacheOk_cong)
qed

lemma probe_reach_inv: "probe_reach ttl t0 s \<Longrightarrow> probeInv ttl s"
  by (induction rule: probe_reach.induct) (simp_all add: probeInv_start probeInv_step)

section \<open>One caller is a run of the interleaving\<close>

text \<open>\<open>Check\<close> with no other caller about takes the steps of the relation, so what holds of every run holds of it.\<close>

lemma Check_run:
  assumes ch: "Check probe ttl ts ctx (cache s, p) = (e, c', p')" and s: "now s = atEntry ts" "flight s = None"
    and t: "atEntry ts \<le> inFlight ts" "inFlight ts \<le> atReturn ts"
  shows "\<exists>s'. (probe_step ttl)\<^sup>*\<^sup>* s s' \<and> cache s' = c' \<and> (\<exists>u. answers s' = answers s @ [(i, u, e)])"
proof (cases "fresh ttl (now s) (cache s)")
  case True
  with ch s have "e = lastErr (cache s)" "c' = cache s" by (auto simp: Check_def)
  with hit [OF True, of i] show ?thesis by (intro exI [of _ "answerAll [i] (lastErr (cache s)) s"]) auto
next
  case False
  let ?a = "s\<lparr>missed := i # missed s\<rparr>"
  let ?b = "s\<lparr>flight := Some (Starting, [i])\<rparr>"
  let ?c = "?b\<lparr>now := inFlight ts\<rparr>"
  have 1: "probe_step ttl s ?a" by (rule miss [OF False])
  have 2: "probe_step ttl ?a ?b" using lead [of i ?a ttl] s(2) by simp
  have 3: "probe_step ttl ?b ?c" using tick [of "inFlight ts - atEntry ts" ttl ?b] s(1) t(1) by simp
  have abc: "(probe_step ttl)\<^sup>*\<^sup>* s ?c" using 1 2 3 by (meson converse_rtranclp_into_rtranclp rtranclp.rtrancl_refl)
  show ?thesis
  proof (cases "fresh ttl (inFlight ts) (cache s)")
    case True
    let ?d = "answerAll [i] (lastErr (cache s)) (?c\<lparr>flight := None\<rparr>)"
    have "probe_step ttl ?c ?d" using recheck [of ?c "[i]" ttl] True by simp
    with abc have "(probe_step ttl)\<^sup>*\<^sup>* s ?d" by (rule rtranclp.rtrancl_into_rtrancl)
    moreover have "e = lastErr (cache s)" "c' = cache s" using ch False True s(1) by (auto simp: Check_def)
    ultimately show ?thesis by (intro exI [of _ ?d]) simp
  next
    case nf: False
    let ?d = "?c\<lparr>flight := Some (Probing (inFlight ts), [i])\<rparr>"
    let ?e = "?d\<lparr>now := atReturn ts\<rparr>"
    have "c' = \<lparr>lastAt = Some (atReturn ts), lastErr = e\<rparr>"
      using ch False nf s(1) by (auto simp: Check_def split: prod.splits)
    moreover let ?f = "answerAll [i] e (?e\<lparr>cache := \<lparr>lastAt = Some (now ?e), lastErr = e\<rparr>,
        finished := finished ?e @ [(inFlight ts, now ?e, e)], flight := None\<rparr>)"
    have 4: "probe_step ttl ?c ?d" using launch [of ?c "[i]" ttl] nf by simp
    have 5: "probe_step ttl ?d ?e" using tick [of "atReturn ts - inFlight ts" ttl ?d] t(2) by simp
    have 6: "probe_step ttl ?e ?f" by (rule return) simp
    have "(probe_step ttl)\<^sup>*\<^sup>* s ?f" using abc 4 5 6 by (meson rtranclp.rtrancl_into_rtrancl)
    ultimately show ?thesis by (intro exI [of _ ?f]) simp
  qed
qed

section \<open>Properties\<close>

text \<open>C17: However callers interleave, no probe starts before the verdict of the one before has expired, and every
caller gets the verdict of a probe that returned within the time to live or at that moment.\<close>

theorem probes_spaced:
  assumes "probe_reach ttl t0 s"
  shows "spaced ttl (finished s) \<and> list_all (justified ttl s) (answers s)"
  using probe_reach_inv [OF assms] by (simp add: probeInv_def)

text \<open>C18: A single caller's check is one run of the interleaved system: the same cache and the same verdict.\<close>

theorem check_is_a_run:
  assumes "Check probe ttl ts ctx (cache s, p) = (e, c', p')" and "now s = atEntry ts" and "flight s = None"
    and "atEntry ts \<le> inFlight ts" and "inFlight ts \<le> atReturn ts"
  shows "\<exists>s'. (probe_step ttl)\<^sup>*\<^sup>* s s' \<and> cache s' = c' \<and> (\<exists>u. answers s' = answers s @ [(i, u, e)])"
  using assms by (rule Check_run)

end
