(* ===== verification/Server_Config.thy ===== *)
theory Server_Config
  imports Config
begin

text \<open>
  The server configuration of \<^verbatim>\<open>internal/config/config.go\<close>, its defaults and its validation, with the
  \<^verbatim>\<open>net.SplitHostPort\<close> it relies on.  Reading the environment is another package's: \<open>InitConfig\<close> takes
  its result.
\<close>

definition maxPort :: int where "maxPort = 65535"

record serverConfig =
  ServerHost :: string
  ServerPort :: int
  ServerReadTimeout :: int
  ServerReadHeaderTimeout :: int
  ServerWriteTimeout :: int
  ServerIdleTimeout :: int
  ServerMaxHeaderBytes :: int
  ServerMaxBodyBytes :: int
  HealthServerAddr :: string
  ReadinessCacheTTL :: int
  PprofEnabled :: bool

definition defaultServerConfig :: serverConfig where
  "defaultServerConfig =
     \<lparr>ServerHost = ''localhost'', ServerPort = 8888, ServerReadTimeout = 60 * second,
      ServerReadHeaderTimeout = 5 * second, ServerWriteTimeout = 180 * second, ServerIdleTimeout = 120 * second,
      ServerMaxHeaderBytes = 65536, ServerMaxBodyBytes = 5242880, HealthServerAddr = '':8080'',
      ReadinessCacheTTL = 30 * second, PprofEnabled = False\<rparr>"

section \<open>Splitting an address\<close>

definition indexOf :: "char \<Rightarrow> string \<Rightarrow> nat option" where
  "indexOf c s = (if c \<in> set s then Some (length (takeWhile (\<lambda>x. x \<noteq> c) s)) else None)"

definition lastIndexOf :: "char \<Rightarrow> string \<Rightarrow> nat option" where
  "lastIndexOf c s = map_option (\<lambda>i. length s - 1 - i) (indexOf c (rev s))"

definition addrError :: "string \<Rightarrow> string \<Rightarrow> error" where
  "addrError addr why = Wrap (''address '' @ addr) (Plain why)"

definition splitBracket :: "string \<Rightarrow> nat \<Rightarrow> (string \<times> nat \<times> nat) result" where
  "splitBracket a i =
     (case indexOf (CHR '']'') a of
        None \<Rightarrow> Inl (addrError a ''missing ']' in address'')
      | Some end \<Rightarrow>
          if end + 1 = length a then Inl (addrError a ''missing port in address'')
          else if end + 1 = i then Inr (take (end - 1) (drop 1 a), 1, end + 1)
          else if a ! (end + 1) = CHR '':'' then Inl (addrError a ''too many colons in address'')
          else Inl (addrError a ''missing port in address''))"

definition SplitHostPort :: "string \<Rightarrow> (string \<times> string) result" where
  "SplitHostPort a =
     (case lastIndexOf (CHR '':'') a of
        None \<Rightarrow> Inl (addrError a ''missing port in address'')
      | Some i \<Rightarrow>
          (case (if a ! 0 = CHR ''['' then splitBracket a i
                 else if CHR '':'' \<in> set (take i a) then Inl (addrError a ''too many colons in address'')
                 else Inr (take i a, 0, 0)) of
             Inl e \<Rightarrow> Inl e
           | Inr (host, j, k) \<Rightarrow>
               if CHR ''['' \<in> set (drop j a) then Inl (addrError a ''unexpected '[' in address'')
               else if CHR '']'' \<in> set (drop k a) then Inl (addrError a ''unexpected ']' in address'')
               else Inr (host, drop (i + 1) a)))"

section \<open>Validation\<close>

fun checkDurations :: "(string \<times> int) list \<Rightarrow> error option" where
  "checkDurations [] = None"
| "checkDurations ((name, val) # ds) =
     (if val < 0 then Some (Plain (name @ '' must not be negative'')) else checkDurations ds)"

definition ValidateServer :: "serverConfig \<Rightarrow> error option" where
  "ValidateServer c =
     (if ServerPort c < 1 \<or> ServerPort c > maxPort then Some (Plain ''SERVER_PORT out of range'')
      else if ServerMaxBodyBytes c \<le> 0 then Some (Plain ''SERVER_MAX_BODY_BYTES must be positive'')
      else if ServerMaxHeaderBytes c \<le> 0 then Some (Plain ''SERVER_MAX_HEADER_BYTES must be positive'')
      else case checkDurations
                  [(''SERVER_READ_TIMEOUT'', ServerReadTimeout c),
                   (''SERVER_READ_HEADER_TIMEOUT'', ServerReadHeaderTimeout c),
                   (''SERVER_WRITE_TIMEOUT'', ServerWriteTimeout c),
                   (''SERVER_IDLE_TIMEOUT'', ServerIdleTimeout c),
                   (''READINESS_CACHE_TTL'', ReadinessCacheTTL c)] of
             Some e \<Rightarrow> Some e
           | None \<Rightarrow>
               (case SplitHostPort (HealthServerAddr c) of
                  Inl e \<Rightarrow> Some (Wrap (''HEALTH_SERVER_ADDR '' @ HealthServerAddr c @ '' is not a valid host:port'') e)
                | Inr _ \<Rightarrow> None))"

definition InitConfig :: "serverConfig result \<Rightarrow> serverConfig result" where
  "InitConfig env =
     (case env of
        Inl e \<Rightarrow> Inl (Wrap ''reading configuration from environment'' e)
      | Inr cfg \<Rightarrow>
          (case ValidateServer cfg of Some e \<Rightarrow> Inl (Wrap ''invalid configuration'' e) | None \<Rightarrow> Inr cfg))"

lemmas server_config_defs [go_defs] = maxPort_def defaultServerConfig_def indexOf_def lastIndexOf_def
  addrError_def splitBracket_def SplitHostPort_def ValidateServer_def InitConfig_def

text \<open>What validation promises.\<close>

definition validServer :: "serverConfig \<Rightarrow> bool" where
  "validServer c \<longleftrightarrow>
     1 \<le> ServerPort c \<and> ServerPort c \<le> 65535 \<and> 0 < ServerMaxBodyBytes c \<and> 0 < ServerMaxHeaderBytes c \<and>
     0 \<le> ServerReadTimeout c \<and> 0 \<le> ServerReadHeaderTimeout c \<and> 0 \<le> ServerWriteTimeout c \<and>
     0 \<le> ServerIdleTimeout c \<and> 0 \<le> ReadinessCacheTTL c \<and>
     (\<exists>host port. SplitHostPort (HealthServerAddr c) = Inr (host, port))"

lemma ValidateServer_iff: "ValidateServer c = None \<longleftrightarrow> validServer c"
  by (auto simp: ValidateServer_def validServer_def maxPort_def split: option.splits if_splits sum.splits)

lemma InitConfig_Inr: "InitConfig env = Inr cfg \<longleftrightarrow> env = Inr cfg \<and> validServer cfg"
  by (auto simp: InitConfig_def ValidateServer_iff [symmetric] split: sum.splits option.splits)

lemma lastIndexOf_append:
  assumes "c \<notin> set port"
  shows "lastIndexOf c (host @ c # port) = Some (length host)"
  using assms by (simp add: lastIndexOf_def indexOf_def takeWhile_append)

text \<open>A plain host and a port, joined by a colon, split into what was joined.\<close>

lemma SplitHostPort_join:
  assumes "CHR '':'' \<notin> set host" "CHR ''['' \<notin> set host" "CHR '']'' \<notin> set host"
    and "CHR '':'' \<notin> set port" "CHR ''['' \<notin> set port" "CHR '']'' \<notin> set port"
  shows "SplitHostPort (host @ '':'' @ port) = Inr (host, port)"
proof -
  have "(host @ CHR '':'' # port) ! 0 \<noteq> CHR ''[''" using assms(2) by (cases host) auto
  with assms lastIndexOf_append [OF assms(4), of host] show ?thesis by (simp add: SplitHostPort_def)
qed

section \<open>Properties\<close>

text \<open>C38: Loading the configuration succeeds exactly when it could be read and satisfies every bound the server
relies on, including a health address that splits into host and port.\<close>

theorem server_config_checked:
  "InitConfig env = Inr cfg \<longleftrightarrow> env = Inr cfg \<and> validServer cfg"
  by (rule InitConfig_Inr)

text \<open>An address made of a host without colons or brackets, a colon and such a port splits into that host
and that port.\<close>

theorem address_roundtrip:
  assumes "list_all (\<lambda>c. c \<notin> set (host @ port)) [CHR '':'', CHR ''['', CHR '']'']"
  shows "SplitHostPort (host @ '':'' @ port) = Inr (host, port)"
  using assms by (intro SplitHostPort_join) auto

theorem address_roundtrip_witness: "SplitHostPort '':8080'' = Inr ([], ''8080'')"
  using address_roundtrip [of "[]" "''8080''"] by simp

end
