(* ===== verification/Server.thy ===== *)
theory Server
  imports Readiness Server_Config
begin

text \<open>
  The two HTTP servers of \<^verbatim>\<open>internal/server/server.go\<close>: the routing table with what \<^verbatim>\<open>http.ServeMux\<close> makes
  of it, the handlers wrapped in their layers, and the servers' settings and shutdown.  The state
  behind a handler is the readiness cache together with the provider's.  Handlers of other packages
  (the Prometheus exposition, the profiler) are arguments, as are the status and its text that the
  mux redirects with.
\<close>

section \<open>Routing\<close>

record route =
  rtMethod :: string
  rtPath :: string

definition patternText :: "route \<Rightarrow> string" where
  "patternText r = rtMethod r @ '' '' @ rtPath r"

text \<open>A path that ends in a slash stands for its subtree, and \<^verbatim>\<open>GET\<close> serves \<^verbatim>\<open>HEAD\<close> too.\<close>

definition pathMatches :: "string \<Rightarrow> route \<Rightarrow> bool" where
  "pathMatches path r \<longleftrightarrow> rtPath r = path \<or> has_suffix (rtPath r) ''/'' \<and> has_prefix path (rtPath r)"

definition methodMatches :: "string \<Rightarrow> route \<Rightarrow> bool" where
  "methodMatches method r \<longleftrightarrow> rtMethod r = method \<or> rtMethod r = ''GET'' \<and> method = ''HEAD''"

text \<open>The most specific of the matching patterns is the one with the longest path.\<close>

fun mostSpecific :: "(route \<times> 'h) list \<Rightarrow> (route \<times> 'h) option" where
  "mostSpecific [] = None"
| "mostSpecific (r # rs) =
     (case mostSpecific rs of
        None \<Rightarrow> Some r
      | Some s \<Rightarrow> if length (rtPath (fst s)) > length (rtPath (fst r)) then Some s else Some r)"

definition findRoute :: "(route \<times> 'h) list \<Rightarrow> string \<Rightarrow> string \<Rightarrow> (route \<times> 'h) option" where
  "findRoute rs method path =
     mostSpecific (filter (\<lambda>(r, _). methodMatches method r \<and> pathMatches path r) rs)"

text \<open>\<^verbatim>\<open>path.Clean\<close> on a request path: empty and dot elements vanish, a double dot drops its parent.\<close>

fun splitSlash :: "string \<Rightarrow> string \<Rightarrow> string list" where
  "splitSlash acc [] = [rev acc]"
| "splitSlash acc (c # s) = (if c = CHR ''/'' then rev acc # splitSlash [] s else splitSlash (c # acc) s)"

fun cleanElems :: "string list \<Rightarrow> string list \<Rightarrow> string list" where
  "cleanElems out [] = rev out"
| "cleanElems out (e # es) =
     (if e = [] \<or> e = ''.'' then cleanElems out es
      else if e = ''..'' then cleanElems (drop 1 out) es
      else cleanElems (e # out) es)"

definition cleanPath :: "string \<Rightarrow> string" where
  "cleanPath p =
     (let np = concat (map (\<lambda>e. ''/'' @ e) (cleanElems [] (splitSlash [] p)))
      in if np = [] then ''/''
         else if has_suffix p ''/'' then np @ ''/'' else np)"

definition httpErrorReply :: "int \<Rightarrow> string \<Rightarrow> 'p exchange \<Rightarrow> 'p exchange" where
  "httpErrorReply code msg x =
     Write (msg @ [char_of (10::nat)])
       (WriteHeader code (setHeader ''X-Content-Type-Options'' ''nosniff''
          (setHeader ''Content-Type'' ''text/plain; charset=utf-8'' x)))"

definition allowed :: "(route \<times> 'h) list \<Rightarrow> string \<Rightarrow> string list" where
  "allowed rs path =
     (let ms = remdups (map (rtMethod \<circ> fst) (filter (\<lambda>(r, _). pathMatches path r) rs))
      in sort (if ''GET'' \<in> set ms then ''HEAD'' # ms else ms))"

definition withPattern :: "string \<Rightarrow> 'p exchange \<Rightarrow> 'p exchange" where
  "withPattern pat x = x\<lparr>request := (request x)\<lparr>hrPattern := pat\<rparr>\<rparr>"

text \<open>\<^verbatim>\<open>http.Redirect\<close> to a path.\<close>

definition htmlEscape :: "string \<Rightarrow> string" where
  "htmlEscape s = concat (map (\<lambda>c.
     if c = CHR ''&'' then ''&amp;'' else if c = CHR ''<'' then ''&lt;'' else if c = CHR ''>'' then ''&gt;''
     else if c = CHR 0x22 then ''&#34;'' else if c = CHR 0x27 then ''&#39;'' else [c]) s)"

definition hexEscapeNonASCII :: "string \<Rightarrow> string" where
  "hexEscapeNonASCII s = concat (map (\<lambda>c.
     let n = of_char c :: nat in if n \<ge> 128 then [CHR ''%'', hex_digit (n div 16), hex_digit (n mod 16)] else [c]) s)"

definition redirectHandler :: "int \<times> string \<Rightarrow> string \<Rightarrow> 'p handler" where
  "redirectHandler how url x =
     (case how of (code, statusText) \<Rightarrow>
       (let method = hrMethod (request x);
            hadCT = (map_of (header x) ''Content-Type'' \<noteq> None);
            x = setHeader ''Location'' (hexEscapeNonASCII url) x;
            x = (if \<not> hadCT \<and> (method = ''GET'' \<or> method = ''HEAD'')
                 then setHeader ''Content-Type'' ''text/html; charset=utf-8'' x else x);
            x = WriteHeader code x
        in (Done, if \<not> hadCT \<and> method = ''GET''
                  then Write (''<a href='' @ [CHR 0x22] @ htmlEscape url @ [CHR 0x22] @ ''>'' @ statusText @ ''</a>.'' @
                         [char_of (10::nat), char_of (10::nat)]) x
                  else x)))"

text \<open>
  A path that names a subtree without its slash is redirected to the subtree, and an unclean path to
  the clean one; a \<^verbatim>\<open>CONNECT\<close> path is taken as it is.
\<close>

definition slashed :: "(route \<times> 'h) list \<Rightarrow> string \<Rightarrow> string \<Rightarrow> route option" where
  "slashed rs method path =
     (if has_suffix path ''/'' \<or> (case findRoute rs method path of None \<Rightarrow> False | Some (r, _) \<Rightarrow> rtPath r = path)
      then None
      else case findRoute rs method (path @ ''/'') of
             None \<Rightarrow> None
           | Some (r, _) \<Rightarrow> if rtPath r = path @ ''/'' then Some r else None)"

definition serveMux :: "(string \<Rightarrow> 'p handler) \<Rightarrow> (route \<times> 'p handler) list \<Rightarrow> 'p handler" where
  "serveMux redirect rs x =
     (let method = hrMethod (request x);
          connect = (method = ''CONNECT'');
          path = (if connect then hrPath (request x) else cleanPath (hrPath (request x)));
          found = findRoute rs method path
      in case (if connect then None else slashed rs method path) of
           Some r \<Rightarrow> redirect (path @ ''/'') (withPattern (patternText r) x)
         | None \<Rightarrow>
             if path \<noteq> hrPath (request x) then
               redirect path (withPattern (case found of None \<Rightarrow> [] | Some (r, _) \<Rightarrow> patternText r) x)
             else case found of
               Some (r, h) \<Rightarrow> h (withPattern (patternText r) x)
             | None \<Rightarrow>
                 if allowed rs path \<noteq> [] then
                   (Done, httpErrorReply 405 ''Method Not Allowed''
                      (setHeader ''Allow'' (join_with '', '' (allowed rs path)) (withPattern [] x)))
                 else (Done, httpErrorReply 404 ''404 page not found'' (withPattern [] x)))"

section \<open>The handlers of the two servers\<close>

text \<open>The webhook sees the provider only; the readiness cache rides along.\<close>

definition siteHooks :: "('m, 'p) hooks \<Rightarrow> ('m, probeCache \<times> 'p) hooks" where
  "siteHooks hk =
     \<lparr>hkRecords = (\<lambda>ctx (c, p). case hkRecords hk ctx p of (r, p) \<Rightarrow> (r, c, p)),
      hkApplyChanges = (\<lambda>ctx ch (c, p). case hkApplyChanges hk ctx ch p of (r, p) \<Rightarrow> (r, c, p)),
      hkAdjustEndpoints = (\<lambda>es (c, p). case hkAdjustEndpoints hk es p of (r, p) \<Rightarrow> (r, c, p)),
      hkDomainFilter = (\<lambda>(c, p). hkDomainFilter hk p)\<rparr>"

record ('m, 'p) site =
  stHooks :: "('m, 'p) hooks"
  stCodec :: "'m codec"
  stProbe :: "ctx \<Rightarrow> 'p \<Rightarrow> error option \<times> 'p"
  stRedirect :: "int \<times> string"

definition mountHealth :: "(probeCache \<times> 'p) handler \<Rightarrow> (route \<times> (probeCache \<times> 'p) handler) list" where
  "mountHealth readyz =
     [(\<lparr>rtMethod = ''GET'', rtPath = ''/healthz''\<rparr>, okHandler),
      (\<lparr>rtMethod = ''GET'', rtPath = ''/readyz''\<rparr>, readyz)]"

definition mainRoutes ::
  "('m, 'p) site \<Rightarrow> (probeCache \<times> 'p) handler \<Rightarrow> (route \<times> (probeCache \<times> 'p) handler) list" where
  "mainRoutes st readyz =
     [(\<lparr>rtMethod = ''GET'', rtPath = ''/''\<rparr>, Negotiate (siteHooks (stHooks st)) (stCodec st)),
      (\<lparr>rtMethod = ''GET'', rtPath = ''/records''\<rparr>, webhookRecords (siteHooks (stHooks st)) (stCodec st)),
      (\<lparr>rtMethod = ''POST'', rtPath = ''/records''\<rparr>, webhookApplyChanges (siteHooks (stHooks st)) (stCodec st)),
      (\<lparr>rtMethod = ''POST'', rtPath = ''/adjustendpoints''\<rparr>,
         webhookAdjustEndpoints (siteHooks (stHooks st)) (stCodec st))] @ mountHealth readyz"

definition buildMainHandler ::
  "serverConfig \<Rightarrow> ('m, 'p) site \<Rightarrow> (probeCache \<times> 'p) handler \<Rightarrow> (probeCache \<times> 'p) handler" where
  "buildMainHandler cfg st readyz =
     recoveryAndAccessLog (HTTPMetricsMiddleware (limitBody (ServerMaxBodyBytes cfg)
       (serveMux (redirectHandler (stRedirect st)) (mainRoutes st readyz))))"

definition healthRoutes ::
  "serverConfig \<Rightarrow> (probeCache \<times> 'p) handler \<Rightarrow> (string \<Rightarrow> (probeCache \<times> 'p) handler) \<Rightarrow>
     (probeCache \<times> 'p) handler \<Rightarrow> (route \<times> (probeCache \<times> 'p) handler) list" where
  "healthRoutes cfg promhttp pprof readyz =
     (\<lparr>rtMethod = ''GET'', rtPath = ''/metrics''\<rparr>, promhttp) # mountHealth readyz @
     (if PprofEnabled cfg then
        map (\<lambda>path. (\<lparr>rtMethod = ''GET'', rtPath = path\<rparr>, pprof path))
          [''/debug/pprof/'', ''/debug/pprof/cmdline'', ''/debug/pprof/profile'', ''/debug/pprof/symbol'',
           ''/debug/pprof/trace'']
      else [])"

definition buildHealthHandler ::
  "serverConfig \<Rightarrow> ('m, 'p) site \<Rightarrow> (probeCache \<times> 'p) handler \<Rightarrow> (string \<Rightarrow> (probeCache \<times> 'p) handler) \<Rightarrow>
     (probeCache \<times> 'p) handler \<Rightarrow> (probeCache \<times> 'p) handler" where
  "buildHealthHandler cfg st promhttp pprof readyz =
     recoveryAndAccessLog (serveMux (redirectHandler (stRedirect st)) (healthRoutes cfg promhttp pprof readyz))"

section \<open>The servers\<close>

record httpServer =
  srvAddr :: string
  srvReadTimeout :: int
  srvReadHeaderTimeout :: int
  srvWriteTimeout :: int
  srvIdleTimeout :: int
  srvMaxHeaderBytes :: int

definition newServer :: "string \<Rightarrow> serverConfig \<Rightarrow> httpServer" where
  "newServer addr cfg =
     \<lparr>srvAddr = addr, srvReadTimeout = ServerReadTimeout cfg, srvReadHeaderTimeout = ServerReadHeaderTimeout cfg,
      srvWriteTimeout = ServerWriteTimeout cfg, srvIdleTimeout = ServerIdleTimeout cfg,
      srvMaxHeaderBytes = ServerMaxHeaderBytes cfg\<rparr>"

definition runServers :: "serverConfig \<Rightarrow> httpServer \<times> httpServer" where
  "runServers cfg =
     (newServer (ServerHost cfg @ '':'' @ format_int (ServerPort cfg)) cfg, newServer (HealthServerAddr cfg) cfg)"

text \<open>
  \<^verbatim>\<open>serve\<close> waits for the listener to stop, or for the context to end and the shutdown to finish; its
  result on either event.  \<open>groupWait\<close> is the group's verdict over the results in the order they come in.
\<close>

definition errServerClosed :: error where "errServerClosed = Plain ''http: Server closed''"
definition shutdownTimeout :: int where "shutdownTimeout = 30 * second"

datatype serveEvent = ListenerStopped error | ContextDone "error option"

definition serve :: "string \<Rightarrow> serveEvent \<Rightarrow> error option" where
  "serve name ev =
     (case ev of
        ListenerStopped e \<Rightarrow>
          if error_is e errServerClosed then None else Some (Wrap (name @ '' server'') e)
      | ContextDone None \<Rightarrow> None
      | ContextDone (Some e) \<Rightarrow> Some (Wrap (name @ '' server shutdown'') e))"

fun groupWait :: "error option list \<Rightarrow> error option" where
  "groupWait [] = None"
| "groupWait (Some e # rs) = Some e"
| "groupWait (None # rs) = groupWait rs"

lemmas server_defs [go_defs] = patternText_def pathMatches_def methodMatches_def findRoute_def cleanPath_def
  httpErrorReply_def allowed_def withPattern_def htmlEscape_def hexEscapeNonASCII_def redirectHandler_def slashed_def serveMux_def siteHooks_def mountHealth_def mainRoutes_def
  buildMainHandler_def healthRoutes_def buildHealthHandler_def newServer_def runServers_def
  errServerClosed_def shutdownTimeout_def serve_def

section \<open>What the mux does with a request\<close>

lemma mostSpecific_in: "mostSpecific rs = Some r \<Longrightarrow> r \<in> set rs"
  by (induction rs arbitrary: r) (auto split: option.splits if_splits)

lemma findRoute_in:
  "findRoute rs method path = Some (r, h) \<Longrightarrow> (r, h) \<in> set rs \<and> methodMatches method r \<and> pathMatches path r"
  by (auto simp: findRoute_def dest!: mostSpecific_in)

lemma serveMux_cases:
  obtains (redirected) url pat where "serveMux redirect rs x = redirect url (withPattern pat x)"
  | (routed) r h where "(r, h) \<in> set rs" "methodMatches (hrMethod (request x)) r" "pathMatches (hrPath (request x)) r"
      "serveMux redirect rs x = h (withPattern (patternText r) x)"
  | (refused) methods where "serveMux redirect rs x = (Done, httpErrorReply 405 ''Method Not Allowed''
      (setHeader ''Allow'' methods (withPattern [] x)))"
  | (missing) "serveMux redirect rs x = (Done, httpErrorReply 404 ''404 page not found'' (withPattern [] x))"
proof -
  let ?m = "hrMethod (request x)"
  define path where "path = (if ?m = ''CONNECT'' then hrPath (request x) else cleanPath (hrPath (request x)))"
  define found where "found = findRoute rs ?m path"
  have eq: "serveMux redirect rs x =
      (case (if ?m = ''CONNECT'' then None else slashed rs ?m path) of
           Some r \<Rightarrow> redirect (path @ ''/'') (withPattern (patternText r) x)
         | None \<Rightarrow>
             if path \<noteq> hrPath (request x) then
               redirect path (withPattern (case found of None \<Rightarrow> [] | Some (r, _) \<Rightarrow> patternText r) x)
             else case found of
               Some (r, h) \<Rightarrow> h (withPattern (patternText r) x)
             | None \<Rightarrow>
                 if allowed rs path \<noteq> [] then
                   (Done, httpErrorReply 405 ''Method Not Allowed''
                      (setHeader ''Allow'' (join_with '', '' (allowed rs path)) (withPattern [] x)))
                 else (Done, httpErrorReply 404 ''404 page not found'' (withPattern [] x)))"
    unfolding serveMux_def Let_def path_def found_def by (rule refl)
  show thesis
  proof (cases "if ?m = ''CONNECT'' then None else slashed rs ?m path")
    case (Some r)
    with eq show thesis by (intro redirected [of "path @ ''/''" "patternText r"]) simp
  next
    case none: None
    show thesis
    proof (cases "path = hrPath (request x)")
      case False
      with eq none show thesis
        by (intro redirected [of path "case found of None \<Rightarrow> [] | Some (r, _) \<Rightarrow> patternText r"]) simp
    next
      case path: True
      show thesis
      proof (cases found)
        case (Some rh)
        obtain r h where rh: "rh = (r, h)" by fastforce
        with Some findRoute_in [of rs ?m path r h] eq none path show thesis
          by (intro routed [of r h]) (simp_all add: found_def)
      next
        case None
        with eq none path show thesis by (cases "allowed rs path = []") (auto intro: refused missing)
      qed
    qed
  qed
qed

lemma withPattern_simps [simp]:
  "sent (withPattern p x) = sent x" "recorders (withPattern p x) = recorders x" "hmets (withPattern p x) = hmets x"
  "accessLog (withPattern p x) = accessLog x" "hooked (withPattern p x) = hooked x"
  "recorded (withPattern p x) = recorded x"
  by (simp_all add: withPattern_def)

lemma httpErrorReply_simps [simp]:
  "length (recorders (httpErrorReply n msg x)) = length (recorders x)" "hmets (httpErrorReply n msg x) = hmets x"
  "accessLog (httpErrorReply n msg x) = accessLog x" "hooked (httpErrorReply n msg x) = hooked x"
  by (simp_all add: httpErrorReply_def)

lemma recorded_reply: "sent x = None \<Longrightarrow> recorded (httpErrorReply n msg x)"
  by (simp add: httpErrorReply_def recorded_Write recorded_WriteHeader)

lemma mux_tracks:
  assumes "\<And>url. tracks (redirect url)" and "\<And>r h. (r, h) \<in> set rs \<Longrightarrow> tracks h"
  shows "tracks (serveMux redirect rs)"
proof (rule tracksI)
  fix x out x' assume h: "serveMux redirect rs x = (out, x')" "sent x = None" "recorded x"
  show "recorded x' \<and> length (recorders x') = length (recorders x)"
    using h by (cases rule: serveMux_cases [of redirect rs x])
      (auto dest!: assms [THEN tracksD] simp: recorded_reply)
qed

lemma mux_quiet:
  assumes "\<And>url. quiet (redirect url)" and "\<And>r h. (r, h) \<in> set rs \<Longrightarrow> quiet h"
  shows "quiet (serveMux redirect rs)"
proof (rule quietI)
  fix x out x' assume h: "serveMux redirect rs x = (out, x')"
  show "accessLog x' = accessLog x \<and> reading (hmets x') HTTPInFlight = reading (hmets x) HTTPInFlight \<and>
      out \<in> {Done, Panicked}"
    using h by (cases rule: serveMux_cases [of redirect rs x]) (auto dest!: assms [THEN quietD])
qed

lemma mux_prompt:
  assumes "\<And>url. prompt (redirect url)" and "\<And>r h. (r, h) \<in> set rs \<Longrightarrow> prompt h"
  shows "prompt (serveMux redirect rs)"
  unfolding prompt_def
proof (intro allI impI)
  fix x x' assume h: "serveMux redirect rs x = (Panicked, x')" "sent x = None"
  show "sent x' = None"
    using h by (cases rule: serveMux_cases [of redirect rs x]) (auto dest!: assms [THEN promptD])
qed

lemma health_handlers:
  "tracks okHandler" "quiet okHandler" "prompt okHandler"
  "tracks (readyzHandler probe ttl ts)" "quiet (readyzHandler probe ttl ts)" "prompt (readyzHandler probe ttl ts)"
  by (simp_all add: ok_tracks readyz_tracks)
     (auto simp: quiet_def prompt_def okHandler_def readyzHandler_def split: prod.splits option.splits)

lemma redirect_handlers:
  "tracks (redirectHandler how url)" "quiet (redirectHandler how url)" "prompt (redirectHandler how url)"
proof -
  show "tracks (redirectHandler how url)"
    by (rule tracksI)
       (auto simp: redirectHandler_def Let_def intro!: recorded_Write recorded_WriteHeader split: prod.splits)
  show "quiet (redirectHandler how url)" "prompt (redirectHandler how url)"
    by (auto simp: quiet_def prompt_def redirectHandler_def Let_def split: prod.splits)
qed

text \<open>What every handler of the webhook server does: it answers at most once, and nothing else.\<close>

definition polite :: "'p handler \<Rightarrow> bool" where
  "polite h \<longleftrightarrow> tracks h \<and> quiet h \<and> prompt h"

lemma polite_routes:
  assumes "(r, h) \<in> set (mainRoutes st (readyzHandler probe ttl ts))"
  shows "polite h"
proof -
  let ?hk = "siteHooks (stHooks st)" and ?cd = "stCodec st"
  have "h \<in> {Negotiate ?hk ?cd, webhookRecords ?hk ?cd, webhookApplyChanges ?hk ?cd,
      webhookAdjustEndpoints ?hk ?cd, okHandler, readyzHandler probe ttl ts}"
    using assms by (auto simp only: mainRoutes_def mountHealth_def set_append list.set Un_iff insert_iff empty_iff prod.inject)
  then show ?thesis
    unfolding polite_def
    by (elim insertE emptyE) (simp_all add: handlers_track handlers_quiet handlers_prompt health_handlers)
qed

lemma main_answers:
  assumes "sent x = None" "recorders x = []"
  shows "\<exists>x'. buildMainHandler cfg st (readyzHandler probe ttl ts) x = (Done, x') \<and> answeredOnce x x'"
proof -
  let ?mux = "serveMux (redirectHandler (stRedirect st)) (mainRoutes st (readyzHandler probe ttl ts))"
  note h = polite_routes [where st = st and probe = probe and ttl = ttl and ts = ts, unfolded polite_def]
  have "tracks ?mux" by (rule mux_tracks [OF redirect_handlers(1)]) (use h in blast)
  moreover have "quiet ?mux" by (rule mux_quiet [OF redirect_handlers(2)]) (use h in blast)
  moreover have "prompt ?mux" by (rule mux_prompt [OF redirect_handlers(3)]) (use h in blast)
  ultimately show ?thesis
    unfolding buildMainHandler_def
    by (intro recovery_answers metrics_tracks metrics_quiet metrics_prompt limit_tracks limit_quiet limit_prompt assms)
qed

section \<open>Property\<close>

text \<open>C13: Every request to the webhook server is answered and logged on exactly one line, with the status that went
over the wire, and leaves the in-flight gauge as it found it - whatever its method, path, headers and
body, and whether or not the provider panics.\<close>

theorem every_request_answered:
  assumes "sent x = None" and "recorders x = []"
  shows "\<exists>x'. buildMainHandler cfg st (readyzHandler probe ttl ts) x = (Done, x') \<and> answeredOnce x x'"
  using assms by (rule main_answers)

end
