(* ===== verification/Site.thy ===== *)
theory Site
  imports Server
begin

text \<open>
  The composition: the webhook server over a provider.  A plan reaches the provider only as a
  \<^verbatim>\<open>POST\<close> to \<^verbatim>\<open>/records\<close>, its answer is the provider's verdict, and every request keeps what the provider
  keeps.  The last part puts the provider of \<^verbatim>\<open>internal/opnsense\<close> behind the server.
\<close>

section \<open>Routing is independent of the handlers\<close>

definition rehandle :: "(route \<Rightarrow> 'h \<Rightarrow> 'h) \<Rightarrow> (route \<times> 'h) list \<Rightarrow> (route \<times> 'h) list" where
  "rehandle g rs = map (\<lambda>(r, h). (r, g r h)) rs"

lemma mostSpecific_map:
  "mostSpecific (map (\<lambda>(r, h). (r, g r h)) rs) = map_option (\<lambda>(r, h). (r, g r h)) (mostSpecific rs)"
  by (induction rs) (auto split: option.splits)

lemma filter_rehandle:
  "filter (\<lambda>(r, _). P r) (rehandle g rs) = rehandle g (filter (\<lambda>(r, _). P r) rs)"
  by (induction rs) (auto simp: rehandle_def)

lemma findRoute_rehandle:
  "findRoute (rehandle g rs) m p = map_option (\<lambda>(r, h). (r, g r h)) (findRoute rs m p)"
  unfolding findRoute_def filter_rehandle by (simp add: rehandle_def mostSpecific_map)

lemma slashed_rehandle: "slashed (rehandle g rs) m p = slashed rs m p"
  by (auto simp: slashed_def findRoute_rehandle split: option.splits)

lemma allowed_rehandle: "allowed (rehandle g rs) p = allowed rs p"
  unfolding allowed_def filter_rehandle
  by (simp add: rehandle_def comp_def case_prod_beta)

lemma serveMux_rehandle:
  assumes "\<And>r h. (r, h) \<in> set rs \<Longrightarrow> pathMatches (hrPath (request x)) r \<Longrightarrow> methodMatches (hrMethod (request x)) r \<Longrightarrow>
    g r h = h"
  shows "serveMux redirect (rehandle g rs) x = serveMux redirect rs x"
proof -
  let ?m = "hrMethod (request x)"
  define path where "path = (if ?m = ''CONNECT'' then hrPath (request x) else cleanPath (hrPath (request x)))"
  have pat: "(case map_option (\<lambda>(r, h). (r, g r h)) fd of None \<Rightarrow> [] | Some (r, _) \<Rightarrow> patternText r) =
      (case fd of None \<Rightarrow> [] | Some (r, _) \<Rightarrow> patternText r)" for fd
    by (auto split: option.split)
  have g: "g r h = h" if "path = hrPath (request x)" "findRoute rs ?m path = Some (r, h)" for r h
    using that findRoute_in assms by fastforce
  show ?thesis
  proof (cases "path = hrPath (request x)")
    case True
    then show ?thesis
      unfolding serveMux_def slashed_rehandle allowed_rehandle findRoute_rehandle Let_def path_def [symmetric]
      using g by (cases "findRoute rs ?m path") (auto split: option.split)
  next
    case False
    then show ?thesis
      unfolding serveMux_def slashed_rehandle allowed_rehandle findRoute_rehandle Let_def path_def [symmetric] pat
      by (simp split: option.split)
  qed
qed

text \<open>The layers look at a handler only at requests of the same method and path.\<close>

definition sameAt :: "string \<Rightarrow> string \<Rightarrow> 'p handler \<Rightarrow> 'p handler \<Rightarrow> bool" where
  "sameAt m p h h' \<longleftrightarrow> (\<forall>x. hrMethod (request x) = m \<longrightarrow> hrPath (request x) = p \<longrightarrow> h x = h' x)"

lemma sameAtD: "sameAt m p h h' \<Longrightarrow> hrMethod (request x) = m \<Longrightarrow> hrPath (request x) = p \<Longrightarrow> h x = h' x"
  by (simp add: sameAt_def)

lemma request_wrap [simp]: "request (NewResponseRecorder x) = request x"
  by (simp add: NewResponseRecorder_def)

lemma layers_same:
  assumes "sameAt m p h h'"
  shows "sameAt m p (recoveryAndAccessLog (HTTPMetricsMiddleware (limitBody n h)))
    (recoveryAndAccessLog (HTTPMetricsMiddleware (limitBody n h')))"
proof -
  have "sameAt m p (limitBody n h) (limitBody n h')"
    using assms by (simp add: sameAt_def limitBody_def)
  then have "sameAt m p (HTTPMetricsMiddleware (limitBody n h)) (HTTPMetricsMiddleware (limitBody n h'))"
    by (simp add: sameAt_def HTTPMetricsMiddleware_def)
  then show ?thesis by (simp add: sameAt_def recoveryAndAccessLog_def)
qed

text \<open>The site with another operation in place of the provider's apply.\<close>

definition withApply :: "(ctx \<Rightarrow> 'm changes \<Rightarrow> (error, 'p) act) \<Rightarrow> ('m, 'p) site \<Rightarrow> ('m, 'p) site" where
  "withApply f st = st\<lparr>stHooks := (stHooks st)\<lparr>hkApplyChanges := f\<rparr>\<rparr>"

abbreviation applyRoute :: route where
  "applyRoute \<equiv> \<lparr>rtMethod = ''POST'', rtPath = ''/records''\<rparr>"

lemma handlers_of_hooks:
  "hkRecords hk = hkRecords hk' \<Longrightarrow> webhookRecords hk cd = webhookRecords hk' cd"
  "hkAdjustEndpoints hk = hkAdjustEndpoints hk' \<Longrightarrow> webhookAdjustEndpoints hk cd = webhookAdjustEndpoints hk' cd"
  "hkDomainFilter hk = hkDomainFilter hk' \<Longrightarrow> Negotiate hk cd = Negotiate hk' cd"
  unfolding webhookRecords_def webhookAdjustEndpoints_def Negotiate_def
  by (erule ssubst, rule refl)+

lemma withApply_hooks:
  "hkRecords (siteHooks (stHooks (withApply f st))) = hkRecords (siteHooks (stHooks st))"
  "hkAdjustEndpoints (siteHooks (stHooks (withApply f st))) = hkAdjustEndpoints (siteHooks (stHooks st))"
  "hkDomainFilter (siteHooks (stHooks (withApply f st))) = hkDomainFilter (siteHooks (stHooks st))"
  by (simp_all add: withApply_def siteHooks_def)

lemma mainRoutes_withApply:
  "mainRoutes (withApply f st) rz =
     rehandle (\<lambda>r h. if r = applyRoute then webhookApplyChanges (siteHooks (stHooks (withApply f st))) (stCodec st) else h)
       (mainRoutes st rz)"
proof -
  have c: "stCodec (withApply f st) = stCodec st" by (simp add: withApply_def)
  note h = withApply_hooks(1) [THEN handlers_of_hooks(1)] withApply_hooks(2) [THEN handlers_of_hooks(2)]
    withApply_hooks(3) [THEN handlers_of_hooks(3)]
  show ?thesis by (simp add: mainRoutes_def mountHealth_def rehandle_def c h)
qed

lemma apply_only_by_post:
  assumes "\<not> (hrMethod (request x) = ''POST'' \<and> hrPath (request x) = ''/records'')"
  shows "buildMainHandler cfg (withApply f st) rz x = buildMainHandler cfg st rz x"
proof -
  let ?m = "hrMethod (request x)" and ?p = "hrPath (request x)"
  have "pathMatches ?p applyRoute \<Longrightarrow> methodMatches ?m applyRoute \<Longrightarrow> False"
    using assms by (auto simp: pathMatches_def methodMatches_def has_suffix_def)
  then have "sameAt ?m ?p (serveMux (redirectHandler (stRedirect (withApply f st))) (mainRoutes (withApply f st) rz))
      (serveMux (redirectHandler (stRedirect st)) (mainRoutes st rz))"
    unfolding sameAt_def mainRoutes_withApply
    by (intro allI impI, subst serveMux_rehandle) (auto simp: withApply_def)
  from layers_same [OF this] show ?thesis unfolding buildMainHandler_def by (rule sameAtD) simp_all
qed

section \<open>The answer to a plan\<close>

lemma applyAnswer_pattern [simp]: "applyAnswer hk cd (r\<lparr>hrPattern := pat\<rparr>) p = applyAnswer hk cd r p"
  by (simp add: applyAnswer_def decodeRequest_def split: option.split decoded.split)

lemma find_apply:
  "findRoute (mainRoutes st rz) ''POST'' ''/records'' =
     Some (applyRoute, webhookApplyChanges (siteHooks (stHooks st)) (stCodec st))"
  by (simp add: findRoute_def mainRoutes_def mountHealth_def methodMatches_def pathMatches_def
      has_prefix_def has_suffix_def)

lemma route_apply:
  assumes "hrMethod (request x) = ''POST''" "hrPath (request x) = ''/records''"
  shows "serveMux redirect (mainRoutes st rz) x =
    webhookApplyChanges (siteHooks (stHooks st)) (stCodec st) (withPattern (patternText applyRoute) x)"
proof -
  have c: "cleanPath ''/records'' = ''/records''" by code_simp
  have s: "slashed (mainRoutes st rz) ''POST'' ''/records'' = None"
    by (simp add: slashed_def find_apply)
  show ?thesis
    unfolding serveMux_def Let_def assms c by (simp add: s find_apply)
qed

lemma logged_hooked [simp]: "hooked (logRequest x) = hooked x"
  by (simp add: logRequest_def)

lemma post_records_answer:
  assumes "sent x = None" "hrMethod (request x) = ''POST''" "hrPath (request x) = ''/records''"
  shows "\<exists>x'. buildMainHandler cfg st rz x = (Done, x') \<and>
    (case applyAnswer (siteHooks (stHooks st)) (stCodec st) ((request x)\<lparr>hrLimit := Some (ServerMaxBodyBytes cfg)\<rparr>) (hooked x)
     of (code, p) \<Rightarrow> wireStatus x' = (case code of Some n \<Rightarrow> n | None \<Rightarrow> 500) \<and> hooked x' = p)"
proof -
  let ?y = "NewResponseRecorder (tally (inc HTTPInFlight) (NewResponseRecorder x))"
  let ?z = "withPattern (patternText applyRoute) (?y\<lparr>request := (request x)\<lparr>hrLimit := Some (ServerMaxBodyBytes cfg)\<rparr>\<rparr>)"
  let ?h = "webhookApplyChanges (siteHooks (stHooks st)) (stCodec st)"
  obtain out z where h: "?h ?z = (out, z)" by fastforce
  have z: "sent ?z = None" "hooked ?z = hooked x"
    "request ?z = (request x)\<lparr>hrLimit := Some (ServerMaxBodyBytes cfg), hrPattern := patternText applyRoute\<rparr>"
    using assms(1) by (simp_all add: NewResponseRecorder_def tally_def withPattern_def)
  from webhookApplyChanges_answer [OF z(1), of "siteHooks (stHooks st)" "stCodec st"] h
  have a: "applyAnswer (siteHooks (stHooks st)) (stCodec st) ((request x)\<lparr>hrLimit := Some (ServerMaxBodyBytes cfg)\<rparr>) (hooked x)
      = (if out = Panicked then None else Some (wireStatus z), hooked z)"
    by (simp only: z applyAnswer_pattern prod.case)
  have o: "out \<in> {Done, Panicked}" using quietD [OF handlers_quiet(2) h] by blast
  have m: "serveMux (redirectHandler (stRedirect st)) (mainRoutes st rz)
      (?y\<lparr>request := (request x)\<lparr>hrLimit := Some (ServerMaxBodyBytes cfg)\<rparr>\<rparr>) = (out, z)"
    by (subst route_apply) (simp_all add: assms(2,3) h)
  have sz: "sent z = None" if "out = Panicked"
    using promptD [OF handlers_prompt(2)] h z(1) that by blast
  show ?thesis
  proof (cases "out = Panicked")
    case True
    let ?w = "tally (addTo HTTPInFlight (- 1)) (unwrap z)"
    have "buildMainHandler cfg st rz x = (Done, unwrap (logRequest (recovered ?w)))"
      using m True by (simp add: buildMainHandler_def recoveryAndAccessLog_def HTTPMetricsMiddleware_def limitBody_def)
    moreover have "wireStatus (recovered ?w) = 500"
      using sz [OF True] by (simp add: recovered_def wireStatus_WriteHeader)
    ultimately show ?thesis using a True by (simp add: recovered_def)
  next
    case False
    with o have d: "out = Done" by simp
    let ?w = "tally (addTo HTTPInFlight (- 1)) (unwrap (tally (RecordHTTPRequest (hrMethod (request z)) (RouteLabel (request z))
                               (Status z) (Written z)) z))"
    have "buildMainHandler cfg st rz x = (Done, unwrap (logRequest ?w))"
      using m d by (simp add: buildMainHandler_def recoveryAndAccessLog_def HTTPMetricsMiddleware_def limitBody_def)
    then show ?thesis using a d by simp
  qed
qed

section \<open>Every request keeps the provider's invariant\<close>

text \<open>The contract of \<open>webhook_provider\<close> with a readiness probe that keeps the invariant too.\<close>

locale served_site = hooks: webhook_provider "stHooks st" I
  for st :: "('m, 'p) site" and I :: "'p \<Rightarrow> bool" +
  assumes probe_keep: "I p \<Longrightarrow> stProbe st ctx p = (e, p') \<Longrightarrow> I p'"

sublocale served_site \<subseteq> site: webhook_provider "siteHooks (stHooks st)" "\<lambda>s. I (snd s)"
  by unfold_locales
     (auto simp: siteHooks_def split: prod.splits
       intro: hooks.records_keep hooks.changes_keep hooks.adjust_keep)

context served_site
begin

lemma readyz_keeps: "site.keeps (readyzHandler (stProbe st) ttl ts)"
  by (rule site.keepsI)
     (auto simp: readyzHandler_def okHandler_def Check_def intro: probe_keep split: prod.splits option.splits if_splits)

lemma redirect_keeps: "site.keeps (redirectHandler how url)"
  by (rule site.keepsI) (auto simp: redirectHandler_def Let_def split: prod.splits)

lemma ok_keeps: "site.keeps okHandler"
  by (rule site.keepsI) (auto simp: okHandler_def)

lemma routes_keep:
  assumes "(r, h) \<in> set (mainRoutes st (readyzHandler (stProbe st) ttl ts))"
  shows "site.keeps h"
proof -
  let ?hk = "siteHooks (stHooks st)" and ?cd = "stCodec st"
  have "h \<in> {Negotiate ?hk ?cd, webhookRecords ?hk ?cd, webhookApplyChanges ?hk ?cd,
      webhookAdjustEndpoints ?hk ?cd, okHandler, readyzHandler (stProbe st) ttl ts}"
    using assms by (auto simp only: mainRoutes_def mountHealth_def set_append list.set Un_iff insert_iff empty_iff prod.inject)
  then show ?thesis
    by (elim insertE emptyE) (simp_all add: site.handlers_keep ok_keeps readyz_keeps)
qed

lemma mux_keeps:
  assumes "\<And>r h. (r, h) \<in> set rs \<Longrightarrow> site.keeps h"
  shows "site.keeps (serveMux (redirectHandler how) rs)"
proof (rule site.keepsI)
  fix x out x' assume h: "serveMux (redirectHandler how) rs x = (out, x')" "I (snd (hooked x))"
  show "I (snd (hooked x'))"
    using h by (cases rule: serveMux_cases [of "redirectHandler how" rs x])
      (auto dest!: assms [THEN site.keepsD] redirect_keeps [THEN site.keepsD])
qed

lemma layers_keep: "site.keeps h \<Longrightarrow> site.keeps (recoveryAndAccessLog (HTTPMetricsMiddleware (limitBody n h)))"
  by (rule site.keepsI)
     (auto simp: recoveryAndAccessLog_def HTTPMetricsMiddleware_def limitBody_def NewResponseRecorder_def
           recovered_def logRequest_def dest!: site.keepsD split: prod.splits outcome.splits)

lemma main_keeps:
  assumes "buildMainHandler cfg st (readyzHandler (stProbe st) ttl ts) x = (out, x')" and "I (snd (hooked x))"
  shows "I (snd (hooked x'))"
  using layers_keep [OF mux_keeps [OF routes_keep]] assms unfolding buildMainHandler_def by (rule site.keepsD)

end

section \<open>Properties\<close>

text \<open>C14: The answer to a posted plan is the provider's verdict: 204 for success, 500 for an error or a panic; a bad
header, an oversized or a malformed body is answered 406, 415, 413 or 400 and never reaches the
provider.\<close>

theorem plan_request_answered:
  assumes "sent x = None" and "hrMethod (request x) = ''POST''" and "hrPath (request x) = ''/records''"
  shows "\<exists>x'. buildMainHandler cfg st rz x = (Done, x') \<and>
    (case applyAnswer (siteHooks (stHooks st)) (stCodec st) ((request x)\<lparr>hrLimit := Some (ServerMaxBodyBytes cfg)\<rparr>) (hooked x)
     of (code, p) \<Rightarrow> wireStatus x' = (case code of Some n \<Rightarrow> n | None \<Rightarrow> 500) \<and> hooked x' = p)"
  using assms by (rule post_records_answer)

text \<open>C15: Nothing but a POST to the records path can apply a plan: any other request is answered alike whatever
the provider's apply does.\<close>

theorem plan_only_by_post:
  assumes "\<not> (hrMethod (request x) = ''POST'' \<and> hrPath (request x) = ''/records'')"
  shows "buildMainHandler cfg (withApply f st) rz x = buildMainHandler cfg st rz x"
  using assms by (rule apply_only_by_post)

end
