(* ===== verification/Program.thy ===== *)
theory Program
  imports Site Lifecycle
begin

text \<open>
  The program of \<^verbatim>\<open>cmd/external-dns-opnsense-webhook/main.go\<close>: the provider of \<^verbatim>\<open>internal/opnsense\<close> behind
  the webhook server, and the decisions taken at start.  What the environment holds, the constructor
  of an endpoint, the JSON of the domain filter and the clock are arguments.
\<close>

section \<open>The provider as the webhook's provider\<close>

record 'm outside =
  ouNewEndpoint :: "string \<Rightarrow> string \<Rightarrow> int \<Rightarrow> string list \<Rightarrow> 'm endpoint_scheme"
  ouShuffle :: "rowKey list \<Rightarrow> rowKey list"
  ouSched :: "nat \<Rightarrow> nat \<Rightarrow> nat"
  ouNow :: int
  ouFilter :: "string list \<Rightarrow> string option"

text \<open>
  \<open>ouShuffle\<close> is the order in which a Go map is walked and \<open>ouSched\<close> that of the steps of the goroutines an apply
  starts.  A request is one step here; \<open>Crowd\<close> interleaves the provider's operations.  A panic of one of an apply's
  goroutines is no panic of the handler: nothing recovers it and the process ends, so for this provider what the
  server does after the outcome \<open>Panicked\<close> is of no account (it does not happen on sane names, see \<open>apply_never_panics\<close>).
\<close>

definition providerHooks :: "'w client \<Rightarrow> config \<Rightarrow> 'm outside \<Rightarrow> ('m, 'w prov) hooks" where
  "providerHooks c cfg ou =
     \<lparr>hkRecords = Records c cfg (ouNewEndpoint ou) (ouNow ou),
      hkApplyChanges = ApplyChanges c cfg (ouSched ou) (ouShuffle ou) (ouNow ou),
      hkAdjustEndpoints = (\<lambda>es p. case AdjustEndpoints cfg es (pmets p) of (out, m) \<Rightarrow> (Inr out, p\<lparr>pmets := m\<rparr>)),
      hkDomainFilter = (\<lambda>p. ouFilter ou (cDomains cfg))\<rparr>"

definition newSite :: "'w client \<Rightarrow> config \<Rightarrow> 'm outside \<Rightarrow> 'm codec \<Rightarrow> int \<times> string \<Rightarrow> ('m, 'w prov) site" where
  "newSite c cfg ou cd how =
     \<lparr>stHooks = providerHooks c cfg ou, stCodec = cd, stProbe = Ready c, stRedirect = how\<rparr>"

section \<open>Starting\<close>

record loggerOpts =
  loLevel :: string
  loAddSource :: bool
  loText :: bool

definition initLogger :: "string \<Rightarrow> string \<Rightarrow> loggerOpts" where
  "initLogger lvl fmt =
     (let level = (if lvl = ''debug'' then ''DEBUG'' else if lvl = ''warn'' then ''WARN''
                   else if lvl = ''error'' then ''ERROR'' else ''INFO'')
      in \<lparr>loLevel = level, loAddSource = (level = ''DEBUG''), loText = (fmt = ''text'')\<rparr>)"

text \<open>\<^verbatim>\<open>dnsprovider.Init\<close> on the configuration the environment gave.\<close>

definition InitProvider ::
  "(string \<Rightarrow> (string \<times> string \<times> string) option) \<Rightarrow> (string \<Rightarrow> string result) \<Rightarrow> (string \<Rightarrow> bool) \<Rightarrow>
     config result \<Rightarrow> metrics \<Rightarrow> 'w \<Rightarrow> (config \<times> httpTransport \<times> 'w prov) result" where
  "InitProvider parse_url readFile appendCerts env m w =
     (case env of
        Inl e \<Rightarrow> Inl (Wrap ''reading opnsense configuration'' e)
      | Inr cfg \<Rightarrow>
          (case NewProvider parse_url readFile appendCerts cfg m w of
             Inl e \<Rightarrow> Inl (Wrap ''creating opnsense provider'' e)
           | Inr p \<Rightarrow> Inr p))"

text \<open>
  \<^verbatim>\<open>main\<close> up to the servers: it exits with status 1, or serves with the two configurations.
\<close>

datatype 'w startup = ExitOne | Serving serverConfig config "'w prov"

definition startProgram ::
  "serverConfig result \<Rightarrow> (config \<times> httpTransport \<times> 'w prov) result \<Rightarrow> 'w startup" where
  "startProgram server provider =
     (case server of
        Inl _ \<Rightarrow> ExitOne
      | Inr scfg \<Rightarrow>
          (case provider of
             Inl _ \<Rightarrow> ExitOne
           | Inr (cfg, t, p) \<Rightarrow>
               if ApplyBudget cfg > ServerWriteTimeout scfg then ExitOne else Serving scfg cfg p))"

text \<open>The exit status, from what \<^verbatim>\<open>server.Run\<close> returns.\<close>

definition exitStatus :: "'w startup \<Rightarrow> error option \<Rightarrow> nat" where
  "exitStatus st res =
     (case st of ExitOne \<Rightarrow> 1 | Serving _ _ _ \<Rightarrow> (case res of Some _ \<Rightarrow> 1 | None \<Rightarrow> 0))"

lemmas program_defs [go_defs] = providerHooks_def newSite_def initLogger_def InitProvider_def startProgram_def
  exitStatus_def

section \<open>The provider keeps its invariants behind the server\<close>

lemma hooks_step:
  "hkRecords (providerHooks c cfg ou) ctx p = (res, p') \<Longrightarrow> prov_step c cfg p p'"
  "hkApplyChanges (providerHooks c cfg ou) ctx ch p = (out, p') \<Longrightarrow> prov_step c cfg p p'"
  "hkAdjustEndpoints (providerHooks c cfg ou) es p = (res', p') \<Longrightarrow> prov_step c cfg p p'"
  "stProbe (newSite c cfg ou cd how) ctx p = (e, p') \<Longrightarrow> prov_step c cfg p p'"
  for ou :: "unit outside"
proof -
  show "hkRecords (providerHooks c cfg ou) ctx p = (res, p') \<Longrightarrow> prov_step c cfg p p'"
    by (simp add: providerHooks_def prov_step.records)
  show "hkApplyChanges (providerHooks c cfg ou) ctx ch p = (out, p') \<Longrightarrow> prov_step c cfg p p'"
    by (auto simp: providerHooks_def dest!: ApplyChanges_with intro: prov_step.changes)
  show "hkAdjustEndpoints (providerHooks c cfg ou) es p = (res', p') \<Longrightarrow> prov_step c cfg p p'"
    using prov_step.adjust [of c cfg p es] by (auto simp: providerHooks_def meter_def split: prod.splits)
  show "stProbe (newSite c cfg ou cd how) ctx p = (e, p') \<Longrightarrow> prov_step c cfg p p'"
    by (simp add: newSite_def prov_step.ready)
qed

definition soundProv :: "('w \<times> call list) prov \<Rightarrow> bool" where
  "soundProv p \<longleftrightarrow> honest p \<and> gaugeOk p"

lemma soundProv_step: "prov_step (logged (liveClient n cfg)) cfg p p' \<Longrightarrow> soundProv p \<Longrightarrow> soundProv p'"
  using live.step_honest step_gauge by (auto simp: soundProv_def)

interpretation live_site: served_site "newSite (logged (liveClient n cfg)) cfg ou cd how" soundProv
  for n :: "'w net" and cfg and ou :: "unit outside" and cd how
proof unfold_locales
  have h: "stHooks (newSite (logged (liveClient n cfg)) cfg ou cd how) = providerHooks (logged (liveClient n cfg)) cfg ou"
    by (simp add: newSite_def)
  fix p :: "('w cworld \<times> call list) prov" and ctx ch es res out res' e p'
  assume s: "soundProv p"
  note keep = hooks_step [THEN soundProv_step, OF _ s]
  show "hkRecords (stHooks (newSite (logged (liveClient n cfg)) cfg ou cd how)) ctx p = (res, p') \<Longrightarrow> soundProv p'"
    unfolding h by (rule keep(1))
  show "hkApplyChanges (stHooks (newSite (logged (liveClient n cfg)) cfg ou cd how)) ctx ch p = (out, p') \<Longrightarrow> soundProv p'"
    unfolding h by (rule keep(2))
  show "hkAdjustEndpoints (stHooks (newSite (logged (liveClient n cfg)) cfg ou cd how)) es p = (res', p') \<Longrightarrow> soundProv p'"
    unfolding h by (rule keep(3))
  show "stProbe (newSite (logged (liveClient n cfg)) cfg ou cd how) ctx p = (e, p') \<Longrightarrow> soundProv p'"
    by (rule keep(4))
qed

section \<open>The start\<close>

lemma startProgram_Serving:
  assumes "startProgram (InitConfig env) (InitProvider parse_url readFile appendCerts env' m w) = Serving scfg cfg p"
  shows "validServer scfg \<and> validConfig cfg \<and> ApplyBudget cfg \<le> ServerWriteTimeout scfg \<and> \<not> pending p \<and> gaugeOk p"
  using assms Validate_Inr(1)
  by (auto simp: InitConfig_Inr startProgram_def InitProvider_def NewProvider_def gaugeOk_def setPending_def meter_def setGauge_def
      split: sum.splits prod.splits if_splits)

lemma budget_exact:
  assumes "validConfig cfg" and "cApplyTimeout cfg + cReconfigureTimeout cfg < 2 ^ 63"
  shows "ApplyBudget cfg = cApplyTimeout cfg + cReconfigureTimeout cfg"
  unfolding ApplyBudget_def using assms by (intro i64_id) (auto simp: validConfig_def)

section \<open>Properties\<close>

text \<open>C39: The program serves only with two validated configurations, no reload pending and a write timeout that
covers a whole apply with its reload, as long as the sum of the two timeouts stays below 2^63 ns.\<close>

theorem startup_covers_budget:
  assumes "startProgram (InitConfig env) (InitProvider parse_url readFile appendCerts env' m w) = Serving scfg cfg p"
    and "cApplyTimeout cfg + cReconfigureTimeout cfg < 2 ^ 63"
  shows "validServer scfg \<and> validConfig cfg \<and> \<not> pending p \<and>
    cApplyTimeout cfg + cReconfigureTimeout cfg \<le> ServerWriteTimeout scfg"
  using startProgram_Serving [OF assms(1)] budget_exact [of cfg] assms(2) by simp

text \<open>The sum is a 64-bit one: a validated configuration with a huge apply timeout has a negative budget.\<close>

theorem budget_wraps:
  assumes "validConfig cfg" and "cApplyTimeout cfg = 2 ^ 63 - 1" and "cReconfigureTimeout cfg \<le> 2 ^ 62"
  shows "ApplyBudget cfg < 0"
proof -
  let ?r = "cReconfigureTimeout cfg"
  have r: "0 < ?r" using assms(1) by (simp add: validConfig_def)
  have "i64 (2 ^ 63 - 1 + ?r) = (2 ^ 64 + (?r - 1)) mod 2 ^ 64 - 2 ^ 63" by (simp add: i64_def)
  also have "(2 ^ 64 + (?r - 1)) mod 2 ^ 64 = ?r - 1"
    unfolding mod_add_self1 using r assms(3) by (intro mod_pos_pos_trivial) auto
  finally show ?thesis unfolding ApplyBudget_def assms(2) using assms(3) by simp
qed

end
