(* ===== verification/Fake.thy ===== *)
theory Fake
  imports Provider_State
begin

text \<open>
  The in-memory firewall of \<^verbatim>\<open>test/fake/fake.go\<close>: the saved table and its aliases, the served
  table that only a reconfigure publishes, paging, validation and fault injection.  The handlers
  map a request to a response; \<open>fakeNet\<close> puts them behind the client's network.  The generator of
  uuids belongs to another package and is the argument \<open>newUUID\<close> of a counter.
\<close>

section \<open>State\<close>

record fakeRow =
  frUUID :: string
  frEnabled :: string
  frHostname :: string
  frDomain :: string
  frRR :: string
  frServer :: string
  frTXTData :: string
  frMX :: string
  frMXPrio :: string
  frTTL :: string
  frAddPTR :: string
  frDescription :: string

record fakeAlias =
  faUUID :: string
  faHost :: string
  faEnabled :: string
  faHostname :: string
  faDomain :: string
  faDescription :: string

record fault =
  ftOp :: string
  ftStatus :: int
  ftTimes :: int
  ftAfterCommit :: bool
  ftLost :: bool
  ftSkipCalls :: int

record served =
  svName :: string
  svTTL :: string
  svType :: string
  svRRType :: string
  svValue :: string

record fakeServer =
  fsRows :: "fakeRow list"
  fsAliases :: "fakeAlias list"
  fsServed :: "served list"
  fsFaults :: "fault list"
  fsHits :: "string \<Rightarrow> nat"
  fsReconfigures :: nat
  fsIssued :: nat

definition OpStatus :: string where "OpStatus = ''status''"

definition hit :: "string \<Rightarrow> fakeServer \<Rightarrow> fakeServer" where
  "hit op s = s\<lparr>fsHits := (fsHits s)(op := fsHits s op + 1)\<rparr>"

definition orDefault :: "string \<Rightarrow> string \<Rightarrow> string" where
  "orDefault v d = (if v = [] then d else v)"

text \<open>\<^verbatim>\<open>AddRow\<close> and \<^verbatim>\<open>AddAlias\<close> insert hand-made rows.\<close>

definition freshUUID :: "(nat \<Rightarrow> string) \<Rightarrow> fakeServer \<Rightarrow> string \<times> fakeServer" where
  "freshUUID newUUID s = (newUUID (fsIssued s), s\<lparr>fsIssued := fsIssued s + 1\<rparr>)"

definition AddRow :: "(nat \<Rightarrow> string) \<Rightarrow> fakeRow \<Rightarrow> fakeServer \<Rightarrow> string \<times> fakeServer" where
  "AddRow newUUID r s =
     (let (u, s) = (if frUUID r = [] then freshUUID newUUID s else (frUUID r, s));
          r = r\<lparr>frUUID := u, frEnabled := orDefault (frEnabled r) ''1'', frRR := orDefault (frRR r) ''A'',
                frAddPTR := orDefault (frAddPTR r) ''0''\<rparr>
      in (u, s\<lparr>fsRows := fsRows s @ [r]\<rparr>))"

definition AddAlias :: "(nat \<Rightarrow> string) \<Rightarrow> string \<Rightarrow> string \<Rightarrow> string \<Rightarrow> fakeServer \<Rightarrow> string \<times> fakeServer" where
  "AddAlias newUUID host hostname domain s =
     (let (u, s) = freshUUID newUUID s
      in (u, s\<lparr>fsAliases := fsAliases s @ [\<lparr>faUUID = u, faHost = host, faEnabled = ''1'', faHostname = hostname,
                faDomain = domain, faDescription = []\<rparr>]\<rparr>))"

text \<open>
  \<^verbatim>\<open>takeFault\<close>: the first fault armed for the operation; one that still skips calls lets this one
  through.
\<close>

fun takeFault :: "string \<Rightarrow> fault list \<Rightarrow> fault option \<times> fault list" where
  "takeFault op [] = (None, [])"
| "takeFault op (f # fs) =
     (if ftOp f \<noteq> op \<or> ftTimes f \<le> 0 then (case takeFault op fs of (x, fs) \<Rightarrow> (x, f # fs))
      else if ftSkipCalls f > 0 then (None, f\<lparr>ftSkipCalls := ftSkipCalls f - 1\<rparr> # fs)
      else let f = f\<lparr>ftTimes := ftTimes f - 1\<rparr>
           in (Some f, if ftTimes f = 0 then fs else f # fs))"

definition useFault :: "string \<Rightarrow> fakeServer \<Rightarrow> fault option \<times> fakeServer" where
  "useFault op s = (case takeFault op (fsFaults s) of (f, fs) \<Rightarrow> (f, s\<lparr>fsFaults := fs\<rparr>))"

section \<open>Responses\<close>

text \<open>
  The text \<^verbatim>\<open>json.NewEncoder(w).Encode(v)\<close> writes: no white space, escapes that are safe inside HTML, a
  newline at the end.  Strings are taken to be valid UTF-8 without the two line separators U+2028 and
  U+2029, whose bytes Go copies as they are.
\<close>

definition jsonChar :: "char \<Rightarrow> string" where
  "jsonChar c =
     (let n = of_char c :: nat
      in if c = quote \<or> c = backslash then [backslash, c]
         else if n = 8 then [backslash, CHR ''b''] else if n = 9 then [backslash, CHR ''t'']
         else if n = 10 then [backslash, CHR ''n''] else if n = 12 then [backslash, CHR ''f'']
         else if n = 13 then [backslash, CHR ''r'']
         else if n < 32 \<or> c = CHR ''<'' \<or> c = CHR ''>'' \<or> c = CHR ''&'' then
           [backslash] @ ''u00'' @ [hex_digit (n div 16), hex_digit (n mod 16)]
         else [c])"

definition jsonText :: "string \<Rightarrow> string" where
  "jsonText s = [quote] @ concat (map jsonChar s) @ [quote]"

fun Encode :: "json \<Rightarrow> string" where
  "Encode JNull = ''null''"
| "Encode (JBool b) = (if b then ''true'' else ''false'')"
| "Encode (JNum s) = s"
| "Encode (JStr s) = jsonText s"
| "Encode (JArr js) = ''['' @ join_with '','' (map Encode js) @ '']''"
| "Encode (JObj ps) = ''{'' @ join_with '','' (map (\<lambda>(k, v). jsonText k @ '':'' @ Encode v) ps) @ ''}''"

definition writeJSON :: "json \<Rightarrow> httpResp" where
  "writeJSON j =
     (let text = Encode j @ [char_of (10::nat)]
      in \<lparr>rStatus = 200, rRetryAfter = [], rBody = Body (int (length text)) (Some j), rText = text\<rparr>)"

definition httpError :: "string \<Rightarrow> int \<Rightarrow> httpResp" where
  "httpError msg status =
     \<lparr>rStatus = status, rRetryAfter = [], rBody = Body (int (length msg) + 1) None, rText = msg @ [char_of (10::nat)]\<rparr>"

text \<open>\<^verbatim>\<open>rowJSON\<close>: the keys in the order in which a Go map is encoded.\<close>

definition rowPairs :: "fakeRow \<Rightarrow> string \<Rightarrow> string \<Rightarrow> string \<Rightarrow> string \<Rightarrow> string \<Rightarrow> bool \<Rightarrow> (string \<times> json) list" where
  "rowPairs r u en host d descr isAlias =
     [(''addptr'', JStr (frAddPTR r)), (''description'', JStr descr), (''domain'', JStr d),
      (''enabled'', JStr en), (''hostname'', JStr host), (''isAlias'', JBool isAlias), (''mx'', JStr (frMX r)),
      (''mxprio'', JStr (frMXPrio r)), (''rr'', JStr (frRR r)), (''server'', JStr (frServer r)),
      (''ttl'', JStr (frTTL r)), (''txtdata'', JStr (frTXTData r)), (''uuid'', JStr u)]"

definition rowJSON :: "fakeAlias list \<Rightarrow> fakeRow \<Rightarrow> bool \<Rightarrow> json" where
  "rowJSON aliases r withChildren =
     (let m = rowPairs r (frUUID r) (frEnabled r) (frHostname r) (frDomain r) (frDescription r) False;
          kids = filter (\<lambda>a. faHost a = frUUID r) aliases
      in if \<not> withChildren \<or> kids = [] then JObj m
         else JObj ((''_children'',
                JArr (map (\<lambda>a. JObj (rowPairs r (faUUID a) (faEnabled a) (faHostname a) (faDomain a) (faDescription a) True)) kids)) # m))"

section \<open>Searching\<close>

definition fieldValue :: "fakeRow \<Rightarrow> string \<Rightarrow> string" where
  "fieldValue r f =
     (if f = ''hostname'' then frHostname r else if f = ''domain'' then frDomain r
      else if f = ''rr'' then frRR r else if f = ''server'' then frServer r
      else if f = ''description'' then frDescription r else if f = ''ttl'' then frTTL r else [])"

definition searchable :: "fakeRow \<Rightarrow> string" where
  "searchable r = to_lower (frHostname r @ '' '' @ frDomain r @ '' '' @ frServer r @ '' '' @ frDescription r @ '' '' @ frTXTData r)"

definition pad30 :: "string \<Rightarrow> string" where
  "pad30 s = s @ replicate (30 - length s) (CHR '' '')"

definition searchKey :: "string list \<Rightarrow> fakeRow \<Rightarrow> string" where
  "searchKey flds r = concat (map (\<lambda>f. pad30 (fieldValue r f) @ '','') flds) @ frUUID r"

text \<open>Both directions are stable; the direction is that of the first sort field.\<close>

definition sortRows :: "(string \<times> string) list \<Rightarrow> fakeRow list \<Rightarrow> fakeRow list" where
  "sortRows srt rs =
     (let flds = sort (map fst srt);
          desc = (case flds of [] \<Rightarrow> False | f # _ \<Rightarrow> map_option to_lower (map_of srt f) = Some ''desc'')
      in if desc then rev (sort_key (searchKey flds) (rev rs)) else sort_key (searchKey flds) rs)"

definition pageOf :: "int \<Rightarrow> int \<Rightarrow> 'a list \<Rightarrow> 'a list" where
  "pageOf current rowCount rs =
     (if rowCount > 0 then take (nat rowCount) (drop (nat ((current - 1) * rowCount)) rs) else rs)"

text \<open>Decoding keeps what it could read: a field of the wrong type stays at its default.\<close>

definition reqInt :: "int \<Rightarrow> string \<Rightarrow> (string \<times> json) list \<Rightarrow> int" where
  "reqInt d name ps = (case dec_field store_int d name ps of Some i \<Rightarrow> i | None \<Rightarrow> d)"

fun strPairs :: "(string \<times> json) list \<Rightarrow> (string \<times> string) list" where
  "strPairs [] = []"
| "strPairs ((k, JStr s) # ps) = AList.update k s (strPairs ps)"
| "strPairs (_ # ps) = strPairs ps"

definition reqSort :: "(string \<times> json) list \<Rightarrow> (string \<times> string) list" where
  "reqSort ps = (case field_values ''sort'' ps of [] \<Rightarrow> [] | vs \<Rightarrow> (case last vs of JObj qs \<Rightarrow> strPairs qs | _ \<Rightarrow> []))"

definition reqPhrase :: "(string \<times> json) list \<Rightarrow> string" where
  "reqPhrase ps = (case str_field ''searchPhrase'' ps of Some s \<Rightarrow> s | None \<Rightarrow> [])"

definition reqPairs :: "httpReq \<Rightarrow> (string \<times> json) list" where
  "reqPairs q = (if qMethod q = ''POST'' then (case qBody q of Some (JObj ps) \<Rightarrow> ps | _ \<Rightarrow> []) else [])"

definition handleSearch :: "httpReq \<Rightarrow> fakeServer \<Rightarrow> httpResp \<times> fakeServer" where
  "handleSearch q s0 =
     (case useFault opSearchHostOverride (hit opSearchHostOverride s0) of
        (Some f, s) \<Rightarrow> (httpError ''injected'' (ftStatus f), s)
      | (None, s) \<Rightarrow>
          (let ps = reqPairs q;
               rowCount = reqInt (-1) ''rowCount'' ps;
               current = max 1 (reqInt 1 ''current'' ps);
               phrase = to_lower (reqPhrase ps);
               found = sortRows (reqSort ps) (filter (\<lambda>r. phrase = [] \<or> contains (searchable r) phrase) (fsRows s));
               page = pageOf current rowCount found
           in (writeJSON (JObj [(''current'', JNum (format_int current)),
                  (''rowCount'', JNum (format_int (int (length page)))),
                  (''rows'', JArr (map (\<lambda>r. rowJSON (fsAliases s) r True) page)),
                  (''total'', JNum (format_int (int (length found))))]), s)))"

section \<open>Writing\<close>

definition lastSegment :: "string \<Rightarrow> string" where
  "lastSegment p = rev (takeWhile (\<lambda>c. c \<noteq> CHR ''/'') (rev p))"

fun findRow :: "string \<Rightarrow> fakeRow list \<Rightarrow> fakeRow option" where
  "findRow u [] = None"
| "findRow u (r # rs) = (if frUUID r = u then Some r else findRow u rs)"

definition handleGet :: "httpReq \<Rightarrow> fakeServer \<Rightarrow> httpResp \<times> fakeServer" where
  "handleGet q s0 =
     (case useFault opGetHostOverride (hit opGetHostOverride s0) of
        (Some f, s) \<Rightarrow> (httpError ''injected'' (ftStatus f), s)
      | (None, s) \<Rightarrow>
          (case findRow (lastSegment (qURL q)) (fsRows s) of
             None \<Rightarrow> (writeJSON (JObj []), s)
           | Some r \<Rightarrow> (writeJSON (JObj [(''host'', rowJSON (fsAliases s) r False)]), s)))"

fun updateFirst :: "string \<Rightarrow> fakeRow \<Rightarrow> fakeRow list \<Rightarrow> fakeRow list" where
  "updateFirst u r [] = []"
| "updateFirst u r (x # xs) = (if frUUID x = u then r # xs else x # updateFirst u r xs)"

fun removeFirst :: "string \<Rightarrow> fakeRow list \<Rightarrow> fakeRow list" where
  "removeFirst u [] = []"
| "removeFirst u (x # xs) = (if frUUID x = u then xs else x # removeFirst u xs)"

text \<open>The body of a write: a map from strings to strings, absent or null being a bad body.\<close>

fun allStrings :: "(string \<times> json) list \<Rightarrow> (string \<times> string) list \<Rightarrow> (string \<times> string) list option" where
  "allStrings [] m = Some m"
| "allStrings ((k, JStr s) # ps) m = allStrings ps (AList.update k s m)"
| "allStrings ((k, JNull) # ps) m = allStrings ps (AList.update k [] m)"
| "allStrings (_ # ps) m = None"

fun storeHost :: "(string \<times> string) list option \<Rightarrow> json \<Rightarrow> (string \<times> string) list option option" where
  "storeHost m (JObj qs) = map_option Some (allStrings qs (case m of None \<Rightarrow> [] | Some h \<Rightarrow> h))"
| "storeHost m JNull = Some None"
| "storeHost m _ = None"

fun hostBody :: "json option \<Rightarrow> (string \<times> string) list option" where
  "hostBody (Some (JObj ps)) = (case dec_field storeHost None ''host'' ps of Some h \<Rightarrow> h | None \<Rightarrow> None)"
| "hostBody _ = None"

definition at :: "(string \<times> string) list \<Rightarrow> string \<Rightarrow> string" where
  "at h k = (case map_of h k of Some v \<Rightarrow> v | None \<Rightarrow> [])"

definition validations :: "(string \<times> string) list \<Rightarrow> (string \<times> json) list" where
  "validations h =
     (if at h ''domain'' = [] then [(''host.domain'', JStr ''A valid domain must be specified.'')] else []) @
     (if at h ''hostname'' = [] then [(''host.hostname'', JStr ''A valid hostname must be specified.'')] else []) @
     (if at h ''rr'' = ''A'' \<or> at h ''rr'' = ''AAAA'' then
        (if at h ''server'' = [] then [(''host.server'', JStr ''The field IP address is required.'')] else [])
      else if at h ''rr'' = ''TXT'' then
        (if at h ''txtdata'' = [] then [(''host.txtdata'', JStr ''The field TXT data is required.'')]
         else if length (at h ''txtdata'') > 255 then [(''host.txtdata'', JStr ''Text may not exceed 255 characters.'')]
         else [])
      else if at h ''rr'' = ''MX'' then []
      else [(''host.rr'', JStr ''Option not in list.'')])"

definition writtenRow :: "string \<Rightarrow> (string \<times> string) list \<Rightarrow> fakeRow" where
  "writtenRow u h =
     \<lparr>frUUID = u, frEnabled = orDefault (at h ''enabled'') ''1'', frHostname = at h ''hostname'',
      frDomain = at h ''domain'', frRR = at h ''rr'', frServer = at h ''server'', frTXTData = at h ''txtdata'',
      frMX = at h ''mx'', frMXPrio = at h ''mxprio'', frTTL = at h ''ttl'',
      frAddPTR = orDefault (at h ''addptr'') ''1'', frDescription = at h ''description''\<rparr>"

definition rejected :: "(string \<times> json) list \<Rightarrow> httpResp" where
  "rejected v = writeJSON (JObj [(''result'', JStr ''failed''), (''validations'', JObj v)])"

definition handleAdd :: "(nat \<Rightarrow> string) \<Rightarrow> httpReq \<Rightarrow> fakeServer \<Rightarrow> httpResp \<times> fakeServer" where
  "handleAdd newUUID q s0 =
     (let s = hit opAddHostOverride s0
      in case hostBody (qBody q) of
           None \<Rightarrow> (httpError ''bad body'' 400, s)
         | Some h \<Rightarrow>
             if validations h \<noteq> [] then (rejected (validations h), s)
             else case useFault opAddHostOverride s of (f, s) \<Rightarrow>
               (let (u, s) = (case f of
                      Some f' \<Rightarrow> if \<not> ftLost f' \<and> \<not> ftAfterCommit f' then ([], s) else freshUUID newUUID s
                    | None \<Rightarrow> freshUUID newUUID s);
                    saved = writeJSON (JObj [(''result'', JStr ''saved''), (''uuid'', JStr u)]);
                    s' = s\<lparr>fsRows := fsRows s @ [writtenRow u h]\<rparr>
                in case f of
                     None \<Rightarrow> (saved, s')
                   | Some f' \<Rightarrow>
                       if ftLost f' then (saved, s)
                       else if \<not> ftAfterCommit f' then (httpError ''injected'' (ftStatus f'), s)
                       else (httpError ''injected after commit'' (ftStatus f'), s')))"

definition handleSet :: "httpReq \<Rightarrow> fakeServer \<Rightarrow> httpResp \<times> fakeServer" where
  "handleSet q s0 =
     (let s = hit opSetHostOverride s0; u = lastSegment (qURL q);
          saved = writeJSON (JObj [(''result'', JStr ''saved'')])
      in case hostBody (qBody q) of
           None \<Rightarrow> (httpError ''bad body'' 400, s)
         | Some h \<Rightarrow>
             if findRow u (fsRows s) = None then (writeJSON (JObj [(''result'', JStr ''failed'')]), s)
             else if validations h \<noteq> [] then (rejected (validations h), s)
             else case useFault opSetHostOverride s of (f, s) \<Rightarrow>
               (let s' = s\<lparr>fsRows := updateFirst u (writtenRow u h) (fsRows s)\<rparr>
                in case f of
                     None \<Rightarrow> (saved, s')
                   | Some f' \<Rightarrow>
                       if ftLost f' then (saved, s)
                       else if \<not> ftAfterCommit f' then (httpError ''injected'' (ftStatus f'), s)
                       else (httpError ''injected after commit'' (ftStatus f'), s')))"

definition handleDel :: "httpReq \<Rightarrow> fakeServer \<Rightarrow> httpResp \<times> fakeServer" where
  "handleDel q s0 =
     (let s = hit opDelHostOverride s0; u = lastSegment (qURL q);
          deleted = writeJSON (JObj [(''result'', JStr ''deleted'')])
      in if findRow u (fsRows s) = None then (writeJSON (JObj [(''result'', JStr ''not found'')]), s)
         else case useFault opDelHostOverride s of (f, s) \<Rightarrow>
           (let s' = s\<lparr>fsRows := removeFirst u (fsRows s), fsAliases := filter (\<lambda>a. faHost a \<noteq> u) (fsAliases s)\<rparr>
            in case f of
                 None \<Rightarrow> (deleted, s')
               | Some f' \<Rightarrow>
                   if ftLost f' then (deleted, s)
                   else if \<not> ftAfterCommit f' then (httpError ''injected'' (ftStatus f'), s)
                   else (httpError ''injected after commit'' (ftStatus f'), s')))"

section \<open>Publishing\<close>

definition servedName :: "string \<Rightarrow> string \<Rightarrow> string" where
  "servedName host domain = (if host = [] then domain @ ''.'' else host @ ''.'' @ domain @ ''.'')"

definition servedValue :: "fakeRow \<Rightarrow> string" where
  "servedValue r =
     (if frRR r = ''TXT'' then [quote] @ frTXTData r @ [quote]
      else if frRR r = ''MX'' then frMXPrio r @ '' '' @ frMX r else frServer r)"

definition publishRow :: "fakeAlias list \<Rightarrow> fakeRow \<Rightarrow> served list" where
  "publishRow aliases r =
     (if frEnabled r = ''0'' then []
      else map (\<lambda>(h, d). \<lparr>svName = servedName h d, svTTL = orDefault (frTTL r) ''3600'', svType = ''IN'',
                          svRRType = frRR r, svValue = servedValue r\<rparr>)
             ((frHostname r, frDomain r) #
              map (\<lambda>a. (orDefault (faHostname a) (frHostname r), orDefault (faDomain a) (frDomain r)))
                (filter (\<lambda>a. faHost a = frUUID r \<and> faEnabled a \<noteq> ''0'') aliases)))"

definition publish :: "fakeServer \<Rightarrow> fakeServer" where
  "publish s = s\<lparr>fsReconfigures := fsReconfigures s + 1,
                 fsServed := concat (map (publishRow (fsAliases s)) (fsRows s))\<rparr>"

definition handleReconfigure :: "fakeServer \<Rightarrow> httpResp \<times> fakeServer" where
  "handleReconfigure s0 =
     (case useFault opReconfigure (hit opReconfigure s0) of
        (Some f, s) \<Rightarrow> (httpError ''injected'' (ftStatus f), s)
      | (None, s) \<Rightarrow> (writeJSON (JObj [(''status'', JStr ''ok'')]), publish s))"

definition handleStatus :: "fakeServer \<Rightarrow> httpResp \<times> fakeServer" where
  "handleStatus s0 =
     (case useFault OpStatus (hit OpStatus s0) of
        (Some f, s) \<Rightarrow> (httpError ''injected'' (ftStatus f), s)
      | (None, s) \<Rightarrow> (writeJSON (JObj [(''status'', JStr ''running'')]), s))"

definition servedJSON :: "served \<Rightarrow> json" where
  "servedJSON v = JObj [(''name'', JStr (svName v)), (''ttl'', JStr (svTTL v)), (''type'', JStr (svType v)),
     (''rrtype'', JStr (svRRType v)), (''value'', JStr (svValue v))]"

definition handleListLocalData :: "fakeServer \<Rightarrow> httpResp \<times> fakeServer" where
  "handleListLocalData s0 =
     (case useFault opListLocalData (hit opListLocalData s0) of
        (Some f, s) \<Rightarrow> (httpError ''injected'' (ftStatus f), s)
      | (None, s) \<Rightarrow>
          (writeJSON (JObj [(''data'', JArr (map servedJSON (fsServed s))), (''status'', JStr ''ok'')]), s))"

section \<open>Routing\<close>

definition notFound :: httpResp where
  "notFound = httpError ''404 page not found'' 404"

text \<open>A pattern that ends in a slash matches every path below it.\<close>

definition Handler :: "(nat \<Rightarrow> string) \<Rightarrow> httpReq \<Rightarrow> fakeServer \<Rightarrow> httpResp \<times> fakeServer" where
  "Handler newUUID q s =
     (let p = qURL q
      in if p = pathSearch then handleSearch q s
         else if has_prefix p pathGet then handleGet q s
         else if p = pathAdd then handleAdd newUUID q s
         else if has_prefix p pathSet then handleSet q s
         else if has_prefix p pathDel then handleDel q s
         else if p = pathReconfigure then handleReconfigure s
         else if p = pathStatus then handleStatus s
         else if p = pathListLocal then handleListLocalData s
         else (notFound, s))"

text \<open>The fake behind a network that never fails and whose contexts never end; \<open>base\<close> is its URL.\<close>

definition fakeNet :: "string \<Rightarrow> (nat \<Rightarrow> string) \<Rightarrow> fakeServer net" where
  "fakeNet base newUUID =
     \<lparr>netSend = (\<lambda>ctx q s. case Handler newUUID (q\<lparr>qURL := drop (length base) (qURL q)\<rparr>) s of
                    (r, s) \<Rightarrow> (Response r, s)),
      netCtxErr = (\<lambda>ctx s. None), netSleep = (\<lambda>ctx d s. (None, s)), netRand = (\<lambda>k s. (0, s)),
      netUntilDate = (\<lambda>v s. None)\<rparr>"

lemmas fake_defs [go_defs] = OpStatus_def hit_def orDefault_def freshUUID_def AddRow_def AddAlias_def
  useFault_def jsonChar_def jsonText_def writeJSON_def httpError_def rowPairs_def rowJSON_def fieldValue_def searchable_def pad30_def
  searchKey_def sortRows_def pageOf_def reqInt_def reqSort_def reqPhrase_def reqPairs_def handleSearch_def
  lastSegment_def handleGet_def at_def validations_def writtenRow_def rejected_def handleAdd_def
  handleSet_def handleDel_def servedName_def servedValue_def publishRow_def publish_def
  handleReconfigure_def handleStatus_def servedJSON_def handleListLocalData_def notFound_def Handler_def
  fakeNet_def

end
