(* ===== verification/Fake_Reads.thy ===== *)
theory Fake_Reads
  imports Fake
begin

text \<open>
  The paginated read of the client against the repository's in-memory firewall: the fake keeps the
  contract \<open>pager\<close>, so a table nobody writes to is read whole, in the order the firewall sorts it.
\<close>

section \<open>A row survives its JSON\<close>

definition colsOf :: "fakeRow \<Rightarrow> string \<Rightarrow> string \<Rightarrow> string \<Rightarrow> string \<Rightarrow> string \<Rightarrow> bool \<Rightarrow> hostCols" where
  "colsOf r u en host d descr isAlias =
     \<lparr>UUID = u, Enabled = en, Hostname = host, RowDomain = d, RR = frRR r, Server = frServer r,
      TXTData = frTXTData r, MX = frMX r, MXPrio = frMXPrio r, TTL = frTTL r, AddPTR = frAddPTR r,
      Description = descr, IsAlias = isAlias\<rparr>"

definition childrenOf :: "fakeAlias list \<Rightarrow> fakeRow \<Rightarrow> hostRow list" where
  "childrenOf aliases r =
     map (\<lambda>a. HostRow (colsOf r (faUUID a) (faEnabled a) (faHostname a) (faDomain a) (faDescription a) True) [])
       (filter (\<lambda>a. faHost a = frUUID r) aliases)"

definition rowOf :: "fakeAlias list \<Rightarrow> fakeRow \<Rightarrow> hostRow" where
  "rowOf aliases r =
     HostRow (colsOf r (frUUID r) (frEnabled r) (frHostname r) (frDomain r) (frDescription r) False)
       (childrenOf aliases r)"

lemma lower_names [simp]:
  "to_lower ''addptr'' = ''addptr''" "to_lower ''description'' = ''description''" "to_lower ''domain'' = ''domain''"
  "to_lower ''enabled'' = ''enabled''" "to_lower ''hostname'' = ''hostname''" "to_lower ''isAlias'' = ''isalias''"
  "to_lower ''mx'' = ''mx''" "to_lower ''mxprio'' = ''mxprio''" "to_lower ''rr'' = ''rr''"
  "to_lower ''server'' = ''server''" "to_lower ''ttl'' = ''ttl''" "to_lower ''txtdata'' = ''txtdata''"
  "to_lower ''uuid'' = ''uuid''" "to_lower ''_children'' = ''_children''" "to_lower ''rows'' = ''rows''"
  "to_lower ''rowCount'' = ''rowcount''" "to_lower ''total'' = ''total''" "to_lower ''current'' = ''current''"
  "to_lower ''sort'' = ''sort''" "to_lower ''searchPhrase'' = ''searchphrase''"
  by code_simp+

lemma store_flexBool_JBool [simp]: "store_flexBool x (JBool b) = Some b"
proof -
  have "flexBool ''true'' = Inr True" "flexBool ''false'' = Inr False" by code_simp+
  then show ?thesis by (simp add: store_flexBool_def)
qed

lemma dec_cols_rowPairs:
  "dec_cols (rowPairs r u en host d descr b) = Some (colsOf r u en host d descr b)"
  by (simp add: dec_cols_def rowPairs_def str_field_def dec_field_def field_values_Cons store_option_def colsOf_def)

lemma children_rowPairs: "field_values ''_children'' (rowPairs r u en host d descr b) = []"
  by (simp add: rowPairs_def field_values_Cons)

lemma dec_row_child:
  "dec_row (JObj (rowPairs r u en host d descr b)) = Some (HostRow (colsOf r u en host d descr b) [])"
  by (simp add: children_rowPairs dec_cols_rowPairs)

lemma dec_cols_Children: "dec_cols ((''_children'', v) # ps) = dec_cols ps"
  by (simp add: dec_cols_def str_field_def dec_field_def field_values_Cons)

lemma those_map_Some: "those (map (\<lambda>x. Some (f x)) xs) = Some (map f xs)"
  by (induction xs) simp_all

lemma dec_row_rowJSON: "dec_row (rowJSON aliases r True) = Some (rowOf aliases r)"
proof (cases "filter (\<lambda>a. faHost a = frUUID r) aliases = []")
  case True
  then show ?thesis by (simp add: rowJSON_def Let_def dec_row_child rowOf_def childrenOf_def del: dec_row.simps)
next
  case False
  let ?kids = "filter (\<lambda>a. faHost a = frUUID r) aliases"
  have "those (map dec_row (map (\<lambda>a. JObj (rowPairs r (faUUID a) (faEnabled a) (faHostname a) (faDomain a) (faDescription a) True)) ?kids)) =
      Some (childrenOf aliases r)"
    by (simp add: comp_def dec_row_child those_map_Some childrenOf_def del: dec_row.simps)
  then show ?thesis
    using False
    by (simp add: rowJSON_def Let_def field_values_Cons children_rowPairs dec_cols_Children dec_cols_rowPairs rowOf_def)
qed

section \<open>How long a page is\<close>

lemma length_join_with: "length (join_with [c] ss) \<le> sum_list (map length ss) + length ss"
  by (induction "[c]" ss rule: join_with.induct) auto

lemma member_join_with: "s \<in> set ss \<Longrightarrow> length s \<le> length (join_with sep ss)"
  by (induction sep ss rule: join_with.induct) auto

lemma member_Encode:
  assumes "(k, v) \<in> set ps"
  shows "length (Encode v) \<le> length (Encode (JObj ps))"
proof -
  let ?ss = "map (\<lambda>(k, v). jsonText k @ '':'' @ Encode v) ps"
  have "length (jsonText k @ '':'' @ Encode v) \<le> length (join_with '','' ?ss)"
    using assms by (intro member_join_with) force
  then show ?thesis by simp
qed

lemma length_nat_dec: "n < 10 ^ Suc m \<Longrightarrow> length (nat_dec n) \<le> Suc m"
proof (induction m arbitrary: n)
  case (Suc m)
  then have "n div 10 < 10 ^ Suc m" by simp
  from Suc.IH [OF this] show ?case by (subst nat_dec.simps) simp
qed (simp add: nat_dec.simps)

lemma length_format_int:
  assumes "0 \<le> i" "i < 2 ^ 63"
  shows "length (format_int i) \<le> 19"
proof -
  have "nat i < 10 ^ Suc 18" using assms by simp
  from length_nat_dec [OF this] show ?thesis using assms(1) by (simp add: format_int_def)
qed

text \<open>
  A body of more than 8 MiB is refused by the client.  A page holds at most 500 rows, so it fits when no
  row takes more than 16000 bytes of JSON with its aliases.
\<close>

definition rowLimit :: nat where "rowLimit = 16000"

definition rowFits :: "fakeAlias list \<Rightarrow> fakeRow \<Rightarrow> bool" where
  "rowFits aliases r \<longleftrightarrow> length (Encode (rowJSON aliases r True)) \<le> rowLimit"

lemma rows_fit:
  assumes "\<forall>r \<in> set page. rowFits aliases r" "int (length page) \<le> maxPageSize"
  shows "length (Encode (JArr (map (\<lambda>r. rowJSON aliases r True) page))) \<le> 8000502"
proof -
  let ?ss = "map (\<lambda>r. Encode (rowJSON aliases r True)) page"
  have "sum_list (map length ?ss) \<le> sum_list (map (\<lambda>r. rowLimit) page)"
    unfolding map_map comp_def using assms(1) by (intro sum_list_mono) (simp add: rowFits_def)
  moreover have "sum_list (map (\<lambda>r. rowLimit) page) = length page * 16000" by (simp add: sum_list_triv rowLimit_def)
  moreover have "length page \<le> 500" using assms(2) by (simp add: maxPageSize_def)
  moreover have "length (join_with '','' ?ss) \<le> sum_list (map length ?ss) + length page"
    using length_join_with [of "CHR '',''" ?ss] by simp
  ultimately have "length (join_with '','' ?ss) \<le> 8000500" by linarith
  moreover have "map Encode (map (\<lambda>r. rowJSON aliases r True) page) = ?ss" by simp
  ultimately show ?thesis by (simp only: Encode.simps length_append) simp
qed

section \<open>One page\<close>

definition searchFields :: "string list" where
  "searchFields = [''domain'', ''hostname'', ''rr'', ''server'']"

definition fakeTable :: "fakeServer \<Rightarrow> hostRow list" where
  "fakeTable s = map (rowOf (fsAliases s)) (sort_key (searchKey searchFields) (fsRows s))"

text \<open>
  No fault is armed, the uuids are distinct, and no row is so long that a page of the largest size could
  exceed the client's limit.
\<close>

definition fakeOk :: "string \<Rightarrow> config \<Rightarrow> fakeServer cworld \<Rightarrow> bool" where
  "fakeOk base cfg s \<longleftrightarrow>
     base = cHost cfg \<and> (\<forall>r \<in> set (fsRows (nw s)). rowFits (fsAliases (nw s)) r) \<and> fsFaults (nw s) = [] \<and>
     distinct (map frUUID (fsRows (nw s))) \<and> int (length (fsRows (nw s))) < 2 ^ 62"

lemma length_fakeTable: "length (fakeTable s) = length (fsRows s)"
  by (simp add: fakeTable_def)

lemma uuid_rowOf [simp]: "UUID (cols (rowOf aliases r)) = frUUID r"
  by (simp add: rowOf_def colsOf_def)

lemma distinct_fakeTable: "distinct (map frUUID (fsRows s)) \<Longrightarrow> distinct (uuids (fakeTable s))"
  by (simp add: fakeTable_def comp_def distinct_map)

lemma useFault_none: "fsFaults s = [] \<Longrightarrow> useFault op s = (None, s)"
  by (simp add: useFault_def)

lemma req_simps:
  "0 \<le> current \<Longrightarrow> current < 2 ^ 63 \<Longrightarrow> 0 \<le> n \<Longrightarrow> n < 2 ^ 63 \<Longrightarrow>
   \<exists>ps. searchRequest current n = JObj ps \<and> reqInt d ''rowCount'' ps = n \<and> reqInt d' ''current'' ps = current \<and>
     reqPhrase ps = [] \<and>
     reqSort ps = map (\<lambda>f. (f, ''asc'')) (rev searchFields)"
proof -
  assume b: "0 \<le> current" "current < 2 ^ 63" "0 \<le> n" "n < 2 ^ 63"
  show ?thesis
    using b
    by (simp add: searchRequest_def reqInt_def reqPhrase_def reqSort_def str_field_def dec_field_def
        field_values_Cons parse_format_int searchFields_def)
qed

lemma sortRows_search: "sortRows (map (\<lambda>f. (f, ''asc'')) (rev searchFields)) rs = sort_key (searchKey searchFields) rs"
proof -
  let ?srt = "map (\<lambda>f. (f, ''asc'')) (rev searchFields)"
  have 1: "sort (map fst ?srt) = searchFields" by code_simp
  have 2: "(case searchFields of [] \<Rightarrow> False | f # _ \<Rightarrow> map_option to_lower (map_of ?srt f) = Some ''desc'') = False"
    by code_simp
  show ?thesis unfolding sortRows_def Let_def 1 2 by simp
qed

text \<open>The answer of the fake to a page request, and what the client makes of it.\<close>

definition pageJSON :: "fakeServer \<Rightarrow> int \<Rightarrow> fakeRow list \<Rightarrow> json" where
  "pageJSON s current page =
     JObj [(''current'', JNum (format_int current)), (''rowCount'', JNum (format_int (int (length page)))),
       (''rows'', JArr (map (\<lambda>r. rowJSON (fsAliases s) r True) page)),
       (''total'', JNum (format_int (int (length (fsRows s)))))]"

lemma length_pageJSON:
  assumes "\<forall>r \<in> set page. rowFits (fsAliases s) r" "int (length page) \<le> maxPageSize"
    and "0 \<le> current" "current < 2 ^ 63" "int (length (fsRows s)) < 2 ^ 62"
  shows "length (Encode (pageJSON s current page)) \<le> 8000800"
proof -
  have n: "length (format_int current) \<le> 19" "length (format_int (int (length page))) \<le> 19"
    "length (format_int (int (length (fsRows s)))) \<le> 19"
    using assms by (auto intro!: length_format_int simp: maxPageSize_def)
  have names: "length (jsonText ''current'') = 9" "length (jsonText ''rowCount'') = 10"
    "length (jsonText ''rows'') = 6" "length (jsonText ''total'') = 7" by code_simp+
  define J where "J = JArr (map (\<lambda>r. rowJSON (fsAliases s) r True) page)"
  have "length (Encode J) \<le> 8000502" unfolding J_def by (rule rows_fit [OF assms(1,2)])
  then show ?thesis using n names unfolding pageJSON_def J_def [symmetric] by simp
qed

lemma dec_pageJSON:
  assumes "0 \<le> current" "current < 2 ^ 63" "int (length (fsRows s)) < 2 ^ 62" "length page \<le> length (fsRows s)"
  shows "dec_searchPage (pageJSON s current page) = Some
    \<lparr>pgRows = map (rowOf (fsAliases s)) page, pgRowCount = int (length page),
     pgTotal = int (length (fsRows s)), pgCurrent = current\<rparr>"
proof -
  have "those (map dec_row (map (\<lambda>r. rowJSON (fsAliases s) r True) page)) = Some (map (rowOf (fsAliases s)) page)"
    by (simp add: comp_def dec_row_rowJSON those_map_Some)
  moreover have "int (length page) < 2 ^ 63" "int (length (fsRows s)) < 2 ^ 63" using assms by simp_all
  ultimately show ?thesis
    using assms(1,2)
    by (simp add: pageJSON_def dec_field_def int_field_def field_values_Cons parse_format_int)
qed

lemma handleSearch_page:
  assumes "qMethod q = ''POST''" "qBody q = Some (searchRequest current n)" and "fsFaults s = []"
    and "1 \<le> current" "current < 2 ^ 63" "0 < n" "n < 2 ^ 63"
  shows "handleSearch q s =
    (writeJSON (pageJSON s current (pageOf current n (sort_key (searchKey searchFields) (fsRows s)))),
     hit opSearchHostOverride s)"
proof -
  obtain ps where ps: "searchRequest current n = JObj ps" "reqInt (-1) ''rowCount'' ps = n" "reqInt 1 ''current'' ps = current"
    "reqPhrase ps = []" "reqSort ps = map (\<lambda>f. (f, ''asc'')) (rev searchFields)"
    using req_simps [of current n "-1" 1] assms by auto
  have "to_lower [] = []" by (simp add: to_lower_def)
  moreover have "useFault opSearchHostOverride (hit opSearchHostOverride s) = (None, hit opSearchHostOverride s)"
    using assms(3) by (intro useFault_none) (simp add: hit_def)
  moreover have "reqPairs q = ps" using assms(1,2) ps(1) by (simp add: reqPairs_def)
  ultimately show ?thesis
    using ps assms(4) by (simp add: handleSearch_def Let_def sortRows_search pageJSON_def hit_def max_def)
qed

lemma Handler_search:
  "qURL q = pathSearch \<Longrightarrow> Handler newUUID q s = handleSearch q s"
  by (simp add: Handler_def Let_def)

lemma fake_search:
  assumes ok: "fakeOk base cfg s" and b: "1 \<le> current" "current < 2 ^ 63" "0 < n" and n: "n \<le> maxPageSize"
  shows "\<exists>s'. SearchHostOverrides (fakeNet base newUUID) cfg ctx current n s =
    (Inr \<lparr>pgRows = pageOf current n (fakeTable (nw s)),
          pgRowCount = int (length (pageOf current n (fakeTable (nw s)))),
          pgTotal = int (length (fakeTable (nw s))), pgCurrent = current\<rparr>, s') \<and>
    nw s' = hit opSearchHostOverride (nw s)"
proof -
  let ?net = "fakeNet base newUUID" and ?body = "Some (searchRequest current n)"
  let ?rows = "pageOf current n (sort_key (searchKey searchFields) (fsRows (nw s)))"
  let ?resp = "writeJSON (pageJSON (nw s) current ?rows)"
  let ?s = "s\<lparr>nw := hit opSearchHostOverride (nw s)\<rparr>"
  have f: "base = cHost cfg" "\<forall>r \<in> set (fsRows (nw s)). rowFits (fsAliases (nw s)) r" "fsFaults (nw s) = []"
    "int (length (fsRows (nw s))) < 2 ^ 62"
    using ok by (auto simp: fakeOk_def)
  have n63: "n < 2 ^ 63" using n by (simp add: maxPageSize_def)
  have len: "length ?rows \<le> length (fsRows (nw s))" by (auto simp: pageOf_def)
  have o: "once ?net cfg ctx opSearchHostOverride ''POST'' pathSearch ?body s = (Response ?resp, ?s)"
    by (simp add: once_def Let_def fakeNet_def f(1) Handler_search handleSearch_page [OF _ _ f(3) b n63])
  have "set ?rows \<subseteq> set (fsRows (nw s))"
    by (auto simp: pageOf_def dest!: in_set_takeD in_set_dropD)
  then have fit: "\<forall>r \<in> set ?rows. rowFits (fsAliases (nw s)) r" using f(2) by blast
  have "int (length ?rows) \<le> n" using b(3) by (auto simp: pageOf_def)
  then have "int (length ?rows) \<le> maxPageSize" using n by simp
  from length_pageJSON [OF fit this _ b(2) f(4)] b(1)
  have small: "int (length (Encode (pageJSON (nw s) current ?rows)) + 1) \<le> maxResponseBytes"
    by (simp add: maxResponseBytes_def)
  have d: "decodeBody ?resp opSearchHostOverride dec_searchPage maxResponseBytes =
    (int (length (Encode (pageJSON (nw s) current ?rows)) + 1), Inr \<lparr>pgRows = map (rowOf (fsAliases (nw s))) ?rows,
       pgRowCount = int (length ?rows), pgTotal = int (length (fsRows (nw s))), pgCurrent = current\<rparr>)"
    using small dec_pageJSON [OF _ b(2) f(4) len] b(1)
    by (simp add: decodeBody_def writeJSON_def Let_def not_less del: Encode.simps)
  have "doLoop ?net cfg ctx opSearchHostOverride ''POST'' pathSearch ?body dec_searchPage maxResponseBytes left 0 s =
      (decodeBody ?resp opSearchHostOverride dec_searchPage maxResponseBytes, ?s)" for left
    by (subst doLoop.simps) (simp add: o succeeded_def writeJSON_def Let_def del: Encode.simps)
  moreover have "map (rowOf (fsAliases (nw s))) ?rows = pageOf current n (fakeTable (nw s))"
    by (simp add: pageOf_def fakeTable_def take_map drop_map)
  moreover from this have "length (pageOf current n (fakeTable (nw s))) = length ?rows" by (metis length_map)
  ultimately show ?thesis
    by (simp add: SearchHostOverrides_def doCall_def d length_fakeTable isInl_def)
qed

lemma fakeOk_hit: "fakeOk base cfg s \<Longrightarrow> nw s' = hit op (nw s) \<Longrightarrow> fakeOk base cfg s'"
  by (simp add: fakeOk_def hit_def)

lemma fakeTable_hit [simp]: "fakeTable (hit op s) = fakeTable s"
  by (simp add: fakeTable_def hit_def)

text \<open>The state of the firewall but for its counters of requests.\<close>

definition unhit :: "fakeServer \<Rightarrow> fakeServer" where
  "unhit s = s\<lparr>fsHits := (\<lambda>_. 0)\<rparr>"

lemma unhit_hit [simp]: "unhit (hit op s) = unhit s"
  by (simp add: unhit_def hit_def)

lemma unhit_simps [simp]:
  "fsRows (unhit s) = fsRows s" "fsAliases (unhit s) = fsAliases s" "fsServed (unhit s) = fsServed s"
  "fsFaults (unhit s) = fsFaults s" "fsReconfigures (unhit s) = fsReconfigures s" "fsIssued (unhit s) = fsIssued s"
  by (simp_all add: unhit_def)

lemma unhit_sel:
  assumes "unhit s' = unhit s"
  shows "fsRows s' = fsRows s" "fsAliases s' = fsAliases s" "fsServed s' = fsServed s" "fsFaults s' = fsFaults s"
    "fsReconfigures s' = fsReconfigures s" "fsIssued s' = fsIssued s"
  using arg_cong [OF assms, of fsRows] arg_cong [OF assms, of fsAliases] arg_cong [OF assms, of fsServed]
    arg_cong [OF assms, of fsFaults] arg_cong [OF assms, of fsReconfigures] arg_cong [OF assms, of fsIssued]
  by simp_all

lemma fakeTable_unhit: "unhit s' = unhit s \<Longrightarrow> fakeTable s' = fakeTable s"
  using unhit_sel [of s' s] by (simp add: fakeTable_def)

section \<open>The whole table\<close>

text \<open>A server that stays in the state \<open>S\<close> while it is read.\<close>

definition fakeStill :: "string \<Rightarrow> config \<Rightarrow> fakeServer \<Rightarrow> fakeServer cworld \<Rightarrow> bool" where
  "fakeStill base cfg S s \<longleftrightarrow> fakeOk base cfg s \<and> unhit (nw s) = S"

interpretation fake: pager "SearchHostOverrides (fakeNet base newUUID) cfg ctx" "\<lambda>s. fakeTable (nw s)"
    "fakeStill base cfg S" maxPageSize
  for base newUUID cfg ctx S
proof
  show "maxPageSize \<le> 2 ^ 61" by (simp add: maxPageSize_def)
next
  fix s :: "fakeServer cworld" and m N :: nat
  assume still: "fakeStill base cfg S s"
  then have ok: "fakeOk base cfg s" by (simp add: fakeStill_def)
  show "distinct (uuids (fakeTable (nw s)))" using ok by (intro distinct_fakeTable) (simp add: fakeOk_def)
  show "int (length (fakeTable (nw s))) < 2 ^ 62" using ok by (simp add: fakeOk_def length_fakeTable)
  assume b: "int m < 2 ^ 62" "int (Suc N) \<le> maxPageSize"
  have "nat (int m * int (Suc N)) = m * Suc N" by (simp only: of_nat_mult [symmetric] nat_int)
  then have p: "pageOf (int m + 1) (int (Suc N)) (fakeTable (nw s)) = take (Suc N) (drop (m * Suc N) (fakeTable (nw s)))"
    by (simp only: pageOf_def add_diff_cancel_right' nat_int of_nat_0_less_iff zero_less_Suc if_True)
  define pg where "pg = \<lparr>pgRows = pageOf (int m + 1) (int (Suc N)) (fakeTable (nw s)),
          pgRowCount = int (length (pageOf (int m + 1) (int (Suc N)) (fakeTable (nw s)))),
          pgTotal = int (length (fakeTable (nw s))), pgCurrent = int m + 1\<rparr>"
  obtain s' where s': "SearchHostOverrides (fakeNet base newUUID) cfg ctx (int m + 1) (int (Suc N)) s = (Inr pg, s')"
    "nw s' = hit opSearchHostOverride (nw s)"
    using fake_search [OF ok, of "int m + 1" "int (Suc N)" newUUID ctx] b unfolding pg_def by auto
  have "pgRows pg = take (Suc N) (drop (m * Suc N) (fakeTable (nw s)))" "pgTotal pg = int (length (fakeTable (nw s)))"
    unfolding pg_def using p by simp_all
  moreover have "fakeStill base cfg S s'" "fakeTable (nw s') = fakeTable (nw s)"
    using fakeOk_hit [OF ok s'(2)] s'(2) still by (simp_all add: fakeStill_def)
  ultimately show "\<exists>page s'. SearchHostOverrides (fakeNet base newUUID) cfg ctx (int m + 1) (int (Suc N)) s = (Inr page, s') \<and>
      fakeStill base cfg S s' \<and> fakeTable (nw s') = fakeTable (nw s) \<and>
      pgTotal page = int (length (fakeTable (nw s))) \<and> pgRows page = take (Suc N) (drop (m * Suc N) (fakeTable (nw s)))"
    using s'(1) by blast
qed

lemma fake_snapshot:
  assumes ok: "fakeOk (cHost cfg) cfg s" and v: "1 \<le> cPageSize cfg" "cPageSize cfg \<le> maxPageSize" "1 \<le> cReadAttempts cfg"
  shows "\<exists>s'. SnapshotCall (fakeNet (cHost cfg) newUUID) cfg ctx s =
    (Inr (buildSnapshot (fakeTable (nw s)) (int (length (fakeTable (nw s))))), s') \<and> unhit (nw s') = unhit (nw s)"
proof -
  have "fakeStill (cHost cfg) cfg (unhit (nw s)) s" using ok by (simp add: fakeStill_def)
  from fake.readAll_table [OF this v(1,2), of newUUID ctx]
  obtain s' where r: "readAll (SearchHostOverrides (fakeNet (cHost cfg) newUUID) cfg ctx) (cPageSize cfg) s =
      (Inr (fakeTable (nw s), int (length (fakeTable (nw s)))), s')" "unhit (nw s') = unhit (nw s)"
    unfolding fakeStill_def by blast
  obtain left where "nat (cReadAttempts cfg) = Suc left" using v(3) by (cases "nat (cReadAttempts cfg)") auto
  with r show ?thesis by (simp add: SnapshotCall_def)
qed

section \<open>Property\<close>

text \<open>C19: Against the repository's in-memory firewall with no fault armed, distinct uuids and no row that takes more
than 16000 bytes of JSON, a table nobody writes to is read whole on the first attempt: every row with all its columns
and aliases, in the firewall's sort order, for every page size a valid configuration allows; and the read leaves the
firewall as it found it, but for its counters of requests.\<close>

theorem quiet_table_read_whole:
  assumes "fakeOk (cHost cfg) cfg s" and "validConfig cfg"
  shows "\<exists>s'. SnapshotCall (fakeNet (cHost cfg) newUUID) cfg ctx s =
    (Inr (buildSnapshot (fakeTable (nw s)) (int (length (fakeTable (nw s))))), s') \<and> unhit (nw s') = unhit (nw s)"
  using assms(2) by (intro fake_snapshot assms(1)) (auto simp: validConfig_def)

end
