(* ===== verification/Convergence.thy ===== *)
theory Convergence
  imports Fixpoint
begin

text \<open>
  What an apply achieves on a firewall that does as it is told: the contract of such a firewall as a locale,
  and the proof that one apply makes the saved table hold exactly what the plan asks for.  The saved
  table is a map from uuids to rows, of which only the columns the provider looks at count (\<open>core\<close>).
\<close>

section \<open>Rows, as far as the provider looks\<close>

definition core :: "hostRow \<Rightarrow> hostRow" where
  "core r = HostRow ((cols r)\<lparr>Enabled := (if enabled r then ''1'' else ''0''), MX := [], MXPrio := []\<rparr>)
     (if hasEnabledChildren r then [HostRow (zeroCols\<lparr>Enabled := ''1''\<rparr>) []] else [])"

lemma core_simps [simp]:
  "UUID (cols (core r)) = UUID (cols r)" "enabled (core r) = enabled r" "indexed (core r) = indexed r"
  "rowKeyOf (core r) = rowKeyOf r" "bareTarget (core r) = bareTarget r"
  "hasEnabledChildren (core r) = hasEnabledChildren r" "inLine cfg s t (core r) = inLine cfg s t r"
  "differsFrom (core r) w = differsFrom r w" "Description (cols (core r)) = Description (cols r)"
  by (simp_all add: core_def enabledCols_def indexed_def rowKeyOf_def bareTarget_def hasEnabledChildren_def
        zeroCols_def inLine_def ttlValue_def differsFrom_def Let_def)

lemma core_core [simp]: "core (core r) = core r"
  by (simp add: core_def enabledCols_def hasEnabledChildren_def zeroCols_def)

lemma core_retargetRow [simp]: "core (retargetRow f r) = retargetRow f (core r)"
  by (simp add: core_def retargetRow_def enabledCols_def hasEnabledChildren_def)

lemma core_createdRow: "fEnabled f = ''1'' \<Longrightarrow> core (createdRow u f) = createdRow u f"
  by (simp add: core_def createdRow_def enabledCols_def hasEnabledChildren_def zeroCols_def)

lemma indexed_createdRow: "fEnabled f = ''1'' \<Longrightarrow> indexed (createdRow u f)"
  by (simp add: createdRow_def indexed_def enabledCols_def zeroCols_def)

lemma children_createdRow [simp]: "\<not> hasEnabledChildren (createdRow u f)"
  by (simp add: createdRow_def hasEnabledChildren_def)

text \<open>A row a write left behind reads back as the write described it.\<close>

lemma written_reads_back [simp]:
  "differsFrom (retargetRow f r) f = None" "differsFrom (createdRow u f) f = None"
  by (simp_all add: differsFrom_def retargetRow_def createdRow_def bareTarget_def fieldsTarget_def ttlValue_def
        Let_def zeroCols_def)

lemma fieldsTarget_writeFields [simp]: "fieldsTarget (writeFields cfg s t) = t"
  by (simp add: fieldsTarget_def writeFields_def Let_def)

lemma fEnabled_writeFields [simp]: "fEnabled (writeFields cfg s t) = ''1''"
  by (simp add: writeFields_def Let_def)

lemma written_inLine:
  assumes "0 \<le> dsTTL s" "dsTTL s \<le> maxTTL"
  shows "inLine cfg s t (retargetRow (writeFields cfg s t) r)" "inLine cfg s t (createdRow u (writeFields cfg s t))"
proof -
  have "clampTTL (dsTTL s) = dsTTL s" using assms by (simp add: clampTTL_def)
  then have "parseTTL (ttlField (dsTTL s)) = dsTTL s" by (metis parseTTL_ttlField_clamp)
  then show "inLine cfg s t (retargetRow (writeFields cfg s t) r)" "inLine cfg s t (createdRow u (writeFields cfg s t))"
    by (simp_all add: inLine_def retargetRow_def createdRow_def ttlValue_def writeFields_def Let_def zeroCols_def)
qed

section \<open>The saved table\<close>

type_synonym saved = "string \<rightharpoonup> hostRow"

definition filed :: "saved \<Rightarrow> rowKey \<Rightarrow> hostRow set" where
  "filed T k = {r. T (UUID (cols r)) = Some r \<and> indexed r \<and> rowKeyOf r = k}"

text \<open>Only rows filed under \<open>k\<close> differ.\<close>

definition sameBut :: "rowKey set \<Rightarrow> saved \<Rightarrow> saved \<Rightarrow> bool" where
  "sameBut K T T' \<longleftrightarrow> (\<forall>u r. \<not> (indexed r \<and> rowKeyOf r \<in> K) \<longrightarrow> (T' u = Some r \<longleftrightarrow> T u = Some r))"

lemma sameBut_refl [simp]: "sameBut K T T"
  by (simp add: sameBut_def)

lemma sameBut_trans: "sameBut K T T' \<Longrightarrow> sameBut K T' T'' \<Longrightarrow> sameBut K T T''"
  by (simp add: sameBut_def)

lemma sameBut_mono: "sameBut K T T' \<Longrightarrow> K \<subseteq> K' \<Longrightarrow> sameBut K' T T'"
  by (fastforce simp: sameBut_def)

lemma sameBut_filed: "sameBut K T T' \<Longrightarrow> k \<notin> K \<Longrightarrow> filed T' k = filed T k"
  by (auto simp: sameBut_def filed_def)

text \<open>The snapshot of the apply shows the saved table, key by key.\<close>

definition mirrors :: "snapshot \<Rightarrow> saved \<Rightarrow> bool" where
  "mirrors sn T \<longleftrightarrow> snapOk sn \<and>
     (\<forall>k. distinct (uuids (snapView sn k)) \<and> core ` set (snapView sn k) = filed T k)"

lemma mirrors_row:
  assumes "mirrors sn T" and "p \<in> set (rowsFor k sn)"
  shows "T (UUID (cols (deref sn p))) = Some (core (deref sn p))" and "indexed (deref sn p)"
    and "rowKeyOf (deref sn p) = k" and "p < length (heap sn)" and "core (deref sn p) \<in> filed T k"
proof -
  have "core (deref sn p) \<in> core ` set (snapView sn k)" using assms(2) by (auto simp: snapView_def)
  then show f: "core (deref sn p) \<in> filed T k" using assms(1) by (simp add: mirrors_def)
  then show "T (UUID (cols (deref sn p))) = Some (core (deref sn p))" "indexed (deref sn p)" "rowKeyOf (deref sn p) = k"
    by (auto simp: filed_def)
  show "p < length (heap sn)" using assms by (auto simp: mirrors_def rowsFor_def dest: snapOkD)
qed

lemma mirrors_filed: "mirrors sn T \<Longrightarrow> r \<in> filed T k \<Longrightarrow> \<exists>p \<in> set (rowsFor k sn). core (deref sn p) = r"
  by (metis (no_types, lifting) imageE image_eqI image_set mirrors_def snapView_def)

lemma uuids_inj:
  assumes "distinct (uuids (snapView sn k))" "p \<in> set (rowsFor k sn)" "q \<in> set (rowsFor k sn)"
    and "UUID (cols (deref sn p)) = UUID (cols (deref sn q))"
  shows "p = q"
  using assms by (auto simp: snapView_def distinct_map inj_on_def)

lemma filed_set:
  assumes "T u = Some r" "indexed r" "rowKeyOf r = k" "indexed r'" "rowKeyOf r' = k" "UUID (cols r) = u" "UUID (cols r') = u"
  shows "filed (T(u \<mapsto> r')) k = insert r' (filed T k - {r})" and "sameBut {k} T (T(u \<mapsto> r'))"
  using assms by (auto simp: filed_def sameBut_def)

lemma filed_add:
  assumes "T u = None" "indexed r'" "rowKeyOf r' = k" "UUID (cols r') = u"
  shows "filed (T(u \<mapsto> r')) k = insert r' (filed T k)" and "sameBut {k} T (T(u \<mapsto> r'))"
  using assms by (auto simp: filed_def sameBut_def)

lemma filed_del:
  assumes "T u = Some r" "indexed r" "rowKeyOf r = k" "UUID (cols r) = u"
  shows "filed (T(u := None)) k = filed T k - {r}" and "sameBut {k} T (T(u := None))"
  using assms by (auto simp: filed_def sameBut_def)

lemma set_snapView: "set (snapView sn k) = deref sn ` set (rowsFor k sn)"
  by (simp add: snapView_def)

text \<open>The three writes keep the snapshot in step with the table.\<close>

lemma mirrors_set:
  assumes m: "mirrors sn T" and p: "p \<in> set (rowsFor k sn)" and f: "fieldsKey f = k"
  defines "r \<equiv> deref sn p"
  shows "mirrors (putRow p (retargetRow f r) sn) (T(UUID (cols r) \<mapsto> retargetRow f (core r)))" (is "mirrors ?sn ?T")
proof -
  note row = mirrors_row [OF m p, folded r_def]
  have ok: "snapOk sn" using m by (simp add: mirrors_def)
  have "p \<in> set (byKey sn k)" using p by (simp add: rowsFor_def)
  then have ok': "snapOk ?sn" using row f by (intro snapOk_putRow [OF ok]) auto
  have d: "deref ?sn q = (if q = p then retargetRow f r else deref sn q)" for q using row(4) by (rule deref_putRow)
  have ids: "uuids (snapView ?sn k') = uuids (snapView sn k')" for k'
    by (simp add: snapView_def rowsFor_def d) (simp add: r_def)
  have "core ` set (snapView ?sn k') = filed ?T k'" for k'
  proof (cases "k' = k")
    case True
    have "core ` set (snapView ?sn k) = insert (retargetRow f (core r)) (core ` deref sn ` (set (rowsFor k sn) - {p}))"
      using p by (auto simp: set_snapView d rowsFor_def image_image)
    also have "core ` deref sn ` (set (rowsFor k sn) - {p}) = core ` set (snapView sn k) - {core r}"
    proof -
      have "core (deref sn q) \<noteq> core r" if "q \<in> set (rowsFor k sn)" "q \<noteq> p" for q
        using uuids_inj [of sn k q p] m p that by (metis core_simps(1) mirrors_def r_def)
      then show ?thesis by (auto simp: set_snapView r_def)
    qed
    also have "core ` set (snapView sn k) = filed T k" using m by (simp add: mirrors_def)
    also have "insert (retargetRow f (core r)) (filed T k - {core r}) = filed ?T k"
      using row f by (intro filed_set(1) [symmetric]) auto
    finally show ?thesis using True by simp
  next
    case False
    then have "snapView ?sn k' = snapView sn k'"
      using \<open>p \<in> set (byKey sn k)\<close> by (rule snapView_putRow_other [OF ok, rotated])
    moreover have "filed ?T k' = filed T k'"
      using row f False by (intro sameBut_filed [OF filed_set(2) [of T _ "core r" k]]) auto
    ultimately show ?thesis using m by (simp add: mirrors_def)
  qed
  with ok' ids m show ?thesis by (simp add: mirrors_def)
qed

lemma mirrors_add:
  assumes m: "mirrors sn T" and u: "T u = None" and f: "fEnabled f = ''1''"
  shows "mirrors (addSnap (createdRow u f) sn) (T(u \<mapsto> createdRow u f))" (is "mirrors ?sn ?T")
proof -
  have ok: "snapOk sn" using m by (simp add: mirrors_def)
  note v = snap.view_add [OF ok, of "createdRow u f"]
  have fresh: "u \<notin> set (uuids (snapView sn k))" for k
    using mirrors_row(1) [OF m] u by (fastforce simp: set_snapView)
  have "core ` set (snapView ?sn k) = filed ?T k" for k
  proof (cases "k = fieldsKey f")
    case True
    with m f u show ?thesis
      using filed_add(1) [of T u "createdRow u f" k] by (auto simp: v mirrors_def core_createdRow indexed_createdRow)
  next
    case False
    then have "filed ?T k = filed T k"
      using f u indexed_createdRow filed_add(2) [of T u "createdRow u f" "fieldsKey f"] by (intro sameBut_filed) auto
    with m False show ?thesis by (auto simp: v mirrors_def)
  qed
  moreover have "distinct (uuids (snapView ?sn k))" for k
    using m fresh by (auto simp: v mirrors_def)
  moreover have "snapOk ?sn" using ok by (rule snapOk_addSnap)
  ultimately show ?thesis by (simp add: mirrors_def)
qed

lemma mirrors_del:
  assumes m: "mirrors sn T" and p: "p \<in> set (rowsFor k sn)"
  defines "u \<equiv> UUID (cols (deref sn p))"
  shows "mirrors (removeSnap k u sn) (T(u := None))" (is "mirrors ?sn ?T")
proof -
  note row = mirrors_row [OF m p, folded u_def]
  have ok: "snapOk sn" using m by (simp add: mirrors_def)
  note v = snap.view_remove [OF ok, of k u]
  have "core ` set (snapView ?sn k') = filed ?T k'" for k'
  proof (cases "k' = k")
    case True
    have "core ` {r \<in> set (snapView sn k). UUID (cols r) \<noteq> u} = core ` set (snapView sn k) - {core (deref sn p)}"
    proof -
      have "r = deref sn p" if "r \<in> set (snapView sn k)" "UUID (cols r) = u" for r
        using that uuids_inj [of sn k _ p] m p by (auto simp: set_snapView mirrors_def u_def)
      then show ?thesis by (auto simp: u_def) (metis core_simps(1))
    qed
    moreover have "filed ?T k = filed T k - {core (deref sn p)}"
      using row by (intro filed_del(1)) (simp_all add: u_def)
    ultimately show ?thesis using True m by (simp add: v mirrors_def)
  next
    case False
    then have "filed ?T k' = filed T k'"
      using filed_del(2) [of T u "core (deref sn p)" k] row by (intro sameBut_filed) (auto simp: u_def)
    with False m show ?thesis by (simp add: v mirrors_def)
  qed
  moreover have "distinct (uuids (snapView ?sn k'))" for k'
    using m by (auto simp: v mirrors_def distinct_map intro: inj_on_subset)
  moreover have "snapOk ?sn" using ok by (rule snapOk_removeSnap)
  ultimately show ?thesis by (simp add: mirrors_def)
qed

section \<open>A firewall that does as it is told\<close>

text \<open>
  \<open>holds n w\<close>: the firewall is in working order with room for \<open>n\<close> more rows; \<open>accepts\<close>: the rows its validation
  lets through.
\<close>

locale obedient =
  fixes c :: "'w client"
    and saved_in :: "'w \<Rightarrow> saved"
    and holds :: "nat \<Rightarrow> 'w \<Rightarrow> bool"
    and accepts :: "hostFields \<Rightarrow> bool"
  assumes room: "holds n w \<Longrightarrow> m \<le> n \<Longrightarrow> holds m w"
    and read: "holds n w \<Longrightarrow> \<exists>rs t w'. cSnapshot c ctx w = (Inr (buildSnapshot rs t), w') \<and> distinct (uuids rs) \<and>
      (\<lambda>u. map_option core (map_of (map (\<lambda>r. (UUID (cols r), r)) rs) u)) = saved_in w \<and> holds n w' \<and> saved_in w' = saved_in w"
    and add: "holds (Suc n) w \<Longrightarrow> accepts f \<Longrightarrow> fEnabled f = ''1'' \<Longrightarrow> \<exists>u w'. cAdd c ctx f w = (Inr u, w') \<and>
      saved_in w u = None \<and> holds n w' \<and> saved_in w' = (saved_in w)(u \<mapsto> createdRow u f)"
    and set: "holds n w \<Longrightarrow> accepts f \<Longrightarrow> fEnabled f = ''1'' \<Longrightarrow> saved_in w u = Some r \<Longrightarrow> enabled r \<Longrightarrow>
      \<exists>w'. cSet c ctx u f w = (None, w') \<and> holds n w' \<and> saved_in w' = (saved_in w)(u \<mapsto> retargetRow f r)"
    and del: "holds n w \<Longrightarrow> saved_in w u = Some r \<Longrightarrow>
      \<exists>w'. cDel c ctx u w = (Inr True, w') \<and> holds n w' \<and> saved_in w' = (saved_in w)(u := None)"
    and reload: "holds n w \<Longrightarrow> \<exists>w'. cReconfigure c ctx w = (None, w') \<and> holds n w' \<and> saved_in w' = saved_in w"

text \<open>The sets of a plan the firewall can hold.\<close>

definition doable :: "config \<Rightarrow> (hostFields \<Rightarrow> bool) \<Rightarrow> (rowKey \<rightharpoonup> desiredSet) \<Rightarrow> bool" where
  "doable cfg accepts S \<longleftrightarrow> coherent cfg S \<and>
     (\<forall>k s. S k = Some s \<longrightarrow> \<not> dsFailed s \<and> 0 \<le> dsTTL s \<and> dsTTL s \<le> maxTTL \<and> distinct (dsTargets s) \<and>
        (\<forall>t \<in> set (dsTargets s). accepts (writeFields cfg s t)))"

lemma doableD:
  assumes "doable cfg accepts S" "S k = Some s"
  shows "dsKey s = k" "\<not> dsFailed s" "0 \<le> dsTTL s" "dsTTL s \<le> maxTTL" "distinct (dsTargets s)"
    and "t \<in> set (dsTargets s) \<Longrightarrow> accepts (writeFields cfg s t)" and "fieldsKey (writeFields cfg s t) = k"
proof -
  have S: "coherent cfg S" "dsKey s = k" using assms by (auto simp: doable_def coherent_def)
  with assms(2) show "dsKey s = k" "fieldsKey (writeFields cfg s t) = k" by (simp_all add: coherent_fields)
qed (use assms in \<open>simp_all add: doable_def\<close>)

text \<open>
  A run without trouble: the snapshot shows the table, and every write of the phase that is still
  to be verified reads back.
\<close>

definition onCourse ::
  "('w \<Rightarrow> saved) \<Rightarrow> (nat \<Rightarrow> 'w \<Rightarrow> bool) \<Rightarrow> (rowKey \<rightharpoonup> desiredSet) \<Rightarrow> nat \<Rightarrow> 'w applyRun \<Rightarrow> bool" where
  "onCourse sv holds S n run \<longleftrightarrow> holds n (world (arP run)) \<and> mirrors (arSnap run) (sv (world (arP run))) \<and>
     arSets run = S \<and> arErrs run = [] \<and> phaseFailed run = 0 \<and> (wrote run \<longrightarrow> pending (arP run))"

definition placed :: "config \<Rightarrow> (rowKey \<rightharpoonup> desiredSet) \<Rightarrow> saved \<Rightarrow> writeRecord list \<Rightarrow> bool" where
  "placed cfg S T ws \<longleftrightarrow> (\<forall>w \<in> set ws. wrOp w \<noteq> changeDelete \<and>
     (\<exists>s t r. S (wrKey w) = Some s \<and> t \<in> set (dsTargets s) \<and> wrWant w = writeFields cfg s t \<and>
        T (wrUUID w) = Some r \<and> differsFrom r (wrWant w) = None))"

text \<open>The targets \<open>D\<close> of a set are there, as the plan wants them.\<close>

definition covered :: "config \<Rightarrow> desiredSet \<Rightarrow> saved \<Rightarrow> string set \<Rightarrow> bool" where
  "covered cfg s T D \<longleftrightarrow> (\<forall>t \<in> D. \<exists>r \<in> filed T (dsKey s). bareTarget r = t \<and> inLine cfg s t r)"

text \<open>No row of a key has aliases and, when \<open>one\<close> is set, no two of them share a target.\<close>

definition tidy :: "bool \<Rightarrow> saved \<Rightarrow> rowKey \<Rightarrow> bool" where
  "tidy one T k \<longleftrightarrow> (\<forall>r \<in> filed T k. \<not> hasEnabledChildren r) \<and> (one \<longrightarrow> inj_on bareTarget (filed T k))"

definition adding ::
  "bool \<Rightarrow> ('w \<Rightarrow> saved) \<Rightarrow> (nat \<Rightarrow> 'w \<Rightarrow> bool) \<Rightarrow> config \<Rightarrow> (rowKey \<rightharpoonup> desiredSet) \<Rightarrow> desiredSet \<Rightarrow> saved \<Rightarrow> string set \<Rightarrow> nat \<Rightarrow>
     'w applyRun \<Rightarrow> bool" where
  "adding one sv holds cfg S s T0 D n run \<longleftrightarrow> onCourse sv holds S n run \<and>
     (let T = sv (world (arP run)) in placed cfg S T (writes run) \<and> covered cfg s T D \<and> tidy one T (dsKey s) \<and>
        sameBut {dsKey s} T0 T)"

text \<open>A write to another row, or of the same values, leaves a placed write placed.\<close>

lemma placed_set:
  assumes pl: "placed cfg S T ws" and S: "S k = Some s" and ok: "doable cfg accepts S"
    and r: "T u = Some r" "indexed r" "rowKeyOf r = k" and t: "t \<in> set (dsTargets s)"
    and side: "bareTarget r = t \<or> bareTarget r \<notin> set (dsTargets s)"
    and f: "f = writeFields cfg s t"
  shows "placed cfg S (T(u \<mapsto> retargetRow f r)) (ws @ [\<lparr>wrOp = changeUpdate, wrKey = k, wrUUID = u, wrWant = f\<rparr>])"
proof -
  have "wrOp w \<noteq> changeDelete \<and>
     (\<exists>s t r'. S (wrKey w) = Some s \<and> t \<in> set (dsTargets s) \<and> wrWant w = writeFields cfg s t \<and>
        (T(u \<mapsto> retargetRow f r)) (wrUUID w) = Some r' \<and> differsFrom r' (wrWant w) = None)" if "w \<in> set ws" for w
  proof -
    from pl that obtain s' t' r' where w: "wrOp w \<noteq> changeDelete" "S (wrKey w) = Some s'" "t' \<in> set (dsTargets s')"
      "wrWant w = writeFields cfg s' t'" "T (wrUUID w) = Some r'" "differsFrom r' (wrWant w) = None"
      by (auto simp: placed_def)
    show ?thesis
    proof (cases "wrUUID w = u")
      case True
      with w r have d: "differsFrom r (writeFields cfg s' t') = None" by simp
      then have "rowKeyOf r = fieldsKey (writeFields cfg s' t')"
        by (auto simp: differsFrom_def Let_def rowKeyOf_def fieldsKey_def split: if_splits)
      with r ok w(2) S have s': "s' = s" by (simp add: doableD)
      from d have "bareTarget r = t'" by (auto simp: differsFrom_def Let_def split: if_splits)
      with side w(3) s' have "t' = t" by auto
      with w s' True f show ?thesis by auto
    qed (use w in auto)
  qed
  then show ?thesis using S t f by (auto simp: placed_def changeUpdate_def changeDelete_def)
qed

lemma placed_add:
  assumes "placed cfg S T ws" "S k = Some s" "t \<in> set (dsTargets s)" "T u = None"
    and f: "f = writeFields cfg s t"
  shows "placed cfg S (T(u \<mapsto> createdRow u f)) (ws @ [\<lparr>wrOp = changeCreate, wrKey = k, wrUUID = u, wrWant = f\<rparr>])"
  using assms by (fastforce simp: placed_def changeCreate_def changeDelete_def)

context obedient
begin

lemma setRow_obeyed:
  assumes on: "onCourse saved_in holds S n run" and p: "p \<in> set (rowsFor k (arSnap run))"
    and f: "accepts f" "fEnabled f = ''1''" "fieldsKey f = k"
  obtains run' where "setRow c ctx k p f t run = (Done, run')" "onCourse saved_in holds S n run'"
    "saved_in (world (arP run')) = (saved_in (world (arP run)))(UUID (cols (rowAt run p)) \<mapsto> retargetRow f (core (rowAt run p)))"
    "arSnap run' = putRow p (retargetRow f (rowAt run p)) (arSnap run)"
    "writes run' = writes run @ [\<lparr>wrOp = changeUpdate, wrKey = k, wrUUID = UUID (cols (rowAt run p)), wrWant = f\<rparr>]"
proof -
  let ?r = "rowAt run p" and ?w = "world (arP run)"
  have m: "mirrors (arSnap run) (saved_in ?w)" and h: "holds n ?w" using on by (auto simp: onCourse_def)
  note row = mirrors_row [OF m p, folded rowAt_def]
  have "enabled (core ?r)" using row(2) by (simp add: indexed_def)
  from set [OF h f(1,2) row(1) this] obtain w' where w': "cSet c ctx (UUID (cols ?r)) f ?w = (None, w')" "holds n w'"
    "saved_in w' = (saved_in ?w)(UUID (cols ?r) \<mapsto> retargetRow f (core ?r))" by blast
  let ?run = "onProv (meter (RecordChange changeUpdate (krr k))) (recordWrite changeUpdate k (UUID (cols ?r)) f
    ((putWorld w' (markWrite run))\<lparr>arSnap := putRow p (retargetRow f ?r) (arSnap run)\<rparr>))"
  have "setRow c ctx k p f t run = (Done, ?run)"
    using w'(1) f(3) by (simp add: setRow_def Let_def andThen_def retarget_def)
  from that [OF this] show thesis
    using w'(2,3) on mirrors_set [OF m p f(3), folded rowAt_def] by (auto simp: onCourse_def)
qed

lemma createRow_obeyed:
  assumes on: "onCourse saved_in holds S (Suc n) run" and f: "accepts f" "fEnabled f = ''1''"
  obtains u run' where "createRow c ctx k f t run = (Done, run')" "onCourse saved_in holds S n run'"
    "saved_in (world (arP run)) u = None"
    "saved_in (world (arP run')) = (saved_in (world (arP run)))(u \<mapsto> createdRow u f)"
    "arSnap run' = addSnap (createdRow u f) (arSnap run)"
    "writes run' = writes run @ [\<lparr>wrOp = changeCreate, wrKey = k, wrUUID = u, wrWant = f\<rparr>]"
proof -
  let ?w = "world (arP run)"
  have m: "mirrors (arSnap run) (saved_in ?w)" and h: "holds (Suc n) ?w" using on by (auto simp: onCourse_def)
  from add [OF h f] obtain u w' where w': "cAdd c ctx f ?w = (Inr u, w')" "saved_in ?w u = None" "holds n w'"
    "saved_in w' = (saved_in ?w)(u \<mapsto> createdRow u f)" by blast
  let ?run = "onProv (meter (RecordChange changeCreate (krr k))) (recordWrite changeCreate k u f
    (addRow (createdRow u f) (putWorld w' (markWrite run))))"
  have "createRow c ctx k f t run = (Done, ?run)" using w'(1) by (simp add: createRow_def Let_def)
  from that [OF this] show thesis
    using w'(2-) on mirrors_add [OF m w'(2) f(2)] by (auto simp: onCourse_def)
qed

lemma removeOne_obeyed:
  assumes on: "onCourse saved_in holds S n run" and p: "p \<in> set (rowsFor (dsKey s) (arSnap run))"
    and bad: "bareTarget (rowAt run p) \<notin> set (dsTargets s)" and free: "\<not> hasEnabledChildren (rowAt run p)"
  defines "u \<equiv> UUID (cols (rowAt run p))"
  obtains run' where "removeOne c ctx s p run = (Done, run')" "onCourse saved_in holds S n run'"
    "saved_in (world (arP run')) = (saved_in (world (arP run)))(u := None)"
    "arSnap run' = removeSnap (dsKey s) u (arSnap run)"
    "writes run' = writes run @ [\<lparr>wrOp = changeDelete, wrKey = dsKey s, wrUUID = u, wrWant = zeroFields\<rparr>]"
proof -
  let ?w = "world (arP run)"
  have m: "mirrors (arSnap run) (saved_in ?w)" and h: "holds n ?w" using on by (auto simp: onCourse_def)
  note row = mirrors_row [OF m p, folded rowAt_def, folded u_def]
  from del [OF h row(1)] obtain w' where w': "cDel c ctx u ?w = (Inr True, w')" "holds n w'"
    "saved_in w' = (saved_in ?w)(u := None)" by blast
  let ?run = "onProv (meter (RecordChange changeDelete (krr (dsKey s)))) (recordWrite changeDelete (dsKey s) u zeroFields
    (removeRow (dsKey s) u (putWorld w' (markWrite run))))"
  have "removeOne c ctx s p run = (Done, ?run)"
    using w'(1) bad free by (simp add: removeOne_def Let_def u_def)
  from that [OF this] show thesis
    using w'(2-) on mirrors_del [OF m p, folded rowAt_def, folded u_def] by (auto simp: onCourse_def)
qed

text \<open>One write of the adding phases.\<close>

lemma bareTarget_retarget: "bareTarget (retargetRow (writeFields cfg s t) r) = t"
  by (simp add: retargetRow_def bareTarget_def writeFields_def Let_def)

lemma bareTarget_created: "bareTarget (createdRow u (writeFields cfg s t)) = t"
  by (simp add: createdRow_def bareTarget_def writeFields_def Let_def zeroCols_def)

lemma adding_set:
  assumes ad: "adding one saved_in holds cfg S s T0 D n run" and ok: "doable cfg accepts S" and S: "S k = Some s"
    and p: "p \<in> set (rowsFor k (arSnap run))" and t: "t \<in> set (dsTargets s)" and D: "D \<subseteq> set (dsTargets s)"
    and side: "bareTarget (rowAt run p) = t \<or>
      bareTarget (rowAt run p) \<notin> set (dsTargets s) \<and> t \<notin> bareTarget ` filed (saved_in (world (arP run))) k"
  obtains run' where "setRow c ctx k p (writeFields cfg s t) t run = (Done, run')"
    "adding one saved_in holds cfg S s T0 (insert t D) n run'"
    "arSnap run' = putRow p (retargetRow (writeFields cfg s t) (rowAt run p)) (arSnap run)"
    "bareTarget ` filed (saved_in (world (arP run'))) k \<subseteq> insert t (bareTarget ` filed (saved_in (world (arP run))) k)"
proof -
  let ?f = "writeFields cfg s t" and ?T = "saved_in (world (arP run))"
  let ?r = "core (rowAt run p)" and ?u = "UUID (cols (rowAt run p))"
  note set = doableD [OF ok S]
  have on: "onCourse saved_in holds S n run" and pl: "placed cfg S ?T (writes run)" and cov: "covered cfg s ?T D"
    and ch: "tidy one ?T k" and sb: "sameBut {k} T0 ?T"
    using ad set(1) by (auto simp: adding_def Let_def)
  have m: "mirrors (arSnap run) ?T" using on by (simp add: onCourse_def)
  note row = mirrors_row [OF m p, folded rowAt_def]
  obtain run' where run': "setRow c ctx k p ?f t run = (Done, run')" "onCourse saved_in holds S n run'"
    "saved_in (world (arP run')) = ?T(?u \<mapsto> retargetRow ?f ?r)" "arSnap run' = putRow p (retargetRow ?f (rowAt run p)) (arSnap run)"
    "writes run' = writes run @ [\<lparr>wrOp = changeUpdate, wrKey = k, wrUUID = ?u, wrWant = ?f\<rparr>]"
    using setRow_obeyed [OF on p set(6) [OF t] fEnabled_writeFields set(7)] by blast
  have fl: "filed (?T(?u \<mapsto> retargetRow ?f ?r)) k = insert (retargetRow ?f ?r) (filed ?T k - {?r})"
    using row set(7) by (intro filed_set(1)) auto
  have sb': "sameBut {k} ?T (?T(?u \<mapsto> retargetRow ?f ?r))"
    using row set(7) by (intro filed_set(2) [of ?T ?u ?r k]) auto
  have "placed cfg S (saved_in (world (arP run'))) (writes run')"
    unfolding run'(3,5) using row side by (intro placed_set [OF pl S ok _ _ _ t]) auto
  moreover have "covered cfg s (saved_in (world (arP run'))) (insert t D)"
    using cov side D written_inLine(1) [OF set(3,4), of cfg t ?r] unfolding covered_def set(1) run'(3) fl
    by (fastforce simp del: core_retargetRow)
  moreover have "tidy one (saved_in (world (arP run'))) k"
  proof -
    have "inj_on bareTarget (insert (retargetRow ?f ?r) (filed ?T k - {?r}))" if inj: "inj_on bareTarget (filed ?T k)"
    proof (intro inj_on_insert [THEN iffD2] conjI)
      show "inj_on bareTarget (filed ?T k - {?r})" using inj by (rule inj_on_subset) auto
      have only: "x = ?r" if x: "x \<in> filed ?T k" "bareTarget x = t" for x
      proof -
        have "t \<in> bareTarget ` filed ?T k" using x by blast
        then have "bareTarget (rowAt run p) = t" using side by blast
        then have "bareTarget x = bareTarget ?r" using x(2) by simp
        then show ?thesis using x(1) row(5) by (rule inj_onD [OF inj])
      qed
      show "bareTarget (retargetRow ?f ?r) \<notin> bareTarget ` (filed ?T k - {?r} - {retargetRow ?f ?r})"
        unfolding bareTarget_retarget using only by blast
    qed
    then show ?thesis using ch row(5) unfolding tidy_def run'(3) fl by auto
  qed
  moreover have "sameBut {k} T0 (saved_in (world (arP run')))" unfolding run'(3) using sb sb' by (rule sameBut_trans)
  moreover have "bareTarget ` filed (saved_in (world (arP run'))) k \<subseteq> insert t (bareTarget ` filed ?T k)"
    unfolding run'(3) fl by (auto simp: bareTarget_retarget)
  ultimately show thesis using that [OF run'(1)] run'(2,4) set(1) by (simp add: adding_def)
qed

lemma adding_create:
  assumes ad: "adding one saved_in holds cfg S s T0 D (Suc n) run" and ok: "doable cfg accepts S" and S: "S k = Some s"
    and t: "t \<in> set (dsTargets s)" "t \<notin> bareTarget ` filed (saved_in (world (arP run))) k"
  obtains run' where "createTarget c cfg ctx s t run = (Done, run')"
    "adding one saved_in holds cfg S s T0 (insert t D) n run'"
    "bareTarget ` filed (saved_in (world (arP run'))) k \<subseteq> insert t (bareTarget ` filed (saved_in (world (arP run))) k)"
proof -
  let ?f = "writeFields cfg s t" and ?T = "saved_in (world (arP run))"
  note set = doableD [OF ok S]
  have on: "onCourse saved_in holds S (Suc n) run" and pl: "placed cfg S ?T (writes run)" and cov: "covered cfg s ?T D"
    and ch: "tidy one ?T k" and sb: "sameBut {k} T0 ?T"
    using ad set(1) by (auto simp: adding_def Let_def)
  obtain u run' where run': "createRow c ctx k ?f t run = (Done, run')" "onCourse saved_in holds S n run'" "?T u = None"
    "saved_in (world (arP run')) = ?T(u \<mapsto> createdRow u ?f)"
    "writes run' = writes run @ [\<lparr>wrOp = changeCreate, wrKey = k, wrUUID = u, wrWant = ?f\<rparr>]"
    using createRow_obeyed [OF on set(6) [OF t(1)] fEnabled_writeFields] by blast
  have fl: "filed (?T(u \<mapsto> createdRow u ?f)) k = insert (createdRow u ?f) (filed ?T k)"
    using run'(3) set(7) indexed_createdRow [of ?f u] by (intro filed_add(1)) auto
  have sb': "sameBut {k} ?T (?T(u \<mapsto> createdRow u ?f))"
    using run'(3) set(7) indexed_createdRow [of ?f u] by (intro filed_add(2)) auto
  have "placed cfg S (saved_in (world (arP run'))) (writes run')"
    unfolding run'(4,5) by (rule placed_add [OF pl S t(1) run'(3) refl])
  moreover have "covered cfg s (saved_in (world (arP run'))) (insert t D)"
    using cov written_inLine(2) [OF set(3,4), of cfg t u] unfolding covered_def set(1) run'(4) fl by auto
  moreover have "tidy one (saved_in (world (arP run'))) k"
    using ch t(2) unfolding tidy_def run'(4) fl by (auto simp: bareTarget_created)
  moreover have "sameBut {k} T0 (saved_in (world (arP run')))" unfolding run'(4) using sb sb' by (rule sameBut_trans)
  moreover have "bareTarget ` filed (saved_in (world (arP run'))) k \<subseteq> insert t (bareTarget ` filed ?T k)"
    unfolding run'(4) fl by (auto simp: bareTarget_created)
  ultimately show thesis using that run'(1,2) set(1) by (simp add: adding_def createTarget_def)
qed

text \<open>A write in place keeps the pointers of its key, and every target but that of the written row.\<close>

lemma rewritten:
  assumes "p \<in> set (rowsFor k (arSnap run))" "mirrors (arSnap run) T"
    and "arSnap run' = putRow p r (arSnap run)"
  shows "rowsFor k (arSnap run') = rowsFor k (arSnap run)"
    and "rowAt run' q = (if q = p then r else rowAt run q)"
  using mirrors_row(4) [OF assms(2,1)] assms(3) by (simp_all add: rowsFor_def rowAt_def deref_putRow)

lemma refresh_all:
  assumes "adding one saved_in holds cfg S s T0 D n run" and ok: "doable cfg accepts S" and S: "S k = Some s"
    and "set ts \<subseteq> set (dsTargets s)" and "D \<subseteq> set (dsTargets s)"
    and "\<forall>t p. bt t = Some p \<longrightarrow> p \<in> set (rowsFor k (arSnap run)) \<and> bareTarget (rowAt run p) = t"
  shows "\<exists>run'. forEach (refreshTarget c cfg ctx s bt) ts run = (Done, run') \<and>
    adding one saved_in holds cfg S s T0 (D \<union> {t \<in> set ts. bt t \<noteq> None}) n run' \<and>
    rowsFor k (arSnap run') = rowsFor k (arSnap run) \<and>
    (\<forall>p. bareTarget (rowAt run' p) = bareTarget (rowAt run p)) \<and>
    bareTarget ` filed (saved_in (world (arP run'))) k \<subseteq> bareTarget ` filed (saved_in (world (arP run))) k"
  using assms(1,4-)
proof (induction ts arbitrary: D run)
  case (Cons t ts)
  note set = doableD [OF ok S]
  let ?T = "saved_in (world (arP run))" and ?D = "if bt t = None then D else insert t D"
  have m: "mirrors (arSnap run) ?T" and cov: "covered cfg s ?T D"
    using Cons.prems(1) by (auto simp: adding_def Let_def onCourse_def)
  have "\<exists>run'. refreshTarget c cfg ctx s bt t run = (Done, run') \<and> adding one saved_in holds cfg S s T0 ?D n run' \<and>
      rowsFor k (arSnap run') = rowsFor k (arSnap run) \<and> (\<forall>p. bareTarget (rowAt run' p) = bareTarget (rowAt run p)) \<and>
      bareTarget ` filed (saved_in (world (arP run'))) k \<subseteq> bareTarget ` filed ?T k"
  proof (cases "bt t")
    case None
    with Cons.prems(1) show ?thesis by (simp add: refreshTarget_def)
  next
    case (Some p)
    with Cons.prems(4) have p: "p \<in> set (rowsFor k (arSnap run))" and bp: "bareTarget (rowAt run p) = t" by auto
    show ?thesis
    proof (cases "inLine cfg s t (rowAt run p)")
      case True
      have "covered cfg s ?T (insert t D)"
        using cov mirrors_row(5) [OF m p] bp True set(1) unfolding covered_def rowAt_def
        by (metis core_simps(5,7) insert_iff)
      with Cons.prems(1) Some True show ?thesis by (simp add: refreshTarget_def adding_def Let_def)
    next
      case False
      obtain run' where "setRow c ctx k p (writeFields cfg s t) t run = (Done, run')"
        "adding one saved_in holds cfg S s T0 (insert t D) n run'"
        and sn: "arSnap run' = putRow p (retargetRow (writeFields cfg s t) (rowAt run p)) (arSnap run)"
        and im: "bareTarget ` filed (saved_in (world (arP run'))) k \<subseteq> insert t (bareTarget ` filed ?T k)"
        by (rule adding_set [OF Cons.prems(1) ok S p _ Cons.prems(3)]) (use Cons.prems(2) bp in auto)
      moreover have "rowsFor k (arSnap run') = rowsFor k (arSnap run)" "bareTarget (rowAt run' q) = bareTarget (rowAt run q)" for q
        using rewritten [OF p m sn] bp by simp_all
      moreover have "t \<in> bareTarget ` filed ?T k"
        using mirrors_row(5) [OF m p] bp by (intro image_eqI [of t _ "core (rowAt run p)"]) (simp_all add: rowAt_def)
      then have "bareTarget ` filed (saved_in (world (arP run'))) k \<subseteq> bareTarget ` filed ?T k" using im by auto
      ultimately show ?thesis using Some False set(1) by (simp add: refreshTarget_def)
    qed
  qed
  then obtain r1 where r1: "refreshTarget c cfg ctx s bt t run = (Done, r1)" "adding one saved_in holds cfg S s T0 ?D n r1"
    "rowsFor k (arSnap r1) = rowsFor k (arSnap run)" "\<forall>p. bareTarget (rowAt r1 p) = bareTarget (rowAt run p)"
    "bareTarget ` filed (saved_in (world (arP r1))) k \<subseteq> bareTarget ` filed ?T k" by blast
  have "\<exists>run'. forEach (refreshTarget c cfg ctx s bt) ts r1 = (Done, run') \<and>
    adding one saved_in holds cfg S s T0 (?D \<union> {t \<in> set ts. bt t \<noteq> None}) n run' \<and>
    rowsFor k (arSnap run') = rowsFor k (arSnap r1) \<and> (\<forall>p. bareTarget (rowAt run' p) = bareTarget (rowAt r1 p)) \<and>
    bareTarget ` filed (saved_in (world (arP run'))) k \<subseteq> bareTarget ` filed (saved_in (world (arP r1))) k"
    using Cons.prems r1 by (intro Cons.IH) auto
  moreover have "?D \<union> {t \<in> set ts. bt t \<noteq> None} = D \<union> {x \<in> set (t # ts). bt x \<noteq> None}" by auto
  ultimately show ?case using r1 by (auto simp: andThen_def)
qed simp

lemma stepDisjoint: "I' \<subseteq> insert t I \<Longrightarrow> t \<notin> B \<Longrightarrow> B \<inter> I = {} \<Longrightarrow> B \<inter> I' = {}"
  by blast

lemma reuse_all:
  assumes "adding one saved_in holds cfg S s T0 D n run" and ok: "doable cfg accepts S" and S: "S k = Some s"
    and "snd ` set pts \<subseteq> set (dsTargets s)" and "D \<subseteq> set (dsTargets s)" and "distinct (map fst pts)"
    and "\<forall>p \<in> fst ` set pts. p \<in> set (rowsFor k (arSnap run)) \<and> bareTarget (rowAt run p) \<notin> set (dsTargets s)"
    and "distinct (map snd pts)" and "snd ` set pts \<inter> bareTarget ` filed (saved_in (world (arP run))) k = {}"
  shows "\<exists>run'. forEach (reuseRow c cfg ctx s) pts run = (Done, run') \<and>
    adding one saved_in holds cfg S s T0 (D \<union> snd ` set pts) n run' \<and>
    bareTarget ` filed (saved_in (world (arP run'))) k \<subseteq> snd ` set pts \<union> bareTarget ` filed (saved_in (world (arP run))) k"
  using assms(1,4-)
proof (induction pts arbitrary: D run)
  case (Cons pt pts)
  note set = doableD [OF ok S]
  obtain p t where pt: "pt = (p, t)" by fastforce
  with Cons.prems have p: "p \<in> set (rowsFor k (arSnap run))" and bp: "bareTarget (rowAt run p) \<notin> set (dsTargets s)"
    and t: "t \<in> set (dsTargets s)" by auto
  have m: "mirrors (arSnap run) (saved_in (world (arP run)))"
    using Cons.prems(1) by (auto simp: adding_def onCourse_def)
  obtain r1 where r1: "setRow c ctx k p (writeFields cfg s t) t run = (Done, r1)"
    "adding one saved_in holds cfg S s T0 (insert t D) n r1"
    and sn: "arSnap r1 = putRow p (retargetRow (writeFields cfg s t) (rowAt run p)) (arSnap run)"
    and im: "bareTarget ` filed (saved_in (world (arP r1))) k \<subseteq> insert t (bareTarget ` filed (saved_in (world (arP run))) k)"
    by (rule adding_set [OF Cons.prems(1) ok S p t Cons.prems(3)]) (use bp Cons.prems(7) pt in auto)
  have "\<forall>q \<in> fst ` set pts. q \<in> set (rowsFor k (arSnap r1)) \<and> bareTarget (rowAt r1 q) \<notin> set (dsTargets s)"
    using Cons.prems(4,5) pt by (auto simp: rewritten [OF p m sn] image_iff)
  moreover have "snd ` set pts \<inter> bareTarget ` filed (saved_in (world (arP r1))) k = {}"
  proof (rule stepDisjoint [OF im])
    show "t \<notin> snd ` set pts" using Cons.prems(6) pt by (auto simp: image_iff)
    show "snd ` set pts \<inter> bareTarget ` filed (saved_in (world (arP run))) k = {}" using Cons.prems(7) by auto
  qed
  ultimately have "\<exists>run'. forEach (reuseRow c cfg ctx s) pts r1 = (Done, run') \<and>
      adding one saved_in holds cfg S s T0 (insert t D \<union> snd ` set pts) n run' \<and>
      bareTarget ` filed (saved_in (world (arP run'))) k \<subseteq> snd ` set pts \<union> bareTarget ` filed (saved_in (world (arP r1))) k"
    using Cons.prems t pt by (intro Cons.IH [OF r1(2)]) auto
  moreover have "reuseRow c cfg ctx s pt run = (Done, r1)" using r1(1) set(1) pt by (simp add: reuseRow_def)
  ultimately obtain r2 where r2: "forEach (reuseRow c cfg ctx s) pts r1 = (Done, r2)"
    "adding one saved_in holds cfg S s T0 (insert t D \<union> snd ` set pts) n r2"
    "bareTarget ` filed (saved_in (world (arP r2))) k \<subseteq> snd ` set pts \<union> bareTarget ` filed (saved_in (world (arP r1))) k"
    "reuseRow c cfg ctx s pt run = (Done, r1)" by blast
  have sp: "snd ` set (pt # pts) = insert t (snd ` set pts)" using pt by simp
  have i2: "bareTarget ` filed (saved_in (world (arP r2))) k \<subseteq>
      snd ` set (pt # pts) \<union> bareTarget ` filed (saved_in (world (arP run))) k"
    unfolding sp using im r2(3) by blast
  have "insert t D \<union> snd ` set pts = D \<union> snd ` set (pt # pts)" using pt by simp
  with r2(2) have a2: "adding one saved_in holds cfg S s T0 (D \<union> snd ` set (pt # pts)) n r2" by simp
  have "forEach (reuseRow c cfg ctx s) (pt # pts) run = (Done, r2)" using r2(1,4) by (simp add: andThen_def)
  from this a2 i2 show ?case by (intro exI conjI)
qed simp

lemma create_all:
  assumes "adding one saved_in holds cfg S s T0 D (n + length ts) run" and ok: "doable cfg accepts S" and S: "S k = Some s"
    and "set ts \<subseteq> set (dsTargets s)" "distinct ts" "set ts \<inter> bareTarget ` filed (saved_in (world (arP run))) k = {}"
  shows "\<exists>run'. forEach (createTarget c cfg ctx s) ts run = (Done, run') \<and>
    adding one saved_in holds cfg S s T0 (D \<union> set ts) n run'"
  using assms(1,4-)
proof (induction ts arbitrary: D run)
  case (Cons t ts)
  then have "adding one saved_in holds cfg S s T0 D (Suc (n + length ts)) run" "t \<in> set (dsTargets s)"
    "t \<notin> bareTarget ` filed (saved_in (world (arP run))) k" by simp_all
  from adding_create [OF this(1) ok S this(2,3)] obtain r1 where r1: "createTarget c cfg ctx s t run = (Done, r1)"
    "adding one saved_in holds cfg S s T0 (insert t D) (n + length ts) r1"
    "bareTarget ` filed (saved_in (world (arP r1))) k \<subseteq> insert t (bareTarget ` filed (saved_in (world (arP run))) k)" by metis
  have "set ts \<inter> bareTarget ` filed (saved_in (world (arP r1))) k = {}"
    by (rule stepDisjoint [OF r1(3)]) (use Cons.prems(3,4) in auto)
  from Cons.IH [OF r1(2) _ _ this] Cons.prems(2,3) r1(1) show ?case by (auto simp: andThen_def)
qed simp

lemma adding_room: "adding one saved_in holds cfg S s T0 D n run \<Longrightarrow> m \<le> n \<Longrightarrow> adding one saved_in holds cfg S s T0 D m run"
  by (auto simp: adding_def onCourse_def intro: room)

lemma addSet_obeyed:
  assumes ad: "adding one saved_in holds cfg S s T0 {} (n + length (dsTargets s)) run" and ok: "doable cfg accepts S" and S: "S k = Some s"
  shows "\<exists>run'. addSet c cfg ctx s (rowsFor k (arSnap run)) run = (Done, run') \<and>
    adding one saved_in holds cfg S s T0 (set (dsTargets s)) n run'"
proof -
  let ?ps = "rowsFor k (arSnap run)" and ?ts = "sortedTargets (dsTargets s)"
  let ?bt = "byTarget (arSnap run) ?ps" and ?N = "n + length (dsTargets s)"
  let ?miss = "missing ?bt ?ts" and ?I = "\<lambda>run. bareTarget ` filed (saved_in (world (arP run))) k"
  have ts: "set ?ts = set (dsTargets s)" "distinct ?ts" using doableD(5) [OF ok S] by (simp_all add: sortedTargets_def)
  have pin: "?bt t = Some p \<Longrightarrow> p \<in> set ?ps \<and> bareTarget (rowAt run p) = t" for t p
    using byTarget_in by (fastforce simp: rowAt_def)
  have m: "mirrors (arSnap run) (saved_in (world (arP run)))" using ad by (auto simp: adding_def onCourse_def)
  obtain r1 where r1: "forEach (refreshTarget c cfg ctx s ?bt) ?ts run = (Done, r1)"
    "adding one saved_in holds cfg S s T0 ({} \<union> {t \<in> set ?ts. ?bt t \<noteq> None}) ?N r1" "rowsFor k (arSnap r1) = ?ps"
    and im1: "?I r1 \<subseteq> ?I run"
    using refresh_all [OF ad ok S _ empty_subsetI, of ?ts ?bt ctx] ts(1) pin by blast
  let ?sur = "surplus s ?ps r1"
  let ?i = "min (length ?miss) (length ?sur)"
  have "snapOk (arSnap run)" using m by (simp add: mirrors_def)
  then have "distinct ?sur" by (simp add: surplus_def rowsFor_def snapOk_distinct)
  have pts: "map fst (zip (take ?i ?sur) (take ?i ?miss)) = take ?i ?sur" "map snd (zip (take ?i ?sur) (take ?i ?miss)) = take ?i ?miss"
    by simp_all
  have miss: "set ?miss \<subseteq> set (dsTargets s)" "distinct ?miss" using ts by (auto simp: missing_def)
  have "t \<notin> ?I run" if "t \<in> set ?miss" for t
    using that mirrors_filed [OF m] by (fastforce simp: missing_def byTarget_None)
  then have new: "set ?miss \<inter> ?I r1 = {}" using im1 by blast
  have halves: "set (take ?i ?miss) \<union> set (drop ?i ?miss) = set ?miss" "set (take ?i ?miss) \<inter> set (drop ?i ?miss) = {}"
    using miss(2) by (metis append_take_drop_id set_append, metis append_take_drop_id distinct_append)
  let ?pts = "zip (take ?i ?sur) (take ?i ?miss)" and ?D = "{} \<union> {t \<in> set ?ts. ?bt t \<noteq> None}"
  have zs: "snd ` set ?pts = set (take ?i ?miss)" "fst ` set ?pts = set (take ?i ?sur)" using pts by (metis image_set)+
  have z1: "snd ` set ?pts \<subseteq> set (dsTargets s)" unfolding zs using miss halves(1) by blast
  have z2: "?D \<subseteq> set (dsTargets s)" using ts(1) by auto
  have z3: "distinct (map fst ?pts)" "distinct (map snd ?pts)" unfolding pts using miss(2) \<open>distinct ?sur\<close> by simp_all
  have z4: "\<forall>p \<in> fst ` set ?pts. p \<in> set (rowsFor k (arSnap r1)) \<and> bareTarget (rowAt r1 p) \<notin> set (dsTargets s)"
    unfolding zs(2) r1(3) by (auto simp: surplus_def dest: in_set_takeD)
  have z5: "snd ` set ?pts \<inter> ?I r1 = {}" unfolding zs(1) using new halves(1) by blast
  from reuse_all [OF r1(2) ok S z1 z2 z3(1) z4 z3(2) z5]
  obtain r2 where r2: "forEach (reuseRow c cfg ctx s) ?pts r1 = (Done, r2)"
    "adding one saved_in holds cfg S s T0 (?D \<union> set (take ?i ?miss)) ?N r2"
    and im2: "?I r2 \<subseteq> set (take ?i ?miss) \<union> ?I r1" unfolding zs by blast
  have "length ?miss \<le> length (dsTargets s)" by (simp add: missing_def sortedTargets_def) (metis length_filter_le length_sort)
  then have ad2: "adding one saved_in holds cfg S s T0 ({} \<union> {t \<in> set ?ts. ?bt t \<noteq> None} \<union> set (take ?i ?miss)) (n + length (drop ?i ?miss)) r2"
    by (intro adding_room [OF r2(2)]) simp
  have d1: "set (drop ?i ?miss) \<subseteq> set (dsTargets s)" using miss(1) halves(1) by blast
  have d2: "distinct (drop ?i ?miss)" using miss(2) by simp
  have d3: "set (drop ?i ?miss) \<inter> ?I r2 = {}"
  proof -
    have "set (drop ?i ?miss) \<inter> ?I r1 = {}" using new halves(1) by blast
    with im2 halves(2) show ?thesis by blast
  qed
  from create_all [OF ad2 ok S d1 d2 d3] obtain r3 where r3: "forEach (createTarget c cfg ctx s) (drop ?i ?miss) r2 = (Done, r3)"
    "adding one saved_in holds cfg S s T0 ({} \<union> {t \<in> set ?ts. ?bt t \<noteq> None} \<union> set (take ?i ?miss) \<union> set (drop ?i ?miss)) n r3"
    by blast
  have "{} \<union> {t \<in> set ?ts. ?bt t \<noteq> None} \<union> set (take ?i ?miss) \<union> set (drop ?i ?miss) = set (dsTargets s)"
    using ts halves(1) by (auto simp: missing_def)
  then show ?thesis using r1(1) r2(1) r3 by (simp add: addSet_def placeMissing_def Let_def andThen_def)
qed

end

text \<open>The removing phases: every write is a delete that took.\<close>

definition gone :: "saved \<Rightarrow> writeRecord list \<Rightarrow> bool" where
  "gone T ws \<longleftrightarrow> (\<forall>w \<in> set ws. wrOp w = changeDelete \<and> T (wrUUID w) = None)"

definition removing ::
  "bool \<Rightarrow> ('w \<Rightarrow> saved) \<Rightarrow> (nat \<Rightarrow> 'w \<Rightarrow> bool) \<Rightarrow> config \<Rightarrow> (rowKey \<rightharpoonup> desiredSet) \<Rightarrow> desiredSet \<Rightarrow> saved \<Rightarrow> nat \<Rightarrow>
     'w applyRun \<Rightarrow> bool" where
  "removing one sv holds cfg S s T0 n run \<longleftrightarrow> onCourse sv holds S n run \<and>
     (let T = sv (world (arP run)) in gone T (writes run) \<and> covered cfg s T (set (dsTargets s)) \<and>
        tidy one T (dsKey s) \<and> sameBut {dsKey s} T0 T)"

context obedient
begin

lemma remove_all:
  assumes "removing one saved_in holds cfg S s T0 n run" and "set ps \<subseteq> set (rowsFor (dsKey s) (arSnap run))" and "distinct ps"
    and "\<forall>r \<in> filed (saved_in (world (arP run))) (dsKey s). bareTarget r \<notin> set (dsTargets s) \<longrightarrow> (\<exists>p \<in> set ps. core (rowAt run p) = r)"
  shows "\<exists>run'. forEach (removeOne c ctx s) ps run = (Done, run') \<and> removing one saved_in holds cfg S s T0 n run' \<and>
    bareTarget ` filed (saved_in (world (arP run'))) (dsKey s) \<subseteq> set (dsTargets s)"
  using assms
proof (induction ps arbitrary: run)
  case Nil
  then show ?case by auto
next
  case (Cons p ps)
  let ?T = "saved_in (world (arP run))" and ?k = "dsKey s" and ?u = "UUID (cols (rowAt run p))"
  have on: "onCourse saved_in holds S n run" and gn: "gone ?T (writes run)" and cov: "covered cfg s ?T (set (dsTargets s))"
    and ch: "tidy one ?T ?k" and sb: "sameBut {?k} T0 ?T"
    using Cons.prems(1) by (auto simp: removing_def Let_def)
  have m: "mirrors (arSnap run) ?T" using on by (simp add: onCourse_def)
  have p: "p \<in> set (rowsFor ?k (arSnap run))" using Cons.prems(2) by simp
  note row = mirrors_row [OF m p, folded rowAt_def]
  show ?case
  proof (cases "bareTarget (rowAt run p) \<in> set (dsTargets s)")
    case True
    then have "removeOne c ctx s p run = (Done, run)" by (simp add: removeOne_def Let_def)
    moreover have "\<exists>run'. forEach (removeOne c ctx s) ps run = (Done, run') \<and> removing one saved_in holds cfg S s T0 n run' \<and>
        bareTarget ` filed (saved_in (world (arP run'))) ?k \<subseteq> set (dsTargets s)"
      using Cons.prems True by (intro Cons.IH) auto
    ultimately show ?thesis by (auto simp: andThen_def)
  next
    case False
    have "\<not> hasEnabledChildren (rowAt run p)" using ch row(5) by (auto simp: tidy_def)
    from removeOne_obeyed [OF on p False this] obtain r1 where r1: "removeOne c ctx s p run = (Done, r1)"
      "onCourse saved_in holds S n r1" "saved_in (world (arP r1)) = ?T(?u := None)" "arSnap r1 = removeSnap ?k ?u (arSnap run)"
      "writes r1 = writes run @ [\<lparr>wrOp = changeDelete, wrKey = ?k, wrUUID = ?u, wrWant = zeroFields\<rparr>]" by metis
    have fl: "filed (?T(?u := None)) ?k = filed ?T ?k - {core (rowAt run p)}"
      using row by (intro filed_del(1)) auto
    have sb': "sameBut {?k} ?T (?T(?u := None))"
      using row by (intro filed_del(2) [of ?T ?u "core (rowAt run p)"]) auto
    have at: "rowAt r1 = rowAt run" using r1(4) by (simp add: rowAt_def fun_eq_iff)
    have "covered cfg s (?T(?u := None)) (set (dsTargets s))"
      using cov False unfolding covered_def fl by (metis Diff_iff core_simps(5) singletonD)
    then have "removing one saved_in holds cfg S s T0 n r1"
      unfolding removing_def Let_def r1(3,5)
      using r1(2) gn ch sameBut_trans [OF sb sb'] fl by (auto simp: gone_def tidy_def intro: inj_on_diff)
    moreover have "set ps \<subseteq> set (rowsFor ?k (arSnap r1))"
    proof
      fix q assume q: "q \<in> set ps"
      then have "q \<noteq> p" "q \<in> set (rowsFor ?k (arSnap run))" using Cons.prems(2,3) by auto
      moreover from this have "UUID (cols (rowAt run q)) \<noteq> ?u"
        using uuids_inj [of "arSnap run" ?k q p] m p by (auto simp: mirrors_def rowAt_def)
      ultimately show "q \<in> set (rowsFor ?k (arSnap r1))"
        by (simp add: r1(4) rowsFor_def removeSnap_byKey rowAt_def)
    qed
    moreover have "\<forall>r \<in> filed (saved_in (world (arP r1))) ?k. bareTarget r \<notin> set (dsTargets s) \<longrightarrow> (\<exists>q \<in> set ps. core (rowAt r1 q) = r)"
      using Cons.prems(4) unfolding r1(3) fl at by auto
    ultimately have "\<exists>run'. forEach (removeOne c ctx s) ps r1 = (Done, run') \<and> removing one saved_in holds cfg S s T0 n run' \<and>
        bareTarget ` filed (saved_in (world (arP run'))) ?k \<subseteq> set (dsTargets s)"
      using Cons.prems(3) by (intro Cons.IH) auto
    then show ?thesis using r1(1) by (auto simp: andThen_def)
  qed
qed

section \<open>A phase over its keys\<close>

lemma add_key:
  assumes on: "onCourse saved_in holds S (n + length (dsTargets s)) run" and ok: "doable cfg accepts S" and S: "S (dsKey s) = Some s"
    and pl: "placed cfg S (saved_in (world (arP run))) (writes run)" and ch: "tidy one (saved_in (world (arP run))) (dsKey s)"
  obtains run' where "convergeKey c cfg ctx modeAddSet s run = (Done, run')"
    "adding one saved_in holds cfg S s (saved_in (world (arP run))) (set (dsTargets s)) n run'"
proof -
  have "adding one saved_in holds cfg S s (saved_in (world (arP run))) {} (n + length (dsTargets s)) run"
    using on pl ch by (simp add: adding_def covered_def)
  from addSet_obeyed [OF this ok S] obtain run' where "addSet c cfg ctx s (rowsFor (dsKey s) (arSnap run)) run = (Done, run')"
    "adding one saved_in holds cfg S s (saved_in (world (arP run))) (set (dsTargets s)) n run'" by blast
  with that show thesis by (simp add: convergeKey_def converge_def)
qed

lemma remove_key:
  assumes on: "onCourse saved_in holds S n run" and ok: "doable cfg accepts S" and S: "S (dsKey s) = Some s"
    and gn: "gone (saved_in (world (arP run))) (writes run)" and ch: "tidy one (saved_in (world (arP run))) (dsKey s)"
    and cov: "covered cfg s (saved_in (world (arP run))) (set (dsTargets s))"
  obtains run' where "convergeKey c cfg ctx modeRemove s run = (Done, run')"
    "removing one saved_in holds cfg S s (saved_in (world (arP run))) n run'"
    "bareTarget ` filed (saved_in (world (arP run'))) (dsKey s) \<subseteq> set (dsTargets s)"
proof -
  let ?ps = "rowsFor (dsKey s) (arSnap run)"
  have m: "mirrors (arSnap run) (saved_in (world (arP run)))" using on by (simp add: onCourse_def)
  have "removing one saved_in holds cfg S s (saved_in (world (arP run))) n run"
    using on gn ch cov by (simp add: removing_def)
  moreover have "distinct ?ps" using m by (simp add: mirrors_def rowsFor_def snapOk_distinct)
  moreover have "\<forall>r \<in> filed (saved_in (world (arP run))) (dsKey s). bareTarget r \<notin> set (dsTargets s) \<longrightarrow> (\<exists>p \<in> set ?ps. core (rowAt run p) = r)"
    using mirrors_filed [OF m] by (auto simp: rowAt_def)
  ultimately obtain run' where r: "forEach (removeOne c ctx s) ?ps run = (Done, run')"
    "removing one saved_in holds cfg S s (saved_in (world (arP run))) n run'"
    "bareTarget ` filed (saved_in (world (arP run'))) (dsKey s) \<subseteq> set (dsTargets s)"
    using remove_all [of one cfg S s "saved_in (world (arP run))" n run ?ps ctx] by blast
  moreover have "\<not> didFail s run" using on S doableD(2) [OF ok S] by (simp add: didFail_def onCourse_def)
  ultimately show thesis using that by (simp add: convergeKey_def converge_def removeSurplus_def)
qed

lemma add_keys:
  assumes "onCourse saved_in holds S (n + (\<Sum>s\<leftarrow>ss. length (dsTargets s))) run" and ok: "doable cfg accepts S"
    and "\<forall>s \<in> set ss. S (dsKey s) = Some s \<and> tidy one (saved_in (world (arP run))) (dsKey s)"
    and "placed cfg S (saved_in (world (arP run))) (writes run)" and "distinct (map dsKey ss)"
  shows "\<exists>run'. forEach (convergeKey c cfg ctx modeAddSet) ss run = (Done, run') \<and> onCourse saved_in holds S n run' \<and>
    placed cfg S (saved_in (world (arP run'))) (writes run') \<and>
    sameBut (dsKey ` set ss) (saved_in (world (arP run))) (saved_in (world (arP run'))) \<and>
    (\<forall>s \<in> set ss. covered cfg s (saved_in (world (arP run'))) (set (dsTargets s)) \<and> tidy one (saved_in (world (arP run'))) (dsKey s))"
  using assms(1,3-)
proof (induction ss arbitrary: run)
  case (Cons s ss)
  let ?T = "\<lambda>run. saved_in (world (arP run))"
  have on: "onCourse saved_in holds S (n + (\<Sum>s\<leftarrow>ss. length (dsTargets s)) + length (dsTargets s)) run"
    using Cons.prems(1) by (simp add: ac_simps)
  obtain r1 where r1: "convergeKey c cfg ctx modeAddSet s run = (Done, r1)"
    "adding one saved_in holds cfg S s (?T run) (set (dsTargets s)) (n + (\<Sum>s\<leftarrow>ss. length (dsTargets s))) r1"
    using add_key [OF on ok] Cons.prems by auto
  from r1(2) have a: "onCourse saved_in holds S (n + (\<Sum>s\<leftarrow>ss. length (dsTargets s))) r1"
    "placed cfg S (?T r1) (writes r1)" "covered cfg s (?T r1) (set (dsTargets s))" "tidy one (?T r1) (dsKey s)"
    "sameBut {dsKey s} (?T run) (?T r1)" by (auto simp: adding_def Let_def)
  have "tidy one (?T r1) (dsKey s')" if "s' \<in> set ss" for s'
  proof -
    have "dsKey s' \<in> dsKey ` set ss" using that by simp
    with Cons.prems(4) have "filed (?T r1) (dsKey s') = filed (?T run) (dsKey s')"
      by (intro sameBut_filed [OF a(5)]) auto
    with Cons.prems(2) that show ?thesis by (simp add: tidy_def)
  qed
  then obtain r2 where r2: "forEach (convergeKey c cfg ctx modeAddSet) ss r1 = (Done, r2)" "onCourse saved_in holds S n r2"
    "placed cfg S (?T r2) (writes r2)" "sameBut (dsKey ` set ss) (?T r1) (?T r2)"
    "\<forall>s \<in> set ss. covered cfg s (?T r2) (set (dsTargets s)) \<and> tidy one (?T r2) (dsKey s)"
    using Cons.IH [OF a(1) _ a(2)] Cons.prems(2,4) by auto
  have "filed (?T r2) (dsKey s) = filed (?T r1) (dsKey s)"
    using Cons.prems(4) by (intro sameBut_filed [OF r2(4)]) auto
  with a(3,4) have "covered cfg s (?T r2) (set (dsTargets s)) \<and> tidy one (?T r2) (dsKey s)"
    by (simp add: covered_def tidy_def)
  moreover have "sameBut (dsKey ` set (s # ss)) (?T run) (?T r2)"
    by (rule sameBut_trans [OF sameBut_mono [OF a(5)] sameBut_mono [OF r2(4)]]) auto
  ultimately show ?case using r1(1) r2 by (auto simp: andThen_def)
qed simp

lemma remove_keys:
  assumes "onCourse saved_in holds S n run" and ok: "doable cfg accepts S"
    and "\<forall>s \<in> set ss. S (dsKey s) = Some s \<and> tidy one (saved_in (world (arP run))) (dsKey s) \<and>
      covered cfg s (saved_in (world (arP run))) (set (dsTargets s))"
    and "gone (saved_in (world (arP run))) (writes run)" and "distinct (map dsKey ss)"
  shows "\<exists>run'. forEach (convergeKey c cfg ctx modeRemove) ss run = (Done, run') \<and> onCourse saved_in holds S n run' \<and>
    gone (saved_in (world (arP run'))) (writes run') \<and>
    sameBut (dsKey ` set ss) (saved_in (world (arP run))) (saved_in (world (arP run'))) \<and>
    (\<forall>s \<in> set ss. covered cfg s (saved_in (world (arP run'))) (set (dsTargets s)) \<and>
       bareTarget ` filed (saved_in (world (arP run'))) (dsKey s) \<subseteq> set (dsTargets s) \<and>
       tidy one (saved_in (world (arP run'))) (dsKey s))"
  using assms(1,3-)
proof (induction ss arbitrary: run)
  case (Cons s ss)
  let ?T = "\<lambda>run. saved_in (world (arP run))"
  obtain r1 where r1: "convergeKey c cfg ctx modeRemove s run = (Done, r1)"
    "removing one saved_in holds cfg S s (?T run) n r1" "bareTarget ` filed (?T r1) (dsKey s) \<subseteq> set (dsTargets s)"
    using remove_key [where one = one, OF Cons.prems(1) ok] Cons.prems by auto
  from r1(2) have a: "onCourse saved_in holds S n r1"
    "gone (?T r1) (writes r1)" "covered cfg s (?T r1) (set (dsTargets s))"
    "sameBut {dsKey s} (?T run) (?T r1)" "tidy one (?T r1) (dsKey s)" by (auto simp: removing_def Let_def)
  have "tidy one (?T r1) (dsKey s') \<and> covered cfg s' (?T r1) (set (dsTargets s'))" if "s' \<in> set ss" for s'
  proof -
    have "dsKey s' \<in> dsKey ` set ss" using that by simp
    with Cons.prems(4) have "filed (?T r1) (dsKey s') = filed (?T run) (dsKey s')"
      by (intro sameBut_filed [OF a(4)]) auto
    with Cons.prems(2) that show ?thesis by (simp add: tidy_def covered_def)
  qed
  then obtain r2 where r2: "forEach (convergeKey c cfg ctx modeRemove) ss r1 = (Done, r2)" "onCourse saved_in holds S n r2"
    "gone (?T r2) (writes r2)" "sameBut (dsKey ` set ss) (?T r1) (?T r2)"
    "\<forall>s \<in> set ss. covered cfg s (?T r2) (set (dsTargets s)) \<and> bareTarget ` filed (?T r2) (dsKey s) \<subseteq> set (dsTargets s) \<and>
       tidy one (?T r2) (dsKey s)"
    using Cons.IH [OF a(1) _ a(2)] Cons.prems(2,4) by auto
  have "filed (?T r2) (dsKey s) = filed (?T r1) (dsKey s)"
    using Cons.prems(4) by (intro sameBut_filed [OF r2(4)]) auto
  with a(3,5) r1(3) have "covered cfg s (?T r2) (set (dsTargets s)) \<and> bareTarget ` filed (?T r2) (dsKey s) \<subseteq> set (dsTargets s) \<and>
      tidy one (?T r2) (dsKey s)"
    by (simp add: covered_def tidy_def)
  moreover have "sameBut (dsKey ` set (s # ss)) (?T run) (?T r2)"
    by (rule sameBut_trans [OF sameBut_mono [OF a(4)] sameBut_mono [OF r2(4)]]) auto
  ultimately show ?case using r1(1) r2 by (auto simp: andThen_def)
qed simp

end

section \<open>Verification, the four phases and the reload\<close>

lemma checkWrites_fine: "\<forall>w \<in> set ws. writeProblem b w = None \<Longrightarrow> checkWrites b ws run = (0, run)"
  by (induction ws arbitrary: run) auto

lemma map_of_rev_distinct: "distinct (map fst xs) \<Longrightarrow> map_of (rev xs) = map_of xs"
  by (subst map_of_inject_set) (simp_all add: rev_map [symmetric])

lemma placed_fine:
  assumes "placed cfg S T ws" "(\<lambda>u. map_option core (b u)) = T"
  shows "\<forall>w \<in> set ws. writeProblem b w = None"
proof
  fix w assume "w \<in> set ws"
  with assms(1) obtain r where w: "wrOp w \<noteq> changeDelete" "T (wrUUID w) = Some r" "differsFrom r (wrWant w) = None"
    by (auto simp: placed_def)
  have "map_option core (b (wrUUID w)) = Some r" unfolding w(2) [symmetric] using assms(2) by (rule fun_cong)
  then obtain r0 where "b (wrUUID w) = Some r0" "core r0 = r" by auto
  with w show "writeProblem b w = None" using core_simps(8) by (auto simp: writeProblem_def)
qed

lemma gone_fine: "gone T ws \<Longrightarrow> (\<lambda>u. map_option core (b u)) = T \<Longrightarrow> \<forall>w \<in> set ws. writeProblem b w = None"
proof
  fix w assume g: "gone T ws" "(\<lambda>u. map_option core (b u)) = T" "w \<in> set ws"
  then have "map_option core (b (wrUUID w)) = None" by (auto simp: gone_def)
  with g(1,3) show "writeProblem b w = None" by (simp add: gone_def writeProblem_def)
qed

lemma selected_sets:
  assumes "distinct keys" "doable cfg accepts S"
  shows "distinct (map dsKey (selected sel keys S))"
    and "s \<in> set (selected sel keys S) \<longleftrightarrow> dsKey s \<in> set keys \<and> sel (krr (dsKey s)) \<and> S (dsKey s) = Some s"
proof -
  have k: "S k = Some s \<Longrightarrow> dsKey s = k" for k s using doableD(1) [OF assms(2)] .
  have "s \<in> set (selected sel keys S) \<longleftrightarrow> (\<exists>x \<in> set keys. sel (krr x) \<and> S x = Some s)"
    by (induction keys) (auto simp: selected_def List.map_filter_simps split: option.splits)
  then show "s \<in> set (selected sel keys S) \<longleftrightarrow> dsKey s \<in> set keys \<and> sel (krr (dsKey s)) \<and> S (dsKey s) = Some s"
    using k by metis
  have "map dsKey (selected sel keys S) = filter (\<lambda>k. sel (krr k) \<and> S k \<noteq> None) keys"
    by (induction keys) (auto simp: selected_def List.map_filter_simps dest: k split: option.splits)
  with assms(1) show "distinct (map dsKey (selected sel keys S))" by simp
qed

context obedient
begin

lemma verifyPhase_fine:
  assumes on: "onCourse saved_in holds S n run"
    and fine: "\<And>b. (\<lambda>u. map_option core (b u)) = saved_in (world (arP run)) \<Longrightarrow> \<forall>w \<in> set (writes run). writeProblem b w = None"
  obtains run' where "verifyPhase c ctx run = (0, run')" "onCourse saved_in holds S n run'" "writes run' = []"
    "saved_in (world (arP run')) = saved_in (world (arP run))"
proof (cases "writes run = []")
  case True
  with on show thesis by (intro that [of "run\<lparr>writes := []\<rparr>"]) (simp_all add: verifyPhase_def takeWrites_def onCourse_def)
next
  case False
  have "holds n (world (arP run))" using on by (simp add: onCourse_def)
  from read [OF this] obtain rs t w' where r: "cSnapshot c ctx (world (arP run)) = (Inr (buildSnapshot rs t), w')" "distinct (uuids rs)"
    "(\<lambda>u. map_option core (map_of (map (\<lambda>r. (UUID (cols r), r)) rs) u)) = saved_in (world (arP run))"
    "holds n w'" "saved_in w' = saved_in (world (arP run))" by blast
  let ?run = "putWorld w' (run\<lparr>writes := []\<rparr>)"
  have "checkWrites (map_of (rev (map (\<lambda>r. (UUID (cols r), r)) rs))) (writes run) ?run = (0, ?run)"
    using fine [OF r(3)] r(2) by (intro checkWrites_fine) (simp add: map_of_rev_distinct comp_def)
  then have "verifyPhase c ctx run = (0, ?run)" using False r(1) by (simp add: verifyPhase_def takeWrites_def)
  from that [OF this] on r(4,5) show thesis by (auto simp: onCourse_def)
qed

text \<open>What the phases know of a plan: its keys, each filed once, and rows without aliases.\<close>

lemma runPhase_adds:
  assumes on: "onCourse saved_in holds S (n + (\<Sum>s\<leftarrow>selected (phSelects ph) keys S. length (dsTargets s))) run"
    and ok: "doable cfg accepts S" and keys: "distinct keys" and ws: "writes run = []"
    and ph: "phMode ph = modeAddSet" "\<not> gatedOut ph F" and i: "F ! i = 0"
    and ch: "\<forall>k \<in> set keys. tidy one (saved_in (world (arP run))) k"
  obtains run' where "runPhase c cfg ctx keys i ph F run = (Some F, run')" "onCourse saved_in holds S n run'" "writes run' = []"
    "sameBut {k \<in> set keys. phSelects ph (krr k)} (saved_in (world (arP run))) (saved_in (world (arP run')))"
    "\<forall>s k. S k = Some s \<longrightarrow> k \<in> set keys \<longrightarrow> phSelects ph (krr k) \<longrightarrow> covered cfg s (saved_in (world (arP run'))) (set (dsTargets s))"
    "\<forall>k \<in> set keys. tidy one (saved_in (world (arP run'))) k"
proof -
  let ?ss = "selected (phSelects ph) keys S" and ?T = "\<lambda>run. saved_in (world (arP run))"
  note sel = selected_sets [OF keys ok, where sel = "phSelects ph"]
  have start: "onCourse saved_in holds S (n + (\<Sum>s\<leftarrow>?ss. length (dsTargets s))) (startPhase run)"
    using on by (simp add: onCourse_def startPhase_def)
  have st: "?T (startPhase run) = ?T run" "writes (startPhase run) = []" using ws by (simp_all add: startPhase_def)
  have pre: "\<forall>s \<in> set ?ss. S (dsKey s) = Some s \<and> tidy one (?T run) (dsKey s)" using sel(2) ch by blast
  have pl: "placed cfg S (?T (startPhase run)) (writes (startPhase run))" by (simp add: st placed_def)
  obtain r1 where r1: "forEach (convergeKey c cfg (CtxGroup ctx) modeAddSet) ?ss (startPhase run) = (Done, r1)"
    "onCourse saved_in holds S n r1" "placed cfg S (?T r1) (writes r1)" "sameBut (dsKey ` set ?ss) (?T run) (?T r1)"
    "\<forall>s \<in> set ?ss. covered cfg s (?T r1) (set (dsTargets s)) \<and> tidy one (?T r1) (dsKey s)"
    using add_keys [OF start ok pre [folded st(1)] pl sel(1)] unfolding st(1) by blast
  obtain r2 where r2: "verifyPhase c ctx r1 = (0, r2)" "onCourse saved_in holds S n r2" "writes r2 = []" "?T r2 = ?T r1"
    using verifyPhase_fine [OF r1(2)] placed_fine [OF r1(3)] by metis
  have "arSets run = S" "phaseFailed r1 = 0" "F[i := 0] = F"
    using on r1(2) i list_update_id [of F i] by (simp_all add: onCourse_def)
  with r1(1) r2(1) ph have run: "runPhase c cfg ctx keys i ph F run = (Some F, r2)"
    by (simp add: runPhase_def gatedOut_def Let_def)
  have "dsKey ` set ?ss \<subseteq> {k \<in> set keys. phSelects ph (krr k)}" using sel(2) by auto
  with r1(4) have sb: "sameBut {k \<in> set keys. phSelects ph (krr k)} (?T run) (?T r2)"
    unfolding r2(4) by (rule sameBut_mono)
  have "tidy one (?T r2) k" if "k \<in> set keys" for k
  proof (cases "k \<in> dsKey ` set ?ss")
    case True
    with r1(5) r2(4) show ?thesis by auto
  next
    case False
    with ch that sameBut_filed [OF r1(4)] r2(4) show ?thesis by (simp add: tidy_def)
  qed
  moreover have "covered cfg s (?T r2) (set (dsTargets s))" if "S k = Some s" "k \<in> set keys" "phSelects ph (krr k)" for s k
  proof -
    have "s \<in> set ?ss" using that doableD(1) [OF ok that(1)] by (simp add: sel(2))
    with r1(5) r2(4) show ?thesis by simp
  qed
  ultimately show thesis by (intro that [OF run r2(2,3) sb]) simp_all
qed

lemma runPhase_removes:
  assumes on: "onCourse saved_in holds S n run"
    and ok: "doable cfg accepts S" and keys: "distinct keys" and ws: "writes run = []"
    and ph: "phMode ph = modeRemove" "\<not> gatedOut ph F" and i: "F ! i = 0"
    and ch: "\<forall>k \<in> set keys. tidy one (saved_in (world (arP run))) k"
    and cov: "\<forall>s k. S k = Some s \<longrightarrow> k \<in> set keys \<longrightarrow> phSelects ph (krr k) \<longrightarrow> covered cfg s (saved_in (world (arP run))) (set (dsTargets s))"
  obtains run' where "runPhase c cfg ctx keys i ph F run = (Some F, run')" "onCourse saved_in holds S n run'" "writes run' = []"
    "sameBut {k \<in> set keys. phSelects ph (krr k)} (saved_in (world (arP run))) (saved_in (world (arP run')))"
    "\<forall>s k. S k = Some s \<longrightarrow> k \<in> set keys \<longrightarrow> phSelects ph (krr k) \<longrightarrow> covered cfg s (saved_in (world (arP run'))) (set (dsTargets s)) \<and>
       bareTarget ` filed (saved_in (world (arP run'))) k \<subseteq> set (dsTargets s)"
    "\<forall>k \<in> set keys. tidy one (saved_in (world (arP run'))) k"
proof -
  let ?ss = "selected (phSelects ph) keys S" and ?T = "\<lambda>run. saved_in (world (arP run))"
  note sel = selected_sets [OF keys ok, where sel = "phSelects ph"]
  have start: "onCourse saved_in holds S n (startPhase run)" using on by (simp add: onCourse_def startPhase_def)
  have st: "?T (startPhase run) = ?T run" "writes (startPhase run) = []" using ws by (simp_all add: startPhase_def)
  have pre: "\<forall>s \<in> set ?ss. S (dsKey s) = Some s \<and> tidy one (?T run) (dsKey s) \<and> covered cfg s (?T run) (set (dsTargets s))"
    using sel(2) ch cov by blast
  have gn: "gone (?T (startPhase run)) (writes (startPhase run))" by (simp add: st gone_def)
  obtain r1 where r1: "forEach (convergeKey c cfg (CtxGroup ctx) modeRemove) ?ss (startPhase run) = (Done, r1)"
    "onCourse saved_in holds S n r1" "gone (?T r1) (writes r1)" "sameBut (dsKey ` set ?ss) (?T run) (?T r1)"
    "\<forall>s \<in> set ?ss. covered cfg s (?T r1) (set (dsTargets s)) \<and> bareTarget ` filed (?T r1) (dsKey s) \<subseteq> set (dsTargets s) \<and>
       tidy one (?T r1) (dsKey s)"
    using remove_keys [OF start ok pre [folded st(1)] gn sel(1)] unfolding st(1) by blast
  obtain r2 where r2: "verifyPhase c ctx r1 = (0, r2)" "onCourse saved_in holds S n r2" "writes r2 = []" "?T r2 = ?T r1"
    using verifyPhase_fine [OF r1(2)] gone_fine [OF r1(3)] by metis
  have "arSets run = S" "phaseFailed r1 = 0" "F[i := 0] = F"
    using on r1(2) i list_update_id [of F i] by (simp_all add: onCourse_def)
  with r1(1) r2(1) ph have run: "runPhase c cfg ctx keys i ph F run = (Some F, r2)"
    by (simp add: runPhase_def gatedOut_def Let_def)
  have "dsKey ` set ?ss \<subseteq> {k \<in> set keys. phSelects ph (krr k)}" using sel(2) by auto
  with r1(4) have sb: "sameBut {k \<in> set keys. phSelects ph (krr k)} (?T run) (?T r2)"
    unfolding r2(4) by (rule sameBut_mono)
  have tidied: "tidy one (?T r2) k" if "k \<in> set keys" for k
  proof (cases "k \<in> dsKey ` set ?ss")
    case True
    with r1(5) r2(4) show ?thesis by auto
  next
    case False
    with ch that sameBut_filed [OF r1(4)] r2(4) show ?thesis by (simp add: tidy_def)
  qed
  have "covered cfg s (?T r2) (set (dsTargets s)) \<and> bareTarget ` filed (?T r2) k \<subseteq> set (dsTargets s)"
    if "S k = Some s" "k \<in> set keys" "phSelects ph (krr k)" for s k
  proof -
    have k: "dsKey s = k" using doableD(1) [OF ok that(1)] .
    with that have "s \<in> set ?ss" by (simp add: sel(2))
    with r1(5) r2(4) k show ?thesis by auto
  qed
  then show thesis by (intro that [OF run r2(2,3) sb]) (simp_all add: tidied)
qed

lemma covered_frame: "sameBut K T T' \<Longrightarrow> dsKey s \<notin> K \<Longrightarrow> covered cfg s T' D = covered cfg s T D"
  by (simp add: covered_def sameBut_filed)

lemma runPhases_obeyed:
  assumes on: "onCourse saved_in holds S (\<Sum>sel\<leftarrow>[isTXT, isData]. \<Sum>s\<leftarrow>selected sel keys S. length (dsTargets s)) run"
    and ok: "doable cfg accepts S" and keys: "distinct keys" and ws: "writes run = []"
    and ch: "\<forall>k \<in> set keys. tidy one (saved_in (world (arP run))) k"
  obtains run' where "runPhases c cfg ctx keys 0 applyPhases [0, 0, 0, 0] run = (Some [0, 0, 0, 0], run')"
    "onCourse saved_in holds S 0 run'" "sameBut (set keys) (saved_in (world (arP run))) (saved_in (world (arP run')))"
    "\<forall>s k. S k = Some s \<longrightarrow> k \<in> set keys \<longrightarrow> covered cfg s (saved_in (world (arP run'))) (set (dsTargets s)) \<and>
       bareTarget ` filed (saved_in (world (arP run'))) k \<subseteq> set (dsTargets s)"
    "\<forall>k \<in> set keys. tidy one (saved_in (world (arP run'))) k"
proof -
  let ?T = "\<lambda>run. saved_in (world (arP run))" and ?N = "\<lambda>sel. \<Sum>s\<leftarrow>selected sel keys S. length (dsTargets s)"
  let ?K = "\<lambda>sel. {k \<in> set keys. sel (krr k)}"
  define ph where "ph i = applyPhases ! i" for i
  have phs: "phSelects (ph 0) = isTXT" "phSelects (ph (Suc 0)) = isData" "phSelects (ph 2) = isData" "phSelects (ph 3) = isTXT"
    "phMode (ph 0) = modeAddSet" "phMode (ph (Suc 0)) = modeAddSet" "phMode (ph 2) = modeRemove" "phMode (ph 3) = modeRemove"
    "\<not> gatedOut (ph 0) [0, 0, 0, 0]" "\<not> gatedOut (ph (Suc 0)) [0, 0, 0, 0]" "\<not> gatedOut (ph 2) [0, 0, 0, 0]"
    "\<not> gatedOut (ph 3) [0, 0, 0, 0]"
    by (simp_all add: ph_def applyPhases_def gatedOut_def phase_indices)
  have list: "applyPhases = [ph 0, ph (Suc 0), ph 2, ph 3]" by (simp add: ph_def applyPhases_def)
  have isd: "isData rr \<longleftrightarrow> \<not> isTXT rr" for rr by (simp add: isTXT_def isData_def)
  from on have on0: "onCourse saved_in holds S (?N isData + (\<Sum>s\<leftarrow>selected (phSelects (ph 0)) keys S. length (dsTargets s))) run"
    by (simp add: phs add.commute)
  obtain r1 where r1: "runPhase c cfg ctx keys 0 (ph 0) [0, 0, 0, 0] run = (Some [0, 0, 0, 0], r1)"
    "onCourse saved_in holds S (?N isData) r1" "writes r1 = []" "sameBut (?K isTXT) (?T run) (?T r1)"
    "\<forall>s k. S k = Some s \<longrightarrow> k \<in> set keys \<longrightarrow> isTXT (krr k) \<longrightarrow> covered cfg s (?T r1) (set (dsTargets s))"
    "\<forall>k \<in> set keys. tidy one (?T r1) k"
    by (rule runPhase_adds [where F = "[0, 0, 0, 0]" and i = 0 and ctx = ctx, OF on0 ok keys ws _ _ _ ch]) (simp_all add: phs)
  from r1(2) have on1: "onCourse saved_in holds S (0 + (\<Sum>s\<leftarrow>selected (phSelects (ph (Suc 0))) keys S. length (dsTargets s))) r1"
    by (simp add: phs)
  obtain r2 where r2: "runPhase c cfg ctx keys (Suc 0) (ph (Suc 0)) [0, 0, 0, 0] r1 = (Some [0, 0, 0, 0], r2)"
    "onCourse saved_in holds S 0 r2" "writes r2 = []" "sameBut (?K isData) (?T r1) (?T r2)"
    "\<forall>s k. S k = Some s \<longrightarrow> k \<in> set keys \<longrightarrow> isData (krr k) \<longrightarrow> covered cfg s (?T r2) (set (dsTargets s))"
    "\<forall>k \<in> set keys. tidy one (?T r2) k"
    by (rule runPhase_adds [where F = "[0, 0, 0, 0]" and i = "Suc 0" and ctx = ctx, OF on1 ok keys r1(3) _ _ _ r1(6)]) (simp_all add: phs)
  obtain r3 where r3: "runPhase c cfg ctx keys 2 (ph 2) [0, 0, 0, 0] r2 = (Some [0, 0, 0, 0], r3)"
    "onCourse saved_in holds S 0 r3" "writes r3 = []" "sameBut (?K isData) (?T r2) (?T r3)"
    "\<forall>s k. S k = Some s \<longrightarrow> k \<in> set keys \<longrightarrow> isData (krr k) \<longrightarrow> covered cfg s (?T r3) (set (dsTargets s)) \<and>
       bareTarget ` filed (?T r3) k \<subseteq> set (dsTargets s)"
    "\<forall>k \<in> set keys. tidy one (?T r3) k"
    by (rule runPhase_removes [where F = "[0, 0, 0, 0]" and i = 2 and ctx = ctx and ph = "ph 2", OF r2(2) ok keys r2(3) _ _ _ r2(6)])
      (use r2(5) in \<open>simp_all add: phs\<close>)
  have "covered cfg s (?T r3) (set (dsTargets s))" if "S k = Some s" "k \<in> set keys" "isTXT (krr k)" for s k
  proof -
    have k: "dsKey s = k" using doableD(1) [OF ok that(1)] .
    with that isd have "covered cfg s (?T r3) (set (dsTargets s)) = covered cfg s (?T r1) (set (dsTargets s))"
      using covered_frame [OF r3(4), of s] covered_frame [OF r2(4), of s] by simp
    with r1(5) that show ?thesis by blast
  qed
  then have kept: "\<forall>s k. S k = Some s \<longrightarrow> k \<in> set keys \<longrightarrow> isTXT (krr k) \<longrightarrow> covered cfg s (?T r3) (set (dsTargets s))"
    by blast
  obtain r4 where r4: "runPhase c cfg ctx keys 3 (ph 3) [0, 0, 0, 0] r3 = (Some [0, 0, 0, 0], r4)"
    "onCourse saved_in holds S 0 r4" "sameBut (?K isTXT) (?T r3) (?T r4)"
    "\<forall>s k. S k = Some s \<longrightarrow> k \<in> set keys \<longrightarrow> isTXT (krr k) \<longrightarrow> covered cfg s (?T r4) (set (dsTargets s)) \<and>
       bareTarget ` filed (?T r4) k \<subseteq> set (dsTargets s)"
    "\<forall>k \<in> set keys. tidy one (?T r4) k"
    by (rule runPhase_removes [where F = "[0, 0, 0, 0]" and i = 3 and ctx = ctx and ph = "ph 3", OF r3(2) ok keys r3(3) _ _ _ r3(6)])
      (use kept in \<open>simp_all add: phs\<close>)
  have run: "runPhases c cfg ctx keys 0 applyPhases [0, 0, 0, 0] run = (Some [0, 0, 0, 0], r4)"
    using r1(1) r2(1) r3(1) r4(1) by (simp add: list numeral_eq_Suc)
  have sb: "sameBut (set keys) (?T run) (?T r4)"
  proof -
    have m: "sameBut (?K sel) T T' \<Longrightarrow> sameBut (set keys) T T'" for sel T T' by (erule sameBut_mono) auto
    show ?thesis
      using sameBut_trans [OF m [OF r1(4)] sameBut_trans [OF m [OF r2(4)] sameBut_trans [OF m [OF r3(4)] m [OF r4(3)]]]] .
  qed
  have "covered cfg s (?T r4) (set (dsTargets s)) \<and> bareTarget ` filed (?T r4) k \<subseteq> set (dsTargets s)"
    if "S k = Some s" "k \<in> set keys" for s k
  proof (cases "isTXT (krr k)")
    case True
    with that r4(4) show ?thesis by blast
  next
    case False
    have k: "dsKey s = k" using doableD(1) [OF ok that(1)] .
    with False have "covered cfg s (?T r4) (set (dsTargets s)) = covered cfg s (?T r3) (set (dsTargets s))"
      "filed (?T r4) k = filed (?T r3) k"
      using k by (simp_all add: covered_frame [OF r4(3)] sameBut_filed [OF r4(3)])
    with r3(5) that False isd show ?thesis by auto
  qed
  then show thesis by (intro that [OF run r4(2) sb _ r4(5)]) blast
qed

end

section \<open>The whole apply\<close>

text \<open>A rejected key always comes with an error.\<close>

lemma define_ep_errs:
  "fsErrs (define_ep cfg b e st) = [] \<Longrightarrow> fsErrs st = [] \<and> fsRejected (define_ep cfg b e st) = fsRejected st"
  by (auto simp: define_ep_def Let_def foldErr_def split: sum.splits prod.splits targetError.splits option.splits if_splits)

lemma fold_define_errs:
  "fsErrs (fold (define_ep cfg b) es st) = [] \<Longrightarrow> fsErrs st = [] \<and> fsRejected (fold (define_ep cfg b) es st) = fsRejected st"
  by (induction es arbitrary: st) (auto dest: define_ep_errs)

lemma foldChanges_rejected: "fsErrs (foldChanges cfg ch m) = [] \<Longrightarrow> fsRejected (foldChanges cfg ch m) = []"
  unfolding foldChanges_def by (auto dest!: fold_define_errs)

lemma mirrors_buildSnapshot:
  assumes "distinct (uuids rs)"
    and T: "(\<lambda>u. map_option core (map_of (map (\<lambda>r. (UUID (cols r), r)) rs) u)) = T"
  shows "mirrors (buildSnapshot rs t) T"
proof -
  let ?m = "map (\<lambda>r. (UUID (cols r), r)) rs"
  have d: "distinct (map fst ?m)" using assms(1) by (simp add: comp_def)
  have row: "T (UUID (cols r)) = Some r \<longleftrightarrow> r \<in> core ` set rs" for r
  proof
    assume "T (UUID (cols r)) = Some r"
    then obtain r0 where "map_of ?m (UUID (cols r)) = Some r0" "core r0 = r" using T [THEN fun_cong, of "UUID (cols r)"] by auto
    then show "r \<in> core ` set rs" by (auto dest!: map_of_SomeD)
  next
    assume "r \<in> core ` set rs"
    then obtain r0 where r0: "r0 \<in> set rs" "r = core r0" by auto
    then have "(UUID (cols r), r0) \<in> set ?m" by (auto simp: image_iff)
    with d have "map_of ?m (UUID (cols r)) = Some r0" by (metis map_of_is_SomeI)
    with r0 T [THEN fun_cong, of "UUID (cols r)"] show "T (UUID (cols r)) = Some r" by simp
  qed
  have "core ` set (snapView (buildSnapshot rs t) k) = filed T k" for k
    by (auto simp: snapView_buildSnapshot filed_def row)
  moreover have "distinct (uuids (snapView (buildSnapshot rs t) k))" for k
    using assms(1) by (auto simp: snapView_buildSnapshot distinct_map intro: inj_on_subset)
  ultimately show ?thesis by (simp add: mirrors_def snapOk_buildSnapshot)
qed

text \<open>The table holds exactly the targets of a set, each as the plan writes it.\<close>

definition achieved :: "config \<Rightarrow> desiredSet \<Rightarrow> saved \<Rightarrow> bool" where
  "achieved cfg s T \<longleftrightarrow> bareTarget ` filed T (dsKey s) = set (dsTargets s) \<and> covered cfg s T (set (dsTargets s))"

lemma sum_selected:
  assumes "distinct keys" "doable cfg accepts (map_of ss)" "distinct (map fst ss)"
  shows "(\<Sum>sel\<leftarrow>[isTXT, isData]. \<Sum>s\<leftarrow>selected sel keys (map_of ss). length (dsTargets s)) \<le> (\<Sum>(k, s)\<leftarrow>ss. length (dsTargets s))"
proof -
  let ?S = "map_of ss" and ?f = "\<lambda>s. length (dsTargets s)"
  let ?sel = "\<lambda>sel. selected sel keys ?S"
  note sel = selected_sets [OF assms(1,2)]
  have key: "(k, s) \<in> set ss \<Longrightarrow> dsKey s = k" for k s
    using doableD(1) [OF assms(2)] assms(3) by (simp add: map_of_eq_Some_iff)
  have "distinct (?sel sel)" for sel using sel(1) [of sel] by (simp add: distinct_map)
  then have "(\<Sum>s\<leftarrow>?sel sel. ?f s) = sum ?f (set (?sel sel))" for sel by (rule sum_list_distinct_conv_sum_set)
  then have "(\<Sum>sel\<leftarrow>[isTXT, isData]. \<Sum>s\<leftarrow>?sel sel. ?f s) = sum ?f (set (?sel isTXT)) + sum ?f (set (?sel isData))" by simp
  also have "\<dots> = sum ?f (set (?sel isTXT) \<union> set (?sel isData))"
    by (intro sum.union_disjoint [symmetric]) (auto simp: sel(2) isTXT_def isData_def)
  also have "\<dots> \<le> sum ?f (snd ` set ss)"
    by (intro sum_mono2) (force simp: sel(2) dest!: map_of_SomeD)+
  also have "\<dots> = (\<Sum>x \<in> set ss. ?f (snd x))"
  proof (subst sum.reindex)
    show "inj_on snd (set ss)" using key by (intro inj_onI) (metis prod.collapse)
  qed simp
  also have "\<dots> = (\<Sum>(k, s)\<leftarrow>ss. ?f s)"
    using assms(3) by (subst sum_list_distinct_conv_sum_set [symmetric]) (auto simp: distinct_map case_prod_unfold)
  finally show ?thesis .
qed

context obedient
begin

lemma apply_obeyed:
  fixes cfg :: config and ch :: "'m changes" and p :: "'w prov"
  defines "st \<equiv> foldChanges cfg ch (pmets p)"
  assumes h: "holds (\<Sum>(k, s)\<leftarrow>fsSets st. length (dsTargets s)) (world p)" and errs: "fsErrs st = []"
    and ok: "doable cfg accepts (map_of (fsSets st))" and sh: "\<And>ks. mset (shuffle ks) = mset ks"
    and ch: "\<forall>k \<in> fst ` set (fsSets st). tidy one (saved_in (world p)) k"
  shows "\<exists>p'. apply_plan c cfg shuffle ctx ch p = (Done, p') \<and> \<not> pending p' \<and> holds 0 (world p') \<and>
    sameBut (fst ` set (fsSets st)) (saved_in (world p)) (saved_in (world p')) \<and>
    (\<forall>(k, s) \<in> set (fsSets st). achieved cfg s (saved_in (world p')) \<and> tidy one (saved_in (world p')) k)"
proof -
  let ?S = "map_of (fsSets st)" and ?keys = "planKeys shuffle st"
  have d: "distinct (map fst (fsSets st))" using foldChanges_ok [of cfg ch "pmets p"] by (simp add: st_def foldOk_def)
  then have keys: "distinct ?keys" "set ?keys = fst ` set (fsSets st)"
    using mset_eq_imp_distinct_iff [OF sh, of "map fst (fsSets st)"] mset_eq_setD [OF sh, of "map fst (fsSets st)"]
    by (simp_all add: planKeys_def)
  obtain rs t w where r: "cSnapshot c ctx (world p) = (Inr (buildSnapshot rs t), w)" "distinct (uuids rs)"
    "(\<lambda>u. map_option core (map_of (map (\<lambda>r. (UUID (cols r), r)) rs) u)) = saved_in (world p)"
    "holds (\<Sum>(k, s)\<leftarrow>fsSets st. length (dsTargets s)) w" "saved_in w = saved_in (world p)"
    using read [OF h] by blast
  let ?run = "beginRun (buildSnapshot rs t) st (p\<lparr>world := w\<rparr>)"
  have on: "onCourse saved_in holds ?S (\<Sum>sel\<leftarrow>[isTXT, isData]. \<Sum>s\<leftarrow>selected sel ?keys ?S. length (dsTargets s)) ?run"
    unfolding onCourse_def
    using room [OF r(4) sum_selected [OF keys(1) ok d]] mirrors_buildSnapshot [OF r(2,3)] errs r(5)
    by (simp add: beginRun_def)
  have ch': "\<forall>k \<in> set ?keys. tidy one (saved_in (world (arP ?run))) k"
    using ch r(5) keys(2) by (simp add: beginRun_def)
  obtain r4 where r4: "runPhases c cfg ctx ?keys 0 applyPhases [0, 0, 0, 0] ?run = (Some [0, 0, 0, 0], r4)"
    "onCourse saved_in holds ?S 0 r4" "sameBut (set ?keys) (saved_in (world (arP ?run))) (saved_in (world (arP r4)))"
    "\<forall>s k. ?S k = Some s \<longrightarrow> k \<in> set ?keys \<longrightarrow> covered cfg s (saved_in (world (arP r4))) (set (dsTargets s)) \<and>
       bareTarget ` filed (saved_in (world (arP r4))) k \<subseteq> set (dsTargets s)"
    "\<forall>k \<in> set ?keys. tidy one (saved_in (world (arP r4))) k"
    by (rule runPhases_obeyed [OF on ok keys(1) _ ch']) (simp_all add: beginRun_def)
  have "holds 0 (world (arP r4))" using r4(2) by (simp add: onCourse_def)
  from reload [OF this] obtain w' where w': "cReconfigure c (CtxWithTimeout CtxBackground (cReconfigureTimeout cfg)) (world (arP r4)) = (None, w')"
    "holds 0 w'" "saved_in w' = saved_in (world (arP r4))" by blast
  have f: "\<exists>p'. finishApply c cfg r4 = (None, p') \<and> \<not> pending p' \<and> holds 0 (world p') \<and> saved_in (world p') = saved_in (world (arP r4))"
    using w' r4(2) by (auto simp: finishApply_def reconfigure_def Let_def onCourse_def joinErrors_def)
  have "achieved cfg s (saved_in (world (arP r4))) \<and> tidy one (saved_in (world (arP r4))) k" if "(k, s) \<in> set (fsSets st)" for k s
  proof -
    have k: "?S k = Some s" "k \<in> set ?keys" using that d keys(2) by force+
    with r4(4,5) doableD(1) [OF ok k(1)] show ?thesis by (fastforce simp: achieved_def covered_def)
  qed
  moreover have "apply_plan c cfg shuffle ctx ch p = (case finishApply c cfg r4 of (None, p) \<Rightarrow> (Done, p) | (Some e, p) \<Rightarrow> (Fail e, p))"
    using r(1) r4(1) foldChanges_rejected [OF errs [unfolded st_def]]
    by (simp add: apply_plan_def Let_def st_def)
  ultimately show ?thesis using f r4(3) keys(2) r(5) by (auto simp: beginRun_def)
qed

end

section \<open>The same plan again\<close>

lemma mirrored_satisfied:
  assumes m: "mirrors sn T" and a: "achieved cfg s T" and t: "tidy True T (dsKey s)"
  shows "satisfied cfg s (snapView sn (dsKey s))"
  unfolding satisfied_def
proof (intro conjI ballI)
  let ?V = "set (snapView sn (dsKey s))"
  have v: "core ` ?V = filed T (dsKey s)" using m by (simp add: mirrors_def)
  have "bareTarget ` ?V = bareTarget ` core ` ?V" by (simp add: image_image)
  then show im: "bareTarget ` ?V = set (dsTargets s)" using a v by (simp add: achieved_def)
  fix r assume r: "r \<in> ?V"
  then have "bareTarget r \<in> set (dsTargets s)" using im by blast
  with a obtain r' where r': "r' \<in> filed T (dsKey s)" "bareTarget r' = bareTarget r" "inLine cfg s (bareTarget r) r'"
    by (auto simp: achieved_def covered_def)
  have "core r \<in> filed T (dsKey s)" using r v by blast
  moreover have "bareTarget r' = bareTarget (core r)" using r'(2) by simp
  moreover have "inj_on bareTarget (filed T (dsKey s))" using t by (simp add: tidy_def)
  ultimately have "r' = core r" using r'(1) by (simp only: inj_on_eq_iff)
  with r'(3) show "inLine cfg s (bareTarget r) r" by simp
qed

text \<open>What the fold makes of a plan does not depend on the metrics it counts in.\<close>

lemma define_ep_mets:
  "(define_ep cfg b e (st\<lparr>fsMets := m\<rparr>))\<lparr>fsMets := x\<rparr> = (define_ep cfg b e st)\<lparr>fsMets := x\<rparr>"
  by (simp add: define_ep_def Let_def foldErr_def split: sum.splits prod.splits targetError.splits option.splits)

lemma fold_define_mets:
  "(fold (define_ep cfg b) es (st\<lparr>fsMets := m\<rparr>))\<lparr>fsMets := x\<rparr> = (fold (define_ep cfg b) es st)\<lparr>fsMets := x\<rparr>"
proof (induction es arbitrary: st m)
  case (Cons e es)
  have "(fold (define_ep cfg b) es (define_ep cfg b e (st\<lparr>fsMets := m\<rparr>)))\<lparr>fsMets := x\<rparr> =
      (fold (define_ep cfg b) es ((define_ep cfg b e (st\<lparr>fsMets := m\<rparr>))\<lparr>fsMets := x\<rparr>))\<lparr>fsMets := x\<rparr>"
    by (rule Cons.IH [symmetric])
  also have "\<dots> = (fold (define_ep cfg b) es (define_ep cfg b e st))\<lparr>fsMets := x\<rparr>"
    unfolding define_ep_mets by (rule Cons.IH)
  finally show ?case by simp
qed simp

lemma foldChanges_mets:
  "fsSets (foldChanges cfg ch m) = fsSets (foldChanges cfg ch m')" "fsErrs (foldChanges cfg ch m) = fsErrs (foldChanges cfg ch m')"
proof -
  let ?st = "\<lambda>m. \<lparr>fsSets = [], fsConflicted = [], fsRejected = [], fsErrs = [], fsMets = m\<rparr>"
  let ?F = "\<lambda>b. fold (define_ep cfg b)"
  have "(foldChanges cfg ch m)\<lparr>fsMets := m\<rparr> = (foldChanges cfg ch m')\<lparr>fsMets := m\<rparr>"
  proof -
    have "(?F False (UpdateNew ch) (?F False (Create ch) (?F True (Delete ch) (?st m))))\<lparr>fsMets := m\<rparr> =
        (?F False (UpdateNew ch) ((?F False (Create ch) (?F True (Delete ch) (?st m)))\<lparr>fsMets := m\<rparr>))\<lparr>fsMets := m\<rparr>"
      by (rule fold_define_mets [symmetric])
    also have "(?F False (Create ch) (?F True (Delete ch) (?st m)))\<lparr>fsMets := m\<rparr> =
        (?F False (Create ch) ((?F True (Delete ch) (?st m))\<lparr>fsMets := m\<rparr>))\<lparr>fsMets := m\<rparr>"
      by (rule fold_define_mets [symmetric])
    also have "(?F True (Delete ch) (?st m))\<lparr>fsMets := m\<rparr> = (?F True (Delete ch) (?st m'))\<lparr>fsMets := m\<rparr>"
      using fold_define_mets [where st = "?st m'" and m = m and x = m] by simp
    also have "(?F False (Create ch) \<dots>)\<lparr>fsMets := m\<rparr> = (?F False (Create ch) (?F True (Delete ch) (?st m')))\<lparr>fsMets := m\<rparr>"
      by (rule fold_define_mets)
    also have "(?F False (UpdateNew ch) \<dots>)\<lparr>fsMets := m\<rparr> =
        (?F False (UpdateNew ch) (?F False (Create ch) (?F True (Delete ch) (?st m'))))\<lparr>fsMets := m\<rparr>"
      by (rule fold_define_mets)
    finally show ?thesis unfolding foldChanges_def .
  qed
  from arg_cong [OF this, of fsSets] arg_cong [OF this, of fsErrs]
  show "fsSets (foldChanges cfg ch m) = fsSets (foldChanges cfg ch m')" "fsErrs (foldChanges cfg ch m) = fsErrs (foldChanges cfg ch m')"
    by simp_all
qed

end
