(* ===== verification/Fake_Writes.thy ===== *)
theory Fake_Writes
  imports Fake_Reads Convergence
begin

text \<open>
  The writes of the client against the repository's in-memory firewall.  With no fault armed, the fake
  keeps the contract \<open>obedient\<close>: a create, an update, a delete and a reload do what they answer.
\<close>

section \<open>A call the fake answers\<close>

lemma fake_call:
  assumes h: "\<And>q. qMethod q = method \<Longrightarrow> qURL q = path \<Longrightarrow> qBody q = body \<Longrightarrow>
      Handler newUUID q (nw s) = (writeJSON j, fs)"
    and len: "int (length (Encode j)) + 1 \<le> maxBytes" and d: "dest j = Some x"
  obtains s' where "doCall (fakeNet (cHost cfg) newUUID) cfg ctx op method path body dest maxBytes s = (Inr x, s')"
    "nw s' = fs"
proof -
  let ?net = "fakeNet (cHost cfg) newUUID" and ?size = "int (length (Encode j)) + 1"
  have o: "once ?net cfg ctx op method path body s = (Response (writeJSON j), s\<lparr>nw := fs\<rparr>)"
    by (simp add: once_def Let_def fakeNet_def h)
  have b: "decodeBody (writeJSON j) op dest maxBytes = (?size, Inr x)"
    using len d by (simp add: decodeBody_def writeJSON_def Let_def add.commute del: Encode.simps)
  have "200 \<le> rStatus (writeJSON j)" "rStatus (writeJSON j) < 300" by (simp_all add: writeJSON_def Let_def)
  then have "doLoop ?net cfg ctx op method path body dest maxBytes left 0 s = ((?size, Inr x), s\<lparr>nw := fs\<rparr>)" for left
    by (subst doLoop.simps) (simp add: o b succeeded_def)
  then show thesis by (intro that [of "count (RecordAPICall op ?size False) (s\<lparr>nw := fs\<rparr>)"])
    (simp_all add: doCall_def isInl_def)
qed

section \<open>The rows\<close>

lemma findRow_map_of: "map_of (map (\<lambda>r. (frUUID r, g r)) rs) u = map_option g (findRow u rs)"
  by (induction rs) auto

lemma findRow_Some: "findRow u rs = Some r \<Longrightarrow> r \<in> set rs \<and> frUUID r = u"
  by (induction rs) (auto split: if_splits)

lemma findRow_None: "findRow u rs = None \<longleftrightarrow> u \<notin> frUUID ` set rs"
  by (induction rs) auto

lemma findRow_append: "findRow u (rs @ [r]) = (case findRow u rs of None \<Rightarrow> if frUUID r = u then Some r else None | x \<Rightarrow> x)"
  by (induction rs) auto

lemma findRow_updateFirst:
  "findRow u rs \<noteq> None \<Longrightarrow> frUUID r = u \<Longrightarrow> findRow v (updateFirst u r rs) = (if v = u then Some r else findRow v rs)"
  by (induction rs) auto

lemma findRow_removeFirst:
  "distinct (map frUUID rs) \<Longrightarrow> findRow v (removeFirst u rs) = (if v = u then None else findRow v rs)"
  by (induction rs) (auto simp: findRow_None)

lemma uuids_updateFirst: "frUUID r = u \<Longrightarrow> map frUUID (updateFirst u r rs) = map frUUID rs"
  by (induction rs) auto

lemma set_removeFirst: "set (removeFirst u rs) \<subseteq> set rs"
  by (induction rs) auto

lemma distinct_removeFirst: "distinct (map frUUID rs) \<Longrightarrow> distinct (map frUUID (removeFirst u rs))"
  by (induction rs) (use set_removeFirst in \<open>auto simp: image_iff\<close>)

lemma length_removeFirst: "length (removeFirst u rs) \<le> length rs"
  by (induction rs) auto

text \<open>The saved table of the fake.\<close>

definition fakeSaved :: "fakeServer cworld \<Rightarrow> saved" where
  "fakeSaved w u = map_option (\<lambda>r. core (rowOf (fsAliases (nw w)) r)) (findRow u (fsRows (nw w)))"

lemma fakeTable_saved:
  assumes "distinct (map frUUID (fsRows (nw w)))"
  shows "(\<lambda>u. map_option core (map_of (map (\<lambda>r. (UUID (cols r), r)) (fakeTable (nw w))) u)) = fakeSaved w"
proof
  fix u
  let ?al = "fsAliases (nw w)" and ?rs = "fsRows (nw w)"
  let ?f = "\<lambda>r. (frUUID r, rowOf ?al r)"
  have "map (\<lambda>r. (UUID (cols r), r)) (fakeTable (nw w)) = map ?f (sort_key (searchKey searchFields) ?rs)"
    by (simp add: fakeTable_def)
  moreover have "map_of (map ?f (sort_key (searchKey searchFields) ?rs)) = map_of (map ?f ?rs)"
    using assms by (intro map_of_inject_set [THEN iffD2]) (simp_all add: comp_def distinct_map)
  ultimately show "map_option core (map_of (map (\<lambda>r. (UUID (cols r), r)) (fakeTable (nw w))) u) = fakeSaved w u"
    by (simp add: findRow_map_of fakeSaved_def option.map_comp comp_def)
qed

text \<open>The body of a write as the fake reads it, and the row it writes.\<close>

definition hostPairs :: "hostFields \<Rightarrow> (string \<times> string) list" where
  "hostPairs f =
     [(''enabled'', fEnabled f), (''hostname'', fHostname f), (''domain'', fDomain f), (''rr'', fRR f),
      (''server'', fServer f), (''txtdata'', fTXTData f), (''ttl'', fTTL f), (''addptr'', fAddPTR f),
      (''description'', fDescription f)]"

lemma hostBody_payload: "hostBody (Some (hostPayload f)) = Some (hostPairs f)"
proof -
  have "to_lower ''host'' = ''host''" by code_simp
  then show ?thesis by (simp add: hostPayload_def dec_field_def field_values_Cons hostPairs_def)
qed

definition fakeAccepts :: "hostFields \<Rightarrow> bool" where
  "fakeAccepts f \<longleftrightarrow> fHostname f \<noteq> [] \<and> fDomain f \<noteq> [] \<and> fAddPTR f \<noteq> [] \<and>
     ((fRR f = ''A'' \<or> fRR f = ''AAAA'') \<and> fServer f \<noteq> [] \<or>
      fRR f = ''TXT'' \<and> fTXTData f \<noteq> [] \<and> length (fTXTData f) \<le> 255)"

lemma validations_accepted: "fakeAccepts f \<Longrightarrow> validations (hostPairs f) = []"
  by (auto simp: fakeAccepts_def validations_def at_def hostPairs_def)

text \<open>Whether an alias is on does not depend on the columns of the row it hangs from.\<close>

lemma kids_rowOf:
  "hasEnabledChildren (rowOf al r) \<longleftrightarrow> list_ex (\<lambda>a. faEnabled a \<noteq> ''0'' \<and> faEnabled a \<noteq> []) (filter (\<lambda>a. faHost a = frUUID r) al)"
  by (simp add: hasEnabledChildren_def rowOf_def childrenOf_def list_ex_iff enabledCols_def colsOf_def)

lemma uuid_writtenRow [simp]: "frUUID (writtenRow u h) = u"
  by (simp add: writtenRow_def)

lemma written_created:
  assumes "fAddPTR f \<noteq> []" "fEnabled f = ''1''" and "u \<notin> faHost ` set al"
  shows "core (rowOf al (writtenRow u (hostPairs f))) = createdRow u f"
proof -
  have "filter (\<lambda>a. faHost a = u) al = []" using assms(3) by (auto simp: filter_empty_conv)
  then have "\<not> hasEnabledChildren (rowOf al (writtenRow u (hostPairs f)))" by (simp add: kids_rowOf)
  then show ?thesis
    using assms(1,2)
    by (simp add: core_def rowOf_def colsOf_def writtenRow_def at_def hostPairs_def orDefault_def createdRow_def
        zeroCols_def enabledCols_def)
qed

lemma written_retargeted:
  assumes "fAddPTR f \<noteq> []" "fEnabled f = ''1''" and "frUUID r = u" and on: "enabled (rowOf al r)"
  shows "core (rowOf al (writtenRow u (hostPairs f))) = retargetRow f (core (rowOf al r))"
proof -
  have "hasEnabledChildren (rowOf al (writtenRow u (hostPairs f))) = hasEnabledChildren (rowOf al r)"
    using assms(3) by (simp add: kids_rowOf)
  then show ?thesis
    using assms
    by (simp add: core_def rowOf_def colsOf_def writtenRow_def at_def hostPairs_def orDefault_def retargetRow_def
        enabledCols_def)
qed

lemma rowOf_otherAliases:
  "frUUID r \<noteq> u \<Longrightarrow> core (rowOf (filter (\<lambda>a. faHost a \<noteq> u) al) r) = core (rowOf al r)"
proof -
  assume r: "frUUID r \<noteq> u"
  have "filter (\<lambda>a. faHost a = frUUID r) (filter (\<lambda>a. faHost a \<noteq> u) al) = filter (\<lambda>a. faHost a = frUUID r) al"
    using r by (induction al) auto
  then show ?thesis by (simp add: rowOf_def childrenOf_def)
qed

section \<open>The handlers\<close>

text \<open>No fault is armed, \<open>n\<close> more rows fit, the uuids are distinct path segments and the ones still to come are fresh.\<close>

definition roomy :: "(nat \<Rightarrow> string) \<Rightarrow> nat \<Rightarrow> fakeServer \<Rightarrow> bool" where
  "roomy newUUID n s \<longleftrightarrow> fsFaults s = [] \<and> int (length (fsRows s)) + int n < 2 ^ 62 \<and>
     distinct (map frUUID (fsRows s)) \<and> (\<forall>r \<in> set (fsRows s). CHR ''/'' \<notin> set (frUUID r)) \<and>
     (\<forall>i. fsIssued s \<le> i \<longrightarrow> newUUID i \<notin> frUUID ` set (fsRows s) \<and> newUUID i \<notin> faHost ` set (fsAliases s))"

definition goodUUIDs :: "(nat \<Rightarrow> string) \<Rightarrow> bool" where
  "goodUUIDs newUUID \<longleftrightarrow> inj newUUID \<and> (\<forall>i. newUUID i \<noteq> [] \<and> CHR ''/'' \<notin> set (newUUID i))"

lemma roomy_hit [simp]: "roomy newUUID n (hit op s) = roomy newUUID n s"
  by (simp add: roomy_def hit_def)

lemma hit_sel [simp]:
  "fsRows (hit op s) = fsRows s" "fsAliases (hit op s) = fsAliases s" "fsFaults (hit op s) = fsFaults s"
  "fsIssued (hit op s) = fsIssued s"
  by (simp_all add: hit_def)

lemma lastSegment_path: "CHR ''/'' \<notin> set u \<Longrightarrow> lastSegment (p @ ''/'' @ u) = u"
proof -
  assume u: "CHR ''/'' \<notin> set u"
  then have "takeWhile (\<lambda>c. c \<noteq> CHR ''/'') (rev u @ CHR ''/'' # rev p) = rev u" by (subst takeWhile_append2) auto
  then show ?thesis by (simp add: lastSegment_def)
qed

lemma lastSegment_write [simp]:
  "CHR ''/'' \<notin> set u \<Longrightarrow> lastSegment (pathSet @ u) = u" "CHR ''/'' \<notin> set u \<Longrightarrow> lastSegment (pathDel @ u) = u"
  using lastSegment_path [of u "butlast pathSet"] lastSegment_path [of u "butlast pathDel"] by (simp_all add: pathSet_def pathDel_def)

text \<open>The routes of the writing requests.\<close>

lemma Handler_routes:
  "qURL q = pathAdd \<Longrightarrow> Handler newUUID q s = handleAdd newUUID q s"
  "qURL q = pathSet @ u \<Longrightarrow> Handler newUUID q s = handleSet q s"
  "qURL q = pathDel @ u \<Longrightarrow> Handler newUUID q s = handleDel q s"
  "qURL q = pathReconfigure \<Longrightarrow> Handler newUUID q s = handleReconfigure s"
  by (simp_all add: Handler_def Let_def path_defs has_prefix_def)

text \<open>
  Sizes: the rows of the table, and those the fields of \<open>F\<close> would make of them or of the next \<open>n\<close> rows, are
  short enough to be read back.
\<close>

definition fitting :: "(nat \<Rightarrow> string) \<Rightarrow> hostFields set \<Rightarrow> nat \<Rightarrow> fakeServer \<Rightarrow> bool" where
  "fitting newUUID F n s \<longleftrightarrow> (\<forall>r \<in> set (fsRows s). rowFits (fsAliases s) r) \<and>
     (\<forall>f \<in> F. \<forall>u \<in> frUUID ` set (fsRows s) \<union> newUUID ` {fsIssued s ..< fsIssued s + n}.
        rowFits (fsAliases s) (writtenRow u (hostPairs f)))"

text \<open>What an accepted write leaves behind.\<close>

definition afterAdd :: "(nat \<Rightarrow> string) \<Rightarrow> hostFields \<Rightarrow> fakeServer \<Rightarrow> fakeServer" where
  "afterAdd newUUID f s = (hit opAddHostOverride s)\<lparr>fsIssued := fsIssued s + 1,
     fsRows := fsRows s @ [writtenRow (newUUID (fsIssued s)) (hostPairs f)]\<rparr>"

definition afterSet :: "string \<Rightarrow> hostFields \<Rightarrow> fakeServer \<Rightarrow> fakeServer" where
  "afterSet u f s = (hit opSetHostOverride s)\<lparr>fsRows := updateFirst u (writtenRow u (hostPairs f)) (fsRows s)\<rparr>"

definition afterDel :: "string \<Rightarrow> fakeServer \<Rightarrow> fakeServer" where
  "afterDel u s = (hit opDelHostOverride s)\<lparr>fsRows := removeFirst u (fsRows s),
     fsAliases := filter (\<lambda>a. faHost a \<noteq> u) (fsAliases s)\<rparr>"

lemma noFault [simp]: "fsFaults s = [] \<Longrightarrow> useFault op (hit op' s) = (None, hit op' s)"
  by (simp add: useFault_none)

lemma handleAdd_accepted:
  assumes "qBody q = Some (hostPayload f)" "fakeAccepts f" "fsFaults s = []"
  shows "handleAdd newUUID q s =
    (writeJSON (JObj [(''result'', JStr ''saved''), (''uuid'', JStr (newUUID (fsIssued s)))]), afterAdd newUUID f s)"
  using assms by (simp add: handleAdd_def Let_def hostBody_payload validations_accepted freshUUID_def afterAdd_def)

lemma handleSet_accepted:
  assumes "qURL q = pathSet @ u" "CHR ''/'' \<notin> set u" "qBody q = Some (hostPayload f)" "fakeAccepts f" "fsFaults s = []"
    and "findRow u (fsRows s) = Some r"
  shows "handleSet q s = (writeJSON (JObj [(''result'', JStr ''saved'')]), afterSet u f s)"
  using assms by (simp add: handleSet_def Let_def hostBody_payload validations_accepted afterSet_def)

lemma handleDel_accepted:
  assumes "qURL q = pathDel @ u" "CHR ''/'' \<notin> set u" "fsFaults s = []" and "findRow u (fsRows s) = Some r"
  shows "handleDel q s = (writeJSON (JObj [(''result'', JStr ''deleted'')]), afterDel u s)"
  using assms by (simp add: handleDel_def Let_def afterDel_def)

lemma handleReconfigure_done:
  "fsFaults s = [] \<Longrightarrow> handleReconfigure s =
     (writeJSON (JObj [(''status'', JStr ''ok'')]), publish (hit opReconfigure s))"
  by (simp add: handleReconfigure_def)

section \<open>The client against the fake\<close>

lemma word_names [simp]:
  "to_lower ''result'' = ''result''" "to_lower ''validations'' = ''validations''" "to_lower ''status'' = ''status''"
  by code_simp+

lemma dec_answers [simp]:
  "dec_writeResponse (JObj [(''result'', JStr r), (''uuid'', JStr u)]) = Some \<lparr>wResult = r, wUUID = u, wValidations = []\<rparr>"
  "dec_writeResponse (JObj [(''result'', JStr r)]) = Some \<lparr>wResult = r, wUUID = [], wValidations = []\<rparr>"
  "dec_statusResponse (JObj [(''status'', JStr t)]) = Some t"
  by (simp_all add: str_field_def dec_field_def field_values_Cons)

lemma roomy_faults: "roomy newUUID n s \<Longrightarrow> fsFaults s = []"
  by (simp add: roomy_def)

lemma answer_sizes:
  "int (length (Encode (JObj [(''result'', JStr ''saved'')]))) + 1 \<le> maxResponseBytes"
  "int (length (Encode (JObj [(''result'', JStr ''deleted'')]))) + 1 \<le> maxResponseBytes"
  "int (length (Encode (JObj [(''status'', JStr ''ok'')]))) + 1 \<le> maxResponseBytes"
  by code_simp+

lemma rowFits_uuid:
  assumes "rowFits al r"
  shows "length (jsonText (frUUID r)) \<le> rowLimit"
proof -
  obtain ps where ps: "rowJSON al r True = JObj ps" "(''uuid'', JStr (frUUID r)) \<in> set ps"
    by (cases "filter (\<lambda>a. faHost a = frUUID r) al = []") (auto simp: rowJSON_def Let_def rowPairs_def)
  from member_Encode [OF ps(2)] assms ps(1) show ?thesis by (simp add: rowFits_def)
qed

lemma created_size:
  assumes "rowFits al (writtenRow u h)"
  shows "int (length (Encode (JObj [(''result'', JStr ''saved''), (''uuid'', JStr u)]))) + 1 \<le> maxResponseBytes"
proof -
  have "length (jsonText u) \<le> 16000" using rowFits_uuid [OF assms] by (simp add: rowLimit_def)
  moreover have "length (jsonText ''result'') = 8" "length (jsonText ''saved'') = 7" "length (jsonText ''uuid'') = 6" by code_simp+
  ultimately show ?thesis by (simp add: maxResponseBytes_def)
qed

lemma fake_add:
  assumes ro: "roomy newUUID n (nw s)" and fit: "rowFits al (writtenRow (newUUID (fsIssued (nw s))) h)"
    and f: "fakeAccepts f" and u: "newUUID (fsIssued (nw s)) \<noteq> []"
  obtains s' where "AddHostOverride (fakeNet (cHost cfg) newUUID) cfg ctx f s = (Inr (newUUID (fsIssued (nw s))), s')"
    "nw s' = afterAdd newUUID f (nw s)"
proof -
  note h = handleAdd_accepted [OF _ f roomy_faults [OF ro], where newUUID = newUUID]
  obtain s' where s': "doCall (fakeNet (cHost cfg) newUUID) cfg ctx opAddHostOverride ''POST'' pathAdd
      (Some (hostPayload f)) dec_writeResponse maxResponseBytes s =
        (Inr \<lparr>wResult = ''saved'', wUUID = newUUID (fsIssued (nw s)), wValidations = []\<rparr>, s')" "nw s' = afterAdd newUUID f (nw s)"
    by (rule fake_call [where dest = dec_writeResponse, OF trans [OF Handler_routes(1) h] created_size [OF fit] dec_answers(1)]) simp_all
  then show thesis using u by (intro that [of s']) (simp_all add: AddHostOverride_def writeErr_def)
qed

lemma fake_set:
  assumes ro: "roomy newUUID n (nw s)"
    and f: "fakeAccepts f" and r: "findRow u (fsRows (nw s)) = Some r"
  obtains s' where "SetHostOverride (fakeNet (cHost cfg) newUUID) cfg ctx u f s = (None, s')" "nw s' = afterSet u f (nw s)"
proof -
  have u: "CHR ''/'' \<notin> set u" using ro findRow_Some [OF r] by (auto simp: roomy_def)
  note h = handleSet_accepted [OF _ u _ f roomy_faults [OF ro] r]
  obtain s' where s': "doCall (fakeNet (cHost cfg) newUUID) cfg ctx opSetHostOverride ''POST'' (pathSet @ u)
      (Some (hostPayload f)) dec_writeResponse maxResponseBytes s =
        (Inr \<lparr>wResult = ''saved'', wUUID = [], wValidations = []\<rparr>, s')" "nw s' = afterSet u f (nw s)"
    by (rule fake_call [where dest = dec_writeResponse, OF trans [OF Handler_routes(2) h] answer_sizes(1) dec_answers(2)]) simp_all
  then show thesis
    by (intro that [of s']) (simp_all add: SetHostOverride_def writeErr_def opAddHostOverride_def opSetHostOverride_def)
qed

lemma fake_del:
  assumes ro: "roomy newUUID n (nw s)"
    and r: "findRow u (fsRows (nw s)) = Some r"
  obtains s' where "DelHostOverride (fakeNet (cHost cfg) newUUID) cfg ctx u s = (Inr True, s')" "nw s' = afterDel u (nw s)"
proof -
  have u: "CHR ''/'' \<notin> set u" using ro findRow_Some [OF r] by (auto simp: roomy_def)
  note h = handleDel_accepted [OF _ u roomy_faults [OF ro] r]
  obtain s' where s': "doCall (fakeNet (cHost cfg) newUUID) cfg ctx opDelHostOverride ''POST'' (pathDel @ u)
      (Some (JObj [])) dec_writeResponse maxResponseBytes s =
        (Inr \<lparr>wResult = ''deleted'', wUUID = [], wValidations = []\<rparr>, s')" "nw s' = afterDel u (nw s)"
    by (rule fake_call [where dest = dec_writeResponse, OF trans [OF Handler_routes(3) h] answer_sizes(2) dec_answers(2)]) simp_all
  then show thesis by (intro that [of s']) (simp_all add: DelHostOverride_def)
qed

lemma fake_reload:
  assumes ro: "roomy newUUID n (nw s)"
  obtains s' where "ReconfigureCall (fakeNet (cHost cfg) newUUID) cfg ctx s = (None, s')"
    "nw s' = publish (hit opReconfigure (nw s))"
proof -
  note h = handleReconfigure_done [OF roomy_faults [OF ro]]
  obtain s' where s': "doCall (fakeNet (cHost cfg) newUUID) cfg ctx opReconfigure ''POST'' pathReconfigure
      (Some (JObj [])) dec_statusResponse maxResponseBytes s = (Inr ''ok'', s')" "nw s' = publish (hit opReconfigure (nw s))"
    by (rule fake_call [where dest = dec_statusResponse, OF trans [OF Handler_routes(4) h] answer_sizes(3) dec_answers(3)]) simp_all
  then show thesis by (intro that [of s']) (simp_all add: ReconfigureCall_def)
qed

section \<open>The contract\<close>

text \<open>The firewall in working order with room for \<open>n\<close> rows with fields among \<open>F\<close>.\<close>

definition fakeHolds :: "(nat \<Rightarrow> string) \<Rightarrow> hostFields set \<Rightarrow> config \<Rightarrow> nat \<Rightarrow> fakeServer cworld \<Rightarrow> bool" where
  "fakeHolds newUUID F cfg n w \<longleftrightarrow> validConfig cfg \<and> goodUUIDs newUUID \<and> roomy newUUID n (nw w) \<and> fitting newUUID F n (nw w)"

lemma fitting_afterAdd:
  assumes "fitting newUUID F (Suc n) s" "f \<in> F"
  shows "fitting newUUID F n (afterAdd newUUID f s)"
  using assms by (fastforce simp: fitting_def afterAdd_def)

lemma set_updateFirst: "set (updateFirst u r rs) \<subseteq> insert r (set rs)"
  by (induction rs) auto

lemma fitting_afterSet:
  assumes fit: "fitting newUUID F n s" "f \<in> F" and u: "u \<in> frUUID ` set (fsRows s)"
  shows "fitting newUUID F n (afterSet u f s)"
proof -
  let ?rs = "updateFirst u (writtenRow u (hostPairs f)) (fsRows s)"
  have "map frUUID ?rs = map frUUID (fsRows s)" by (rule uuids_updateFirst) simp
  then have "frUUID ` set ?rs = frUUID ` set (fsRows s)" by (metis set_map)
  moreover have "rowFits (fsAliases s) (writtenRow u (hostPairs f))" using fit u by (auto simp: fitting_def)
  ultimately show ?thesis
    using fit(1) set_updateFirst [of u "writtenRow u (hostPairs f)" "fsRows s"] by (auto simp: fitting_def afterSet_def)
qed

lemma rowFits_otherAliases:
  "frUUID r \<noteq> u \<Longrightarrow> rowFits (filter (\<lambda>a. faHost a \<noteq> u) al) r = rowFits al r"
proof -
  assume r: "frUUID r \<noteq> u"
  have "filter (\<lambda>a. faHost a = frUUID r) (filter (\<lambda>a. faHost a \<noteq> u) al) = filter (\<lambda>a. faHost a = frUUID r) al"
    using r by (induction al) auto
  then show ?thesis by (simp add: rowFits_def rowJSON_def)
qed

lemma uuids_removeFirst:
  "distinct (map frUUID rs) \<Longrightarrow> frUUID ` set (removeFirst u rs) = frUUID ` set rs - {u}"
  by (induction rs) (auto simp: image_iff)

lemma fitting_afterDel:
  assumes fit: "fitting newUUID F n s" and ro: "roomy newUUID n s" and u: "u \<in> frUUID ` set (fsRows s)"
  shows "fitting newUUID F n (afterDel u s)"
proof -
  let ?al = "filter (\<lambda>a. faHost a \<noteq> u) (fsAliases s)"
  have d: "distinct (map frUUID (fsRows s))" and new: "newUUID i \<noteq> u" if "fsIssued s \<le> i" for i
    using ro u that by (auto simp: roomy_def)
  have us: "frUUID ` set (removeFirst u (fsRows s)) = frUUID ` set (fsRows s) - {u}"
    using ro by (intro uuids_removeFirst) (simp add: roomy_def)
  then have "rowFits ?al r" if "r \<in> set (removeFirst u (fsRows s))" for r
    using that fit set_removeFirst [of u "fsRows s"] by (subst rowFits_otherAliases) (auto simp: fitting_def)
  moreover have "rowFits ?al (writtenRow v (hostPairs f))"
    if "f \<in> F" "v \<in> (frUUID ` set (fsRows s) - {u}) \<union> newUUID ` {fsIssued s ..< fsIssued s + n}" for f v
  proof -
    have "v \<noteq> u" using that(2)
    proof
      assume "v \<in> newUUID ` {fsIssued s ..< fsIssued s + n}"
      then obtain i where "v = newUUID i" "fsIssued s \<le> i" by auto
      with new [of i] show ?thesis by simp
    qed simp
    with that fit show ?thesis by (subst rowFits_otherAliases) (auto simp: fitting_def)
  qed
  ultimately show ?thesis unfolding fitting_def afterDel_def by (simp add: us)
qed

lemma fitting_publish: "fitting newUUID F n (publish s) = fitting newUUID F n s"
  by (simp add: fitting_def publish_def)

lemma fitting_hit [simp]: "fitting newUUID F n (hit op s) = fitting newUUID F n s"
  by (simp add: fitting_def)

lemma fitting_unhit: "fitting newUUID F n s \<Longrightarrow> unhit s' = unhit s \<Longrightarrow> fitting newUUID F n s'"
  using unhit_sel [of s' s] by (simp add: fitting_def)

lemma fitting_mono: "fitting newUUID F n s \<Longrightarrow> m \<le> n \<Longrightarrow> fitting newUUID F m s"
  by (fastforce simp: fitting_def)

lemma fitting_new:
  "fitting newUUID F (Suc n) s \<Longrightarrow> f \<in> F \<Longrightarrow> rowFits (fsAliases s) (writtenRow (newUUID (fsIssued s)) (hostPairs f))"
  by (simp add: fitting_def)

lemma roomy_afterAdd:
  assumes "roomy newUUID (Suc n) s" "goodUUIDs newUUID"
  shows "roomy newUUID n (afterAdd newUUID f s)"
  using assms by (fastforce simp: roomy_def afterAdd_def goodUUIDs_def dest: injD)

lemma roomy_afterSet: "roomy newUUID n s \<Longrightarrow> roomy newUUID n (afterSet u f s)"
proof -
  assume r: "roomy newUUID n s"
  let ?rs = "updateFirst u (writtenRow u (hostPairs f)) (fsRows s)"
  have m: "map frUUID ?rs = map frUUID (fsRows s)" by (rule uuids_updateFirst) simp
  then have "length ?rs = length (fsRows s)" "frUUID ` set ?rs = frUUID ` set (fsRows s)"
    by (metis length_map) (metis m set_map)
  moreover have "(\<forall>r \<in> set ?rs. CHR ''/'' \<notin> set (frUUID r)) \<longleftrightarrow> (\<forall>v \<in> frUUID ` set ?rs. CHR ''/'' \<notin> set v)" by simp
  ultimately show ?thesis using r m by (simp add: roomy_def afterSet_def)
qed

lemma roomy_afterDel: "roomy newUUID n s \<Longrightarrow> roomy newUUID n (afterDel u s)"
  using set_removeFirst [of u "fsRows s"] length_removeFirst [of u "fsRows s"]
  by (fastforce simp: roomy_def afterDel_def distinct_removeFirst)

lemma roomy_publish: "roomy newUUID n s \<Longrightarrow> roomy newUUID n (publish s)"
  by (simp add: roomy_def publish_def)

lemma roomy_unhit: "roomy newUUID n s \<Longrightarrow> unhit s' = unhit s \<Longrightarrow> roomy newUUID n s'"
  using unhit_sel [of s' s] by (simp add: roomy_def)

lemma saved_afterAdd:
  assumes "roomy newUUID n (nw s)" "nw s' = afterAdd newUUID f (nw s)" "fAddPTR f \<noteq> []" "fEnabled f = ''1''"
  defines "u \<equiv> newUUID (fsIssued (nw s))"
  shows "fakeSaved s u = None" and "fakeSaved s' = (fakeSaved s)(u \<mapsto> createdRow u f)"
proof -
  have u: "u \<notin> frUUID ` set (fsRows (nw s))" "u \<notin> faHost ` set (fsAliases (nw s))" using assms(1) by (simp_all add: roomy_def u_def)
  then show "fakeSaved s u = None" by (simp add: fakeSaved_def findRow_None)
  show "fakeSaved s' = (fakeSaved s)(u \<mapsto> createdRow u f)"
  proof
    fix v
    show "fakeSaved s' v = ((fakeSaved s)(u \<mapsto> createdRow u f)) v"
      using written_created [OF assms(3,4) u(2)] findRow_None [THEN iffD2, OF u(1)] assms(2)
      by (cases "findRow v (fsRows (nw s))") (auto simp: fakeSaved_def afterAdd_def findRow_append u_def)
  qed
qed

lemma saved_afterSet:
  assumes r: "findRow u (fsRows (nw s)) = Some r" "enabled (rowOf (fsAliases (nw s)) r)"
    and f: "fAddPTR f \<noteq> []" "fEnabled f = ''1''" and s': "nw s' = afterSet u f (nw s)"
  shows "fakeSaved s' = (fakeSaved s)(u \<mapsto> retargetRow f (core (rowOf (fsAliases (nw s)) r)))"
  using written_retargeted [OF f findRow_Some [OF r(1), THEN conjunct2] r(2)] s' r(1)
  by (intro ext) (simp add: fakeSaved_def afterSet_def findRow_updateFirst)

lemma saved_afterDel:
  assumes "distinct (map frUUID (fsRows (nw s)))" "nw s' = afterDel u (nw s)"
  shows "fakeSaved s' = (fakeSaved s)(u := None)"
proof
  fix v
  show "fakeSaved s' v = ((fakeSaved s)(u := None)) v"
  proof (cases "findRow v (fsRows (nw s))")
    case None
    then show ?thesis using assms by (simp add: fakeSaved_def afterDel_def findRow_removeFirst)
  next
    case (Some r)
    then have "frUUID r = v" using findRow_Some by blast
    with Some assms show ?thesis
      by (cases "v = u") (simp_all add: fakeSaved_def afterDel_def findRow_removeFirst rowOf_otherAliases)
  qed
qed

lemma fakeHoldsD:
  assumes "fakeHolds newUUID F cfg n w"
  shows "validConfig cfg" "goodUUIDs newUUID" "fitting newUUID F n (nw w)" "roomy newUUID n (nw w)"
    and "distinct (map frUUID (fsRows (nw w)))" "newUUID i \<noteq> []" "fakeOk (cHost cfg) cfg w"
  using assms by (auto simp: fakeHolds_def roomy_def goodUUIDs_def fakeOk_def fitting_def)

lemma fakeHoldsI:
  "fakeHolds newUUID F cfg n w \<Longrightarrow> roomy newUUID m (nw w') \<Longrightarrow> fitting newUUID F m (nw w') \<Longrightarrow> fakeHolds newUUID F cfg m w'"
  by (simp add: fakeHolds_def)

lemma fakeSaved_same: "fsRows (nw w') = fsRows (nw w) \<Longrightarrow> fsAliases (nw w') = fsAliases (nw w) \<Longrightarrow> fakeSaved w' = fakeSaved w"
  by (simp add: fakeSaved_def fun_eq_iff)

interpretation fake_firewall: obedient "liveClient (fakeNet (cHost cfg) newUUID) cfg" fakeSaved
    "fakeHolds newUUID F cfg" "\<lambda>f. fakeAccepts f \<and> f \<in> F"
  for newUUID F cfg
proof
  fix n m :: nat and w :: "fakeServer cworld" and ctx f u r
  let ?c = "liveClient (fakeNet (cHost cfg) newUUID) cfg"
  show "fakeHolds newUUID F cfg n w \<Longrightarrow> m \<le> n \<Longrightarrow> fakeHolds newUUID F cfg m w"
    by (auto simp: fakeHolds_def roomy_def intro: fitting_mono)
  show "\<exists>rs t w'. cSnapshot ?c ctx w = (Inr (buildSnapshot rs t), w') \<and> distinct (uuids rs) \<and>
      (\<lambda>u. map_option core (map_of (map (\<lambda>r. (UUID (cols r), r)) rs) u)) = fakeSaved w \<and>
      fakeHolds newUUID F cfg n w' \<and> fakeSaved w' = fakeSaved w" if h: "fakeHolds newUUID F cfg n w"
  proof -
    have "1 \<le> cPageSize cfg" "cPageSize cfg \<le> maxPageSize" "1 \<le> cReadAttempts cfg"
      using fakeHoldsD(1) [OF h] by (auto simp: validConfig_def)
    from fake_snapshot [OF fakeHoldsD(7) [OF h] this, of newUUID ctx]
    obtain w' where w': "cSnapshot ?c ctx w = (Inr (buildSnapshot (fakeTable (nw w)) (int (length (fakeTable (nw w))))), w')"
      "unhit (nw w') = unhit (nw w)" by (auto simp: liveClient_def)
    then show ?thesis
      using distinct_fakeTable [OF fakeHoldsD(5) [OF h]] fakeTable_saved [OF fakeHoldsD(5) [OF h]]
        fakeHoldsI [OF h roomy_unhit [OF fakeHoldsD(4) [OF h] w'(2)] fitting_unhit [OF fakeHoldsD(3) [OF h] w'(2)]] fakeSaved_same [OF unhit_sel(1,2) [OF w'(2)]] by blast
  qed
  show "\<exists>u w'. cAdd ?c ctx f w = (Inr u, w') \<and> fakeSaved w u = None \<and> fakeHolds newUUID F cfg n w' \<and>
      fakeSaved w' = (fakeSaved w)(u \<mapsto> createdRow u f)"
    if h: "fakeHolds newUUID F cfg (Suc n) w" and f: "fakeAccepts f \<and> f \<in> F" "fEnabled f = ''1''"
  proof -
    obtain w' where w': "cAdd ?c ctx f w = (Inr (newUUID (fsIssued (nw w))), w')" "nw w' = afterAdd newUUID f (nw w)"
      by (rule fake_add [OF fakeHoldsD(4) [OF h] fitting_new [OF fakeHoldsD(3) [OF h] f(1) [THEN conjunct2]] f(1) [THEN conjunct1] fakeHoldsD(6) [OF h]])
        (auto simp: liveClient_def)
    have "fAddPTR f \<noteq> []" using f(1) by (simp add: fakeAccepts_def)
    from saved_afterAdd [OF fakeHoldsD(4) [OF h] w'(2) this f(2)] show ?thesis
      using w' f(1) fakeHoldsI [OF h, of n w'] roomy_afterAdd [OF fakeHoldsD(4,2) [OF h], of f]
        fitting_afterAdd [OF fakeHoldsD(3) [OF h], of f] by metis
  qed
  show "\<exists>w'. cSet ?c ctx u f w = (None, w') \<and> fakeHolds newUUID F cfg n w' \<and>
      fakeSaved w' = (fakeSaved w)(u \<mapsto> retargetRow f r)"
    if h: "fakeHolds newUUID F cfg n w" and f: "fakeAccepts f \<and> f \<in> F" "fEnabled f = ''1''" and r: "fakeSaved w u = Some r" "enabled r"
  proof -
    obtain r0 where r0: "findRow u (fsRows (nw w)) = Some r0" "r = core (rowOf (fsAliases (nw w)) r0)"
      using r(1) by (auto simp: fakeSaved_def)
    have here: "u \<in> frUUID ` set (fsRows (nw w))" using findRow_Some [OF r0(1)] by auto
    obtain w' where w': "cSet ?c ctx u f w = (None, w')" "nw w' = afterSet u f (nw w)"
      by (rule fake_set [OF fakeHoldsD(4) [OF h] f(1) [THEN conjunct1] r0(1)]) (auto simp: liveClient_def)
    have "fAddPTR f \<noteq> []" "enabled (rowOf (fsAliases (nw w)) r0)" using f(1) r(2) r0(2) by (simp_all add: fakeAccepts_def)
    from saved_afterSet [OF r0(1) this(2,1) f(2) w'(2)] show ?thesis
      using w' r0(2) f(1) fakeHoldsI [OF h, of n w'] roomy_afterSet [OF fakeHoldsD(4) [OF h], of u f]
        fitting_afterSet [OF fakeHoldsD(3) [OF h] _ here, of f] by metis
  qed
  show "\<exists>w'. cDel ?c ctx u w = (Inr True, w') \<and> fakeHolds newUUID F cfg n w' \<and> fakeSaved w' = (fakeSaved w)(u := None)"
    if h: "fakeHolds newUUID F cfg n w" and r: "fakeSaved w u = Some r"
  proof -
    obtain r0 where r0: "findRow u (fsRows (nw w)) = Some r0" using r by (auto simp: fakeSaved_def)
    have here: "u \<in> frUUID ` set (fsRows (nw w))" using findRow_Some [OF r0] by auto
    obtain w' where w': "cDel ?c ctx u w = (Inr True, w')" "nw w' = afterDel u (nw w)"
      by (rule fake_del [OF fakeHoldsD(4) [OF h] r0]) (auto simp: liveClient_def)
    from saved_afterDel [OF fakeHoldsD(5) [OF h] w'(2)] show ?thesis
      using w' fakeHoldsI [OF h, of n w'] roomy_afterDel [OF fakeHoldsD(4) [OF h], of u]
        fitting_afterDel [OF fakeHoldsD(3,4) [OF h] here] by metis
  qed
  show "\<exists>w'. cReconfigure ?c ctx w = (None, w') \<and> fakeHolds newUUID F cfg n w' \<and> fakeSaved w' = fakeSaved w"
    if h: "fakeHolds newUUID F cfg n w"
  proof -
    obtain w' where w': "cReconfigure ?c ctx w = (None, w')" "nw w' = publish (hit opReconfigure (nw w))"
      by (rule fake_reload [OF fakeHoldsD(4) [OF h]]) (auto simp: liveClient_def)
    have "roomy newUUID n (nw w')" "fitting newUUID F n (nw w')"
      using fakeHoldsD(3,4) [OF h] w'(2) by (simp_all add: roomy_publish fitting_publish)
    moreover have "fakeSaved w' = fakeSaved w" using w'(2) by (intro fakeSaved_same) (simp_all add: publish_def)
    ultimately show ?thesis using w'(1) fakeHoldsI [OF h] by blast
  qed
qed

section \<open>A folded plan on the fake\<close>

text \<open>Every set of a folded plan can be written, once its name joins back and no target is empty.\<close>

definition writable :: "config \<Rightarrow> rowKey \<Rightarrow> desiredSet \<Rightarrow> bool" where
  "writable cfg k s \<longleftrightarrow> joinable cfg k \<and> [] \<notin> set (dsTargets s)"

lemma length_normaliseName: "length (normaliseName s) \<le> length s"
proof -
  have "length (trim_space s) \<le> length s"
    using length_trim_right [of is_space "dropWhile is_space s"] length_dropWhile_le [of is_space s]
    by (simp add: trim_space_def trim_def trim_left_def)
  moreover have "length (trim_suffix x y) \<le> length x" for x y by (simp add: trim_suffix_def)
  ultimately show ?thesis by (simp add: normaliseName_def to_lower_def) (meson le_trans)
qed

lemma joinable_host:
  assumes "joinable cfg k" and sp: "splitName (kname k) (cDomains cfg) = Inr (h, d)"
  shows "h \<noteq> []"
proof
  assume h: "h = []"
  have "normaliseName [] = []" by code_simp
  moreover have "trim (\<lambda>c. c = CHR ''.'') [] = []" by code_simp
  ultimately have "joinName [] d = normaliseName d" by (simp add: joinName_def Let_def)
  then have "kname k = normaliseName d" using assms h by (simp add: joinable_def)
  moreover have "normaliseName (kname k) = ''.'' @ d" using splitName_Inr(1) [OF sp] h by simp
  ultimately show False using length_normaliseName [of "kname k"] length_normaliseName [of d] by simp
qed

lemma setOk_accepts:
  assumes s: "setOk cfg k s" and w: "writable cfg k s" and t: "t \<in> set (dsTargets s)"
  shows "fakeAccepts (writeFields cfg s t)"
proof -
  have k: "dsKey s = k" and sp: "splitName (kname k) (cDomains cfg) = Inr (dsHost s, dsDomain s)"
    and rr: "krr k \<in> {recordTypeA, recordTypeAAAA, recordTypeTXT}" and tx: "krr k = recordTypeTXT \<longrightarrow> validBare t"
    using s t by (auto simp: setOk_def list_all_iff)
  have d: "dsDomain s \<noteq> []" using sp by (auto simp: splitName_def Let_def split: if_splits)
  moreover have "dsHost s \<noteq> []" using joinable_host [OF _ sp] w by (simp add: writable_def)
  ultimately show ?thesis
    using rr tx t w by (auto simp: fakeAccepts_def writeFields_def Let_def k validBare_def maxTXTBytes_def record_types writable_def)
qed

text \<open>The fields a plan writes: those of each of its targets, with the TTL, the owner and the PTR flag of its set.\<close>

definition plannedWrites :: "config \<Rightarrow> (rowKey \<times> desiredSet) list \<Rightarrow> hostFields set" where
  "plannedWrites cfg ss = (\<Union>(k, s) \<in> set ss. writeFields cfg s ` set (dsTargets s))"

lemma fold_doable:
  assumes "\<forall>(k, s) \<in> set (fsSets (foldChanges cfg ch m)). writable cfg k s"
  shows "doable cfg (\<lambda>f. fakeAccepts f \<and> f \<in> plannedWrites cfg (fsSets (foldChanges cfg ch m))) (map_of (fsSets (foldChanges cfg ch m)))"
  unfolding doable_def
proof (intro conjI allI impI)
  let ?st = "foldChanges cfg ch m"
  have "\<forall>k \<in> fst ` set (fsSets ?st). joinable cfg k" using assms by (auto simp: writable_def)
  then show "coherent cfg (map_of (fsSets ?st))" by (rule coherent_foldChanges)
  fix k s assume "map_of (fsSets ?st) k = Some s"
  then have ks: "(k, s) \<in> set (fsSets ?st)" by (rule map_of_SomeD)
  with foldChanges_ok [of cfg ch m] have ok: "setOk cfg k s" "\<not> dsFailed s" by (auto simp: foldOk_def)
  then show "\<not> dsFailed s" "0 \<le> dsTTL s" "dsTTL s \<le> maxTTL" "distinct (dsTargets s)" by (simp_all add: setOk_def)
  show "\<forall>t \<in> set (dsTargets s). fakeAccepts (writeFields cfg s t) \<and> writeFields cfg s t \<in> plannedWrites cfg (fsSets ?st)"
    using setOk_accepts [OF ok(1)] ks assms unfolding plannedWrites_def by fast
qed

text \<open>The read of the fake mirrors its saved table.\<close>

lemma fake_read:
  assumes h: "fakeHolds newUUID F cfg n w"
  obtains w' where "SnapshotCall (fakeNet (cHost cfg) newUUID) cfg ctx w =
      (Inr (buildSnapshot (fakeTable (nw w)) (int (length (fakeTable (nw w))))), w')" "unhit (nw w') = unhit (nw w)"
    "mirrors (buildSnapshot (fakeTable (nw w)) (int (length (fakeTable (nw w))))) (fakeSaved w)"
proof -
  have "1 \<le> cPageSize cfg" "cPageSize cfg \<le> maxPageSize" "1 \<le> cReadAttempts cfg"
    using fakeHoldsD(1) [OF h] by (auto simp: validConfig_def)
  from fake_snapshot [OF fakeHoldsD(7) [OF h] this, of newUUID ctx] that
    mirrors_buildSnapshot [OF distinct_fakeTable [OF fakeHoldsD(5) [OF h]] fakeTable_saved [OF fakeHoldsD(5) [OF h]]]
  show thesis by blast
qed

lemma fake_apply:
  fixes cfg :: config and ch :: "'m changes" and p :: "fakeServer cworld prov"
  assumes "fakeHolds newUUID (plannedWrites cfg (fsSets (foldChanges cfg ch (pmets p)))) cfg (\<Sum>(k, s)\<leftarrow>fsSets (foldChanges cfg ch (pmets p)). length (dsTargets s)) (world p)"
    and "fsErrs (foldChanges cfg ch (pmets p)) = []" and "\<forall>(k, s) \<in> set (fsSets (foldChanges cfg ch (pmets p))). writable cfg k s"
    and "\<forall>k \<in> fst ` set (fsSets (foldChanges cfg ch (pmets p))). tidy one (fakeSaved (world p)) k"
    and "\<And>ks. mset (shuffle ks) = mset ks"
  shows "\<exists>p'. apply_plan (liveClient (fakeNet (cHost cfg) newUUID) cfg) cfg shuffle ctx ch p = (Done, p') \<and>
    \<not> pending p' \<and> fakeHolds newUUID (plannedWrites cfg (fsSets (foldChanges cfg ch (pmets p)))) cfg 0 (world p') \<and>
    sameBut (fst ` set (fsSets (foldChanges cfg ch (pmets p)))) (fakeSaved (world p)) (fakeSaved (world p')) \<and>
    (\<forall>(k, s) \<in> set (fsSets (foldChanges cfg ch (pmets p))). achieved cfg s (fakeSaved (world p')) \<and> tidy one (fakeSaved (world p')) k)"
  by (rule fake_firewall.apply_obeyed [OF assms(1,2) fold_doable [OF assms(3)] assms(5,4)])

lemma fake_again:
  fixes cfg :: config and ch :: "'m changes" and p :: "fakeServer cworld prov"
  assumes h: "fakeHolds newUUID F cfg n (world p)" and "\<not> pending p"
    and ok: "\<forall>(k, s) \<in> set (fsSets (foldChanges cfg ch m)). achieved cfg s (fakeSaved (world p)) \<and> tidy True (fakeSaved (world p)) k"
    and "fsErrs (foldChanges cfg ch m) = []"
  shows "\<exists>p'. apply_plan (liveClient (fakeNet (cHost cfg) newUUID) cfg) cfg shuffle ctx ch p = (Done, p') \<and>
    unhit (nw (world p')) = unhit (nw (world p))"
proof -
  let ?c = "liveClient (fakeNet (cHost cfg) newUUID) cfg"
  let ?sn = "buildSnapshot (fakeTable (nw (world p))) (int (length (fakeTable (nw (world p)))))"
  obtain w' where w': "cSnapshot ?c ctx (world p) = (Inr ?sn, w')" "unhit (nw w') = unhit (nw (world p))"
    "mirrors ?sn (fakeSaved (world p))"
    using fake_read [OF h, of ctx] by (auto simp: liveClient_def)
  have "satisfied cfg s (snapView ?sn k)" if "(k, s) \<in> set (fsSets (foldChanges cfg ch m))" for k s
  proof -
    have "dsKey s = k" using that foldChanges_ok [of cfg ch m] by (auto simp: foldOk_def setOk_def)
    then show ?thesis using mirrored_satisfied [OF w'(3), of cfg s] ok that by auto
  qed
  then have "\<forall>(k, s) \<in> set (fsSets (foldChanges cfg ch (pmets p))). satisfied cfg s (snapView ?sn k)"
    unfolding foldChanges_mets [of cfg ch "pmets p" m] by blast
  moreover have "fsErrs (foldChanges cfg ch (pmets p)) = []" using assms(4) foldChanges_mets(2) [of cfg ch "pmets p" m] by simp
  ultimately show ?thesis
    using apply_plan_idle [OF w'(1) assms(2), of cfg ch shuffle] w'(2) by auto
qed

section \<open>Properties\<close>


text \<open>C5: An apply is idempotent.  Under the premises of C4 -- one worker, the in-memory firewall with no fault armed,
room, distinct uuids and rows of at most 16000 bytes, a plan that folds without an error, whose names join back and
none of whose targets is empty -- and when moreover no two saved rows of a key of the plan share a target, applying the
same plan a second time succeeds, sends no write and no reload, and leaves the firewall as it was, but for its counters
of requests.\<close>

theorem apply_twice:
  fixes cfg :: config and ch :: "'m changes" and p :: "fakeServer cworld prov"
    and newUUID :: "nat \<Rightarrow> string"
  defines "st \<equiv> foldChanges cfg ch (pmets p)" and "c \<equiv> liveClient (fakeNet (cHost cfg) newUUID) cfg"
  assumes "fakeHolds newUUID (plannedWrites cfg (fsSets st)) cfg (\<Sum>(k, s)\<leftarrow>fsSets st. length (dsTargets s)) (world p)"
    and "fsErrs st = []" and "\<forall>(k, s) \<in> set (fsSets st). writable cfg k s"
    and "\<forall>k \<in> fst ` set (fsSets st). tidy True (fakeSaved (world p)) k"
    and "\<And>ks. mset (shuffle ks) = mset ks"
  shows "\<exists>p' p''. apply_plan c cfg shuffle ctx ch p = (Done, p') \<and> apply_plan c cfg shuffle' ctx' ch p' = (Done, p'') \<and>
    unhit (nw (world p'')) = unhit (nw (world p'))"
proof -
  obtain p' where p': "apply_plan c cfg shuffle ctx ch p = (Done, p')" "\<not> pending p'" "fakeHolds newUUID (plannedWrites cfg (fsSets st)) cfg 0 (world p')"
    "\<forall>(k, s) \<in> set (fsSets st). achieved cfg s (fakeSaved (world p')) \<and> tidy True (fakeSaved (world p')) k"
    using fake_apply [OF assms(3-) [unfolded st_def]] unfolding st_def c_def by blast
  from fake_again [OF p'(3,2) p'(4) [unfolded st_def] assms(4) [unfolded st_def]] p'(1) show ?thesis
    unfolding c_def by blast
qed

end
