(* ===== verification/Examples.thy ===== *)
theory Examples
  imports Contract Program Fake_Writes
begin

text \<open>
  Concrete inputs at which the properties are applied: a configuration, a network that answers from
  a script, an endpoint, plans, a client over a bare table and the client over the model of the
  repository's in-memory firewall.  The witnesses of the network and client properties follow.
\<close>

section \<open>A configuration and a scripted network\<close>

definition demoCfg :: config where
  "demoCfg = \<lparr>cHost = ''https://fw'', cAPIKey = ''k'', cAPISecret = ''s'', cDomains = [''example.com''],
     cSkipTLSVerify = False, cCACertPath = [], cAddPTR = False, cOwnerMarker = ''external-dns'', cPageSize = 100,
     cReadAttempts = 3, cApplyWorkers = 1, cRetryAttempts = 3, cRetryInitialDelay = 500000000,
     cRetryMaxDelay = 10000000000, cRequestTimeout = 30000000000, cReconfigureTimeout = 60000000000,
     cApplyTimeout = 105000000000\<rparr>"

fun popReply :: "sendResult list \<Rightarrow> sendResult \<times> sendResult list" where
  "popReply [] = (NetFailure (Plain ''connection refused''), [])"
| "popReply (r # rs) = (r, rs)"

definition scriptNet :: "sendResult list net" where
  "scriptNet = \<lparr>netSend = (\<lambda>c q s. popReply s), netCtxErr = (\<lambda>c s. None), netSleep = (\<lambda>c d s. (None, s)),
     netRand = (\<lambda>k s. (0, s)), netUntilDate = (\<lambda>v s. None)\<rparr>"

definition replyWith :: "int \<Rightarrow> string \<Rightarrow> json \<Rightarrow> sendResult" where
  "replyWith status hint j = Response \<lparr>rStatus = status, rRetryAfter = hint, rBody = Body 1 (Some j), rText = []\<rparr>"

definition throttled :: sendResult where "throttled = replyWith 429 ''120'' JNull"
definition unavailable :: sendResult where "unavailable = replyWith 503 [] JNull"

lemmas demo_net = scriptNet_def replyWith_def throttled_def unavailable_def

lemma validConfig_demo: "validConfig demoCfg"
proof -
  have "contains ''example.com'' ''..'' = False" by code_simp
  moreover have "to_lower ''example.com'' = ''example.com''" by code_simp
  moreover have "has_prefix ''example.com'' ''.'' = False" by code_simp
  ultimately have "validDomain ''example.com''" by (simp add: validDomain_def)
  then show ?thesis by (simp add: validConfig_def demoCfg_def config_consts)
qed

text \<open>A throttled reload asks for two minutes and waits the configured ten seconds.\<close>

theorem retry_bounded_witness:
  "retryAfter scriptNet demoCfg opReconfigure throttled 0 [] = ((True, 10000000000), []) \<and>
   retryable opReconfigure throttled \<and> (10000000000::int) \<le> cmp_or (cRetryMaxDelay demoCfg) (10 * second)"
proof -
  have r: "retryAfter scriptNet demoCfg opReconfigure throttled 0 [] = ((True, 10000000000), [])"
    by code_simp
  with retry_bounded [OF r] show ?thesis by blast
qed

theorem backoff_doubles_witness: "backoffBase demoCfg 2 = 2000000000"
  using backoff_doubles [OF validConfig_demo, of 2] by (simp add: demoCfg_def)

text \<open>A status call against a firewall that stays unavailable sends its three requests and no more.\<close>

definition statusRun :: "string result \<times> (sendResult list \<times> sendResult list) cworld" where
  "statusRun = doCall (counted scriptNet) demoCfg CtxBackground opServiceStatus ''GET'' pathStatus None
     dec_statusResponse maxResponseBytes
     \<lparr>nw = ([unavailable, unavailable, unavailable, unavailable, unavailable], []), cmets = Map.empty\<rparr>"

theorem calls_bounded_witness:
  "\<exists>sent. snd (nw (snd statusRun)) = [] @ sent \<and> int (length sent) \<le> 3 \<and>
     list_all (retryable opServiceStatus) (butlast sent)"
  using calls_bounded [OF prod.collapse [of statusRun, unfolded statusRun_def, symmetric]]
  by (simp add: statusRun_def demoCfg_def)

text \<open>An update that is throttled once and then fails is not sent a third time.\<close>

definition updateRun :: "writeResponse result \<times> (sendResult list \<times> sendResult list) cworld" where
  "updateRun = doCall (counted scriptNet) demoCfg CtxBackground opSetHostOverride ''POST'' pathSet None
     dec_writeResponse maxResponseBytes
     \<lparr>nw = ([throttled, unavailable, unavailable], []), cmets = Map.empty\<rparr>"

theorem writes_not_repeated_witness:
  "\<exists>sent. snd (nw (snd updateRun)) = [] @ sent \<and> list_all tooMany (butlast sent)"
  using writes_not_repeated [OF prod.collapse [of updateRun, unfolded updateRun_def, symmetric]]
  by (simp add: updateRun_def)

text \<open>A delete answered with \<^verbatim>\<open>saved\<close>.\<close>

definition savedReply :: sendResult where
  "savedReply = replyWith 200 [] (JObj [(''result'', JStr ''saved'')])"

definition deleteRun :: "writeResponse result \<times> sendResult list cworld" where
  "deleteRun = doCall scriptNet demoCfg CtxBackground opDelHostOverride ''POST'' (pathDel @ ''u1'') (Some (JObj []))
     dec_writeResponse maxResponseBytes \<lparr>nw = [savedReply], cmets = Map.empty\<rparr>"

theorem delete_saved_is_gone_witness:
  "fst (DelHostOverride scriptNet demoCfg CtxBackground ''u1'' \<lparr>nw = [savedReply], cmets = Map.empty\<rparr>) = Inr False"
proof -
  have f: "fst deleteRun = Inr \<lparr>wResult = ''saved'', wUUID = [], wValidations = []\<rparr>"
    by code_simp
  then have "deleteRun = (Inr \<lparr>wResult = ''saved'', wUUID = [], wValidations = []\<rparr>, snd deleteRun)"
    by (metis prod.collapse)
  from delete_saved_is_gone [OF this [unfolded deleteRun_def]] show ?thesis by simp
qed

text \<open>A table of two rows read in one page.\<close>

definition pageReply :: sendResult where
  "pageReply = replyWith 200 []
     (JObj [(''rows'', JArr [JObj [(''uuid'', JStr ''a'')], JObj [(''uuid'', JStr ''b'')]]),
            (''rowCount'', JNum ''2''), (''total'', JNum ''2''), (''current'', JNum ''1'')])"

definition snapshotRun :: "snapshot result \<times> sendResult list cworld" where
  "snapshotRun = SnapshotCall scriptNet demoCfg CtxBackground \<lparr>nw = [pageReply], cmets = Map.empty\<rparr>"

theorem snapshot_consistent_witness:
  "\<exists>sn. fst snapshotRun = Inr sn \<and> length (heap sn) = 2 \<and> distinct (uuids (heap sn)) \<and> snTotal sn = 2"
proof -
  have "map_sum (\<lambda>_. ()) (\<lambda>sn. length (heap sn)) (fst snapshotRun) = Inr 2" by code_simp
  then obtain sn where sn: "fst snapshotRun = Inr sn" "length (heap sn) = 2"
    by (cases "fst snapshotRun") auto
  then have "SnapshotCall scriptNet demoCfg CtxBackground \<lparr>nw = [pageReply], cmets = Map.empty\<rparr> =
      (Inr sn, snd snapshotRun)"
    by (metis prod.collapse snapshotRun_def)
  from snapshot_consistent [OF this] have "distinct (uuids (heap sn))" "int (length (heap sn)) = snTotal sn" by blast+
  with sn show ?thesis by (intro exI [of _ sn]) simp
qed

section \<open>A plan, a table and the in-memory firewall\<close>

definition ep :: "string \<Rightarrow> string \<Rightarrow> string \<Rightarrow> endpoint" where
  "ep n rr t = \<lparr>DNSName = n, Targets = [t], RecordType = rr, SetIdentifier = [], RecordTTL = 0\<rparr>"

text \<open>An address and the ownership record external-dns writes beside it.\<close>

definition demoPlan :: "unit changes" where
  "demoPlan = \<lparr>Create = [ep ''www.example.com'' ''A'' ''10.0.0.1'',
     ep ''a-www.example.com'' ''TXT'' ([quote] @ ''heritage'' @ [quote])], UpdateOld = [], UpdateNew = [], Delete = []\<rparr>"

definition keyA :: rowKey where "keyA = RowKey ''www.example.com'' ''A''"
definition keyT :: rowKey where "keyT = RowKey ''a-www.example.com'' ''TXT''"

definition setA :: desiredSet where
  "setA = \<lparr>dsKey = keyA, dsHost = ''www'', dsDomain = ''example.com'', dsTargets = [''10.0.0.1''], dsTTL = 0, dsFailed = False\<rparr>"

definition setT :: desiredSet where
  "setT = \<lparr>dsKey = keyT, dsHost = ''a-www'', dsDomain = ''example.com'', dsTargets = [''heritage''], dsTTL = 0, dsFailed = False\<rparr>"

definition demoRows :: "hostRow list" where
  "demoRows = [createdRow ''u1'' (writeFields demoCfg setT ''heritage''), createdRow ''u2'' (writeFields demoCfg setA ''10.0.0.1'')]"

lemma demo_sets: "fsSets (foldChanges demoCfg demoPlan Map.empty) = [(keyA, setA), (keyT, setT)]"
  by code_simp

lemma demo_errs: "fsErrs (foldChanges demoCfg demoPlan Map.empty) = []"
  by code_simp

lemma demo_satisfied:
  "satisfied demoCfg setA (filter (\<lambda>r. indexed r \<and> rowKeyOf r = keyA) demoRows)"
  "satisfied demoCfg setT (filter (\<lambda>r. indexed r \<and> rowKeyOf r = keyT) demoRows)"
  by code_simp+

text \<open>A client over a bare table: its calls never fail.\<close>

definition tableClient :: "hostRow list client" where
  "tableClient =
     \<lparr>cSnapshot = (\<lambda>ctx rs. (Inr (buildSnapshot rs (int (length rs))), rs)),
      cSearch = (\<lambda>ctx i n rs. (Inr \<lparr>pgRows = rs, pgRowCount = int (length rs), pgTotal = int (length rs), pgCurrent = i\<rparr>, rs)),
      cAdd = (\<lambda>ctx f rs. (Inr (''u'' @ nat_dec (length rs)), rs @ [createdRow (''u'' @ nat_dec (length rs)) f])),
      cSet = (\<lambda>ctx u f rs. (None, map (\<lambda>r. if UUID (cols r) = u then retargetRow f r else r) rs)),
      cDel = (\<lambda>ctx u rs. (Inr True, filter (\<lambda>r. UUID (cols r) \<noteq> u) rs)),
      cReconfigure = (\<lambda>ctx rs. (None, rs)), cServiceStatus = (\<lambda>ctx rs. (None, rs)),
      cListLocalData = (\<lambda>ctx rs. (Inr [], rs))\<rparr>"

definition provOver :: "'w \<Rightarrow> 'w prov" where
  "provOver w = \<lparr>world = w, pending = False, pmets = Map.empty\<rparr>"

text \<open>The real client over the in-memory firewall, empty and with the plan's rows already saved.\<close>

definition demoNet :: "fakeServer net" where
  "demoNet = fakeNet (cHost demoCfg) (\<lambda>n. ''u'' @ nat_dec n)"

definition emptyServer :: fakeServer where
  "emptyServer = \<lparr>fsRows = [], fsAliases = [], fsServed = [], fsFaults = [], fsHits = (\<lambda>_. 0), fsReconfigures = 0, fsIssued = 0\<rparr>"

definition savedRow :: "string \<Rightarrow> hostFields \<Rightarrow> fakeRow" where
  "savedRow u f = \<lparr>frUUID = u, frEnabled = fEnabled f, frHostname = fHostname f, frDomain = fDomain f, frRR = fRR f,
     frServer = fServer f, frTXTData = fTXTData f, frMX = [], frMXPrio = [], frTTL = fTTL f, frAddPTR = fAddPTR f,
     frDescription = fDescription f\<rparr>"

definition savedServer :: fakeServer where
  "savedServer = emptyServer\<lparr>fsRows := [savedRow ''u2'' (writeFields demoCfg setA ''10.0.0.1''),
     savedRow ''u1'' (writeFields demoCfg setT ''heritage'')]\<rparr>"

definition demoClient :: "(fakeServer cworld \<times> call list) client" where
  "demoClient = logged (liveClient demoNet demoCfg)"

definition startOn :: "fakeServer \<Rightarrow> (fakeServer cworld \<times> call list) prov" where
  "startOn s = provOver (\<lparr>nw = s, cmets = Map.empty\<rparr>, [])"

definition applyOn :: "fakeServer \<Rightarrow> error outcome \<times> (fakeServer cworld \<times> call list) prov" where
  "applyOn s = apply_plan demoClient demoCfg id CtxBackground demoPlan (startOn s)"

lemma startOn_simps [simp]:
  "snd (world (startOn s)) = []" "\<not> pending (startOn s)" "pmets (startOn s) = Map.empty"
  by (simp_all add: startOn_def provOver_def)

lemma applyOn_eq:
  "apply_plan (logged (liveClient demoNet demoCfg)) demoCfg id CtxBackground demoPlan (startOn s) =
     (fst (applyOn s), snd (applyOn s))"
  by (simp add: applyOn_def demoClient_def)

lemma saved_fits: "list_all (rowFits (fsAliases savedServer)) (fsRows savedServer)"
  by code_simp

lemma fakeOk_saved: "fakeOk (cHost demoCfg) demoCfg \<lparr>nw = savedServer, cmets = m\<rparr>"
  using saved_fits by (simp add: fakeOk_def list_all_iff savedServer_def emptyServer_def savedRow_def)

lemma saved_table:
  "list_all (\<lambda>(k, s). satisfied demoCfg s (filter (\<lambda>r. indexed r \<and> rowKeyOf r = k) (fakeTable savedServer)))
     [(keyA, setA), (keyT, setT)]"
  by code_simp

lemma saved_snapshot:
  "\<exists>w. cSnapshot demoClient ctx (world (startOn savedServer)) =
     (Inr (buildSnapshot (fakeTable savedServer) (int (length (fakeTable savedServer)))), w)"
proof -
  obtain s' where "SnapshotCall demoNet demoCfg ctx \<lparr>nw = savedServer, cmets = Map.empty\<rparr> =
      (Inr (buildSnapshot (fakeTable savedServer) (int (length (fakeTable savedServer)))), s')"
    using fake_snapshot [OF fakeOk_saved, of "\<lambda>n. ''u'' @ nat_dec n" ctx] unfolding demoNet_def
    by (auto simp: demoCfg_def maxPageSize_def)
  then show ?thesis by (auto simp: demoClient_def startOn_def provOver_def logged_def liveClient_def)
qed

lemma saved_done: "fst (applyOn savedServer) = Done"
proof -
  obtain w where w: "cSnapshot demoClient CtxBackground (world (startOn savedServer)) =
      (Inr (buildSnapshot (fakeTable savedServer) (int (length (fakeTable savedServer)))), w)"
    using saved_snapshot by blast
  show ?thesis
    unfolding applyOn_def
    by (subst apply_plan_idle [OF w]) (use saved_table in \<open>auto simp: demo_sets demo_errs snapView_buildSnapshot\<close>)
qed

lemma demo_joinable: "joinable demoCfg keyA" "joinable demoCfg keyT"
  by code_simp+

text \<open>The sequential apply is a schedule of four workers.\<close>

lemma applyOn_schedule:
  "apply_with 4 (logged (liveClient demoNet demoCfg)) demoCfg id CtxBackground demoPlan (startOn s) (fst (applyOn s)) (snd (applyOn s))"
  using applyOn_eq by (rule apply_with_sequential) simp

lemma applyOn_calm: "fst (applyOn s) \<noteq> Panicked"
  using apply_calm [OF applyOn_schedule] by (simp add: demo_sets demo_joinable)

section \<open>Witnesses of the provider's operations\<close>

definition emptyFold :: foldState where
  "emptyFold = \<lparr>fsSets = [], fsConflicted = [], fsRejected = [], fsErrs = [], fsMets = Map.empty\<rparr>"

theorem adjusted_accepted_witness:
  "\<exists>s. define_ep demoCfg False (adjusted (ep ''WWW.example.com.'' ''A'' ''10.0.0.1'')) emptyFold =
     emptyFold\<lparr>fsSets := AList.update keyA s (fsSets emptyFold)\<rparr>"
proof -
  let ?e = "ep ''WWW.example.com.'' ''A'' ''10.0.0.1''"
  have n: "RowKey (normaliseName (DNSName ?e)) (RecordType ?e) = keyA" by code_simp
  have "kept demoCfg ?e" "cleanName (normaliseName (DNSName ?e))" "Targets ?e \<noteq> []" by code_simp+
  moreover have "keyA \<notin> set (fsConflicted emptyFold)" "map_of (fsSets emptyFold) keyA = None"
    by (simp_all add: emptyFold_def)
  ultimately show ?thesis using adjusted_accepted [of demoCfg ?e emptyFold] unfolding n by blast
qed

definition newEp :: "string \<Rightarrow> string \<Rightarrow> int \<Rightarrow> string list \<Rightarrow> endpoint" where
  "newEp n rr ttl ts = \<lparr>DNSName = n, Targets = ts, RecordType = rr, SetIdentifier = [], RecordTTL = ttl\<rparr>"

definition recordsRun :: "endpoint list result \<times> (hostRow list \<times> call list) prov" where
  "recordsRun = Records (logged tableClient) demoCfg newEp 0 CtxBackground ((provOver (demoRows, []))\<lparr>pending := True\<rparr>)"

theorem records_after_reload_witness:
  "\<not> pending (snd recordsRun) \<and>
   (\<exists>sn. snd (world (snd recordsRun)) = [CallReload None, CallRead (Inr sn)] \<and> fst recordsRun = Inr (Endpoints newEp sn))"
proof -
  have "\<not> isl (fst recordsRun)"
    by (simp add: recordsRun_def Records_def reconfigure_def tableClient_def logged_def provOver_def readRecords_def recordOp_def Let_def)
  then obtain eps where e: "fst recordsRun = Inr eps" by (cases "fst recordsRun") auto
  then have "Records (logged tableClient) demoCfg newEp 0 CtxBackground ((provOver (demoRows, []))\<lparr>pending := True\<rparr>) =
      (Inr eps, snd recordsRun)"
    unfolding recordsRun_def [symmetric] by (metis prod.collapse)
  from records_after_reload [OF this] e show ?thesis by (auto simp: provOver_def)
qed

section \<open>Witnesses of the server\<close>

text \<open>One caller finds the cache empty, leads a flight, and a second one is served from the cache.\<close>

theorem probes_spaced_witness:
  "\<exists>s. probe_reach 30 5 s \<and> finished s = [(5, 7, None)] \<and> answers s = [(1, 7, None), (2, 9, None)] \<and>
     spaced 30 (finished s) \<and> list_all (justified 30 s) (answers s)"
proof -
  let ?a = "startRun 5"
  let ?b = "?a\<lparr>missed := [1]\<rparr>"
  let ?c = "?a\<lparr>flight := Some (Starting, [1])\<rparr>"
  let ?d = "?a\<lparr>flight := Some (Probing 5, [1])\<rparr>"
  let ?e = "?d\<lparr>now := 7\<rparr>"
  let ?f = "answerAll [1] None (?e\<lparr>cache := \<lparr>lastAt = Some (now ?e), lastErr = None\<rparr>,
      finished := finished ?e @ [(5, now ?e, None)], flight := None\<rparr>)"
  let ?g = "?f\<lparr>now := 9\<rparr>"
  have 1: "probe_step 30 ?a ?b" using miss [of 30 ?a 1] by (simp add: startRun_def newCachedProbe_def fresh_def)
  have 2: "probe_step 30 ?b ?c" using lead [of 1 ?b 30] by (simp add: startRun_def)
  have 3: "probe_step 30 ?c ?d" using launch [of ?c "[1]" 30] by (simp add: startRun_def newCachedProbe_def fresh_def)
  have 4: "probe_step 30 ?d ?e" using tick [of 2 30 ?d] by (simp add: startRun_def)
  have 5: "probe_step 30 ?e ?f" by (rule return) simp
  have 6: "probe_step 30 ?f ?g" using tick [of 2 30 ?f] by simp
  have 7: "probe_step 30 ?g (answerAll [2] (lastErr (cache ?g)) ?g)" by (rule hit) (simp add: fresh_def)
  have r: "probe_reach 30 5 (answerAll [2] (lastErr (cache ?g)) ?g)"
    using reach_start 1 2 3 4 5 6 7 by (meson reach_step)
  from probes_spaced [OF this] r show ?thesis
    by (intro exI [of _ "answerAll [2] (lastErr (cache ?g)) ?g"] conjI) (simp_all add: startRun_def)
qed

text \<open>A failing probe, asked for by one caller of an empty cache.\<close>

definition deadProbe :: "ctx \<Rightarrow> unit \<Rightarrow> error option \<times> unit" where
  "deadProbe ctx p = (Some DeadlineExceeded, p)"

theorem check_is_a_run_witness:
  "\<exists>s'. (probe_step 30)\<^sup>*\<^sup>* (startRun 5) s' \<and> cache s' = \<lparr>lastAt = Some 7, lastErr = Some DeadlineExceeded\<rparr> \<and>
     (\<exists>u. answers s' = [(3, u, Some DeadlineExceeded)])"
proof -
  let ?ts = "\<lparr>atEntry = 5, inFlight = 6, atReturn = 7\<rparr>"
  have "Check deadProbe 30 ?ts CtxBackground (cache (startRun 5), ()) =
      (Some DeadlineExceeded, \<lparr>lastAt = Some 7, lastErr = Some DeadlineExceeded\<rparr>, ())"
    by (simp add: Check_def startRun_def newCachedProbe_def fresh_def deadProbe_def)
  from check_is_a_run [OF this, of 3] show ?thesis by (simp add: startRun_def)
qed

definition demoCodec :: "unit codec" where
  "demoCodec = \<lparr>cdChanges = (\<lambda>j. Some demoPlan), cdEndpoints = (\<lambda>j. None), cdEncode = (\<lambda>es. None), cdErrorText = (\<lambda>e. [])\<rparr>"

definition demoOutside :: "unit outside" where
  "demoOutside = \<lparr>ouNewEndpoint = newEp, ouShuffle = id, ouSched = (\<lambda>i k. 0), ouNow = 0, ouFilter = (\<lambda>ds. None)\<rparr>"

definition demoSite :: "(unit, (fakeServer cworld \<times> call list) prov) site" where
  "demoSite = newSite demoClient demoCfg demoOutside demoCodec (301, ''Moved Permanently'')"

definition demoReadyz :: "(probeCache \<times> (fakeServer cworld \<times> call list) prov) handler" where
  "demoReadyz = readyzHandler (Ready demoClient) 30 \<lparr>atEntry = 5, inFlight = 6, atReturn = 7\<rparr>"

definition arriving :: "string \<Rightarrow> string \<Rightarrow> fakeServer \<Rightarrow> (probeCache \<times> (fakeServer cworld \<times> call list) prov) exchange" where
  "arriving method path s =
     \<lparr>request = \<lparr>hrMethod = method, hrPath = path, hrPattern = [], hrHeader = (\<lambda>h. mediaTypeVersion1),
        hrBody = \<lparr>bdNeed = 2, bdValue = Some (JObj []), bdProblem = []\<rparr>, hrLimit = None, hrCtx = CtxRequest 1\<rparr>,
      header = [], sent = None, written = [], recorders = [], hooked = (newCachedProbe, startOn s),
      hmets = Map.empty, accessLog = []\<rparr>"

theorem every_request_answered_witness:
  "\<exists>x'. buildMainHandler defaultServerConfig demoSite demoReadyz (arriving ''DELETE'' ''/records'' emptyServer) = (Done, x') \<and>
     answeredOnce (arriving ''DELETE'' ''/records'' emptyServer) x'"
  unfolding demoReadyz_def by (rule every_request_answered) (simp_all add: arriving_def)

text \<open>A posted plan that the firewall's table already satisfies is answered 204.\<close>

theorem plan_request_answered_witness:
  "\<exists>x'. buildMainHandler defaultServerConfig demoSite demoReadyz (arriving ''POST'' ''/records'' savedServer) = (Done, x') \<and>
     (case applyAnswer (siteHooks (stHooks demoSite)) (stCodec demoSite)
         ((request (arriving ''POST'' ''/records'' savedServer))\<lparr>hrLimit := Some (ServerMaxBodyBytes defaultServerConfig)\<rparr>)
         (hooked (arriving ''POST'' ''/records'' savedServer))
      of (code, p) \<Rightarrow> wireStatus x' = (case code of Some n \<Rightarrow> n | None \<Rightarrow> 500) \<and> hooked x' = p)"
  by (rule plan_request_answered) (simp_all add: arriving_def)

theorem plan_only_by_post_witness:
  "buildMainHandler defaultServerConfig (withApply (\<lambda>ctx ch p. (Panicked, p)) demoSite) demoReadyz
     (arriving ''GET'' ''/records'' savedServer) =
   buildMainHandler defaultServerConfig demoSite demoReadyz (arriving ''GET'' ''/records'' savedServer)"
  by (rule plan_only_by_post) (simp add: arriving_def)

section \<open>Witnesses of the start and of the read\<close>

definition parseHost :: "string \<Rightarrow> (string \<times> string \<times> string) option" where
  "parseHost h = Some (''https'', ''fw'', [])"

definition defaultStart :: "unit startup" where
  "defaultStart = startProgram (InitConfig (Inr defaultServerConfig))
     (InitProvider parseHost (\<lambda>f. Inl DeadlineExceeded) (\<lambda>pem. False)
        (Inr (defaultConfig ''https://fw'' ''k'' ''s'' [''example.com''])) Map.empty ())"

text \<open>The defaults start.\<close>

theorem startup_covers_budget_witness:
  "\<exists>p. defaultStart = Serving defaultServerConfig (defaultConfig ''https://fw'' ''k'' ''s'' [''example.com'']) p \<and>
     validServer defaultServerConfig \<and> \<not> pending p \<and> (120 + 45) * second \<le> ServerWriteTimeout defaultServerConfig"
proof -
  let ?c = "defaultConfig ''https://fw'' ''k'' ''s'' [''example.com'']"
  have "validateDomains 0 [] [''example.com''] = Inr [''example.com'']"
    "trim_right (\<lambda>x. x = CHR ''/'') ''https://fw'' = ''https://fw''" by code_simp+
  then have v: "Validate parseHost ?c = Inr ?c"
    by (simp add: Validate_def parseHost_def Let_def defaultConfig_def config_consts)
  have "ValidateServer defaultServerConfig = None" by code_simp
  then have s: "InitConfig (Inr defaultServerConfig) = Inr defaultServerConfig" by (simp add: InitConfig_def)
  have "ApplyBudget ?c \<le> ServerWriteTimeout defaultServerConfig" by code_simp
  then obtain p where p: "defaultStart = Serving defaultServerConfig ?c p"
    by (auto simp: defaultStart_def startProgram_def s InitProvider_def NewProvider_def v newHTTPTransport_def tlsFor_def Let_def)
       (simp add: defaultConfig_def)
  have "cApplyTimeout ?c + cReconfigureTimeout ?c < 2 ^ 63" by code_simp
  from startup_covers_budget [OF p [unfolded defaultStart_def] this] p show ?thesis
    by (auto simp: defaultConfig_def)
qed

theorem tls_verified_unless_asked_witness:
  "\<exists>t. newHTTPTransport (\<lambda>f. Inr ''PEM'') (\<lambda>pem. True) (demoCfg\<lparr>cCACertPath := ''/ca'', cSkipTLSVerify := True\<rparr>) = Inr t \<and>
     \<not> InsecureSkipVerify (TLSClientConfig t) \<and> RootCAs (TLSClientConfig t) = Some ''PEM''"
proof -
  let ?c = "demoCfg\<lparr>cCACertPath := ''/ca'', cSkipTLSVerify := True\<rparr>"
  obtain t where t: "newHTTPTransport (\<lambda>f. Inr ''PEM'') (\<lambda>pem. True) ?c = Inr t"
    by (simp add: newHTTPTransport_def tlsFor_def Let_def)
  from tls_verified_unless_asked [OF this] t show ?thesis by auto
qed

theorem quiet_table_read_whole_witness:
  "\<exists>s'. SnapshotCall (fakeNet (cHost demoCfg) (\<lambda>n. ''u'' @ nat_dec n)) demoCfg CtxBackground
       \<lparr>nw = savedServer, cmets = Map.empty\<rparr> =
     (Inr (buildSnapshot (fakeTable savedServer) (int (length (fakeTable savedServer)))), s') \<and>
     unhit (nw s') = unhit savedServer"
  using quiet_table_read_whole [OF fakeOk_saved validConfig_demo, of "\<lambda>n. ''u'' @ nat_dec n" CtxBackground] by simp

text \<open>The plan on an empty firewall.\<close>

lemma demoUUIDs: "goodUUIDs (\<lambda>n. ''u'' @ nat_dec n)"
proof -
  have "inj (\<lambda>n. ''u'' @ nat_dec n)" by (intro injI) (metis append_same_eq same_append_eq option.inject parse_uint_nat_dec)
  moreover have "\<not> is_digit (CHR ''/'')" by code_simp
  then have "CHR ''/'' \<notin> set (nat_dec n)" for n using nat_dec_digits [of n] by (auto simp: list_all_iff)
  ultimately show ?thesis by (simp add: goodUUIDs_def)
qed

definition demoWrites :: "hostFields list" where
  "demoWrites = [writeFields demoCfg setA ''10.0.0.1'', writeFields demoCfg setT ''heritage'']"

lemma demo_planned: "plannedWrites demoCfg [(keyA, setA), (keyT, setT)] = set demoWrites"
  by (simp add: plannedWrites_def demoWrites_def setA_def setT_def insert_commute)

lemma demo_fits: "list_all (\<lambda>f. list_all (\<lambda>n. rowFits [] (writtenRow (''u'' @ nat_dec n) (hostPairs f))) [0, 1]) demoWrites"
  by code_simp

lemma demo_holds:
  "fakeHolds (\<lambda>n. ''u'' @ nat_dec n) (set demoWrites) demoCfg 2 \<lparr>nw = emptyServer, cmets = Map.empty\<rparr>"
proof -
  have "{0 ..< 0 + 2} = {0, 1 :: nat}" by auto
  then have "fitting (\<lambda>n. ''u'' @ nat_dec n) (set demoWrites) 2 emptyServer"
    using demo_fits by (auto simp: fitting_def emptyServer_def list_all_iff)
  then show ?thesis using validConfig_demo demoUUIDs by (simp add: fakeHolds_def roomy_def emptyServer_def)
qed

lemma demo_writable: "list_all (\<lambda>(k, s). writable demoCfg k s) [(keyA, setA), (keyT, setT)]"
proof -
  have "joinable demoCfg keyA" "joinable demoCfg keyT" by code_simp+
  then show ?thesis by (simp add: writable_def setA_def setT_def)
qed

lemma demo_start:
  defines "p \<equiv> provOver \<lparr>nw = emptyServer, cmets = Map.empty\<rparr>"
  shows "pmets p = Map.empty" and "fakeHolds (\<lambda>n. ''u'' @ nat_dec n) (plannedWrites demoCfg [(keyA, setA), (keyT, setT)]) demoCfg
      (\<Sum>(k, s)\<leftarrow>[(keyA, setA), (keyT, setT)]. length (dsTargets s)) (world p)" and "tidy one (fakeSaved (world p)) k"
proof -
  have p: "world p = \<lparr>nw = emptyServer, cmets = Map.empty\<rparr>" by (simp add: p_def provOver_def)
  show "pmets p = Map.empty" by (simp add: p_def provOver_def)
  have "(\<Sum>(k, s)\<leftarrow>[(keyA, setA), (keyT, setT)]. length (dsTargets s)) = 2" by (simp add: setA_def setT_def)
  then show "fakeHolds (\<lambda>n. ''u'' @ nat_dec n) (plannedWrites demoCfg [(keyA, setA), (keyT, setT)]) demoCfg
      (\<Sum>(k, s)\<leftarrow>[(keyA, setA), (keyT, setT)]. length (dsTargets s)) (world p)"
    unfolding p demo_planned using demo_holds by (simp only:)
  have "filed (fakeSaved (world p)) k = {}" unfolding p by (simp add: filed_def fakeSaved_def emptyServer_def)
  then show "tidy one (fakeSaved (world p)) k" by (simp add: tidy_def)
qed


theorem apply_twice_witness:
  "\<exists>p' p''. apply_plan (liveClient demoNet demoCfg) demoCfg id CtxBackground demoPlan
       (provOver \<lparr>nw = emptyServer, cmets = Map.empty\<rparr>) = (Done, p') \<and>
     apply_plan (liveClient demoNet demoCfg) demoCfg rev CtxBackground demoPlan p' = (Done, p'') \<and>
     unhit (nw (world p'')) = unhit (nw (world p'))"
proof -
  let ?p = "provOver \<lparr>nw = emptyServer, cmets = Map.empty\<rparr>"
  have m: "pmets ?p = Map.empty" by (rule demo_start(1))
  show ?thesis
    unfolding demoNet_def
    by (rule apply_twice) (use demo_start(2,3) demo_writable in \<open>auto simp: m demo_sets demo_errs\<close>)
qed

section \<open>Several workers\<close>

definition demoRun :: "(hostRow list \<times> call list) applyRun" where
  "demoRun = beginRun (buildSnapshot [] 0) (foldChanges demoCfg demoPlan Map.empty) (provOver ([], []))"

text \<open>Two goroutines place the address and its ownership record at once.\<close>

theorem workers_keep_to_plan_witness:
  "\<exists>run' l es. poolRun (convergeKeyT (logged tableClient) demoCfg CtxBackground modeAddSet) 2 (demoRun, [setA, setT], []) (run', [], []) \<and>
     snd (world (arP run')) = l \<and> (\<forall>x \<in> set l. \<exists>s \<in> set [setA, setT]. teamCall demoCfg modeAddSet (arSnap demoRun) (arSnap demoRun) s l x) \<and>
     arErrs run' = arErrs demoRun @ es \<and> (es = [] \<longrightarrow> list_all acked l) \<and> ackedWrites l = mset (map stripKey (writes run'))"
proof -
  let ?body = "convergeKeyT (logged tableClient) demoCfg CtxBackground modeAddSet"
  obtain st where st: "poolRun ?body 2 (demoRun, [setA, setT], []) st" "resting st \<or> crashed st"
    using pool_ends [of 2 ?body, OF zero_less_numeral] by blast
  obtain run' xs ts where e: "st = (run', xs, ts)" by (cases st)
  have "fieldsKey (writeFields demoCfg s t) = dsKey s" if "s \<in> set [setA, setT]" for s t
  proof -
    have "joinName ''www'' ''example.com'' = ''www.example.com''" "joinName ''a-www'' ''example.com'' = ''a-www.example.com''"
      by code_simp+
    with that show ?thesis by (auto simp: setA_def setT_def keyA_def keyT_def fieldsKey_def writeFields_def Let_def)
  qed
  moreover have "coherent demoCfg (arSets demoRun)"
    using coherent_foldChanges [of demoCfg demoPlan Map.empty] by (simp add: demoRun_def beginRun_def demo_sets demo_joinable)
  ultimately have "\<not> crashed (run', xs, ts)"
    using coherent.pool_keeps [OF st(1) [unfolded e], of demoCfg False] by blast
  with st(2) e have r: "xs = []" "ts = []" by (simp_all add: resting_def)
  have d: "writes demoRun = []" "snd (world (arP demoRun)) = []" "snapOk (arSnap demoRun)"
    by (simp_all add: demoRun_def beginRun_def provOver_def snapOk_buildSnapshot)
  from workers_keep_to_plan [OF st(1) [unfolded e] d(3,1)] st(1) e r d(2) show ?thesis by auto
qed

end
