(* ===== verification/Crowd_Examples.thy ===== *)
theory Crowd_Examples
  imports Crowd Examples
begin

text \<open>
  A crowd on the bare table: the provider starts with a write that is not served yet, two reads and an apply
  of the example plan arrive, and the first read is answered.  It is where the properties of the crowd are applied.
\<close>

definition crowdClient :: "(hostRow list \<times> call list) client" where
  "crowdClient = logged tableClient"

definition crowdStart :: "hostRow list logShared" where
  "crowdStart = \<lparr>shProv = setPending True (provOver ([], [CallDel ''u0'' (Inr True)])), applyMu = False, reconfigureMu = False\<rparr>"

definition crowdApply :: "(hostRow list \<times> call list, reply) request" where
  "crowdApply = bindP (changesP 4 crowdClient demoCfg id 0 CtxBackground demoPlan) (\<lambda>out. Halt (Applied out))"

definition crowdRead :: "(hostRow list \<times> call list, reply) request" where
  "crowdRead = bindP (recordsP crowdClient demoCfg newEp 0 CtxBackground) (\<lambda>r. Halt (Listed r))"

lemma crowd_settled: "settled crowdStart"
  by (simp add: settled_def crowdStart_def honest_def gaugeOk_def provOver_def setPending_def meter_def setGauge_def)

lemma crowd_arrivals: "crowdRun (arrival 4 crowdClient demoCfg) (crowdStart, []) (crowdStart, [crowdRead, crowdApply, crowdRead])"
proof -
  have "arrival 4 crowdClient demoCfg crowdApply" "arrival 4 crowdClient demoCfg crowdRead"
    unfolding crowdApply_def crowdRead_def by (rule arrival.change, rule arrival.read)
  then have "\<forall>q \<in> set [crowdRead, crowdApply, crowdRead]. arrival 4 crowdClient demoCfg q" by simp
  from crowd_arrive [OF this, of crowdStart "[]"] show ?thesis by simp
qed

text \<open>The first read repairs and answers while the apply holds the provider's lock.\<close>

definition readBeside :: "(nat \<times> choice) list" where
  "readBeside = (1, Fork) # replicate 15 (0, Fork)"

fun listed :: "(hostRow list \<times> call list, reply) request \<Rightarrow> nat option" where
  "listed (Halt (Listed (Inr eps))) = Some (length eps)"
| "listed _ = None"

lemma crowd_read:
  "map_option (\<lambda>(s, ps). (map listed ps, pending (shProv s), dirty (snd (world (shProv s))), applyMu s))
     (crowdExec readBeside (crowdStart, [crowdRead, crowdApply, crowdRead])) =
   Some ([Some 0, None, None], False, False, True)"
  by code_simp

lemma listed_Some: "listed p = Some n \<Longrightarrow> \<exists>eps. p = Halt (Listed (Inr eps))"
  by (cases p rule: listed.cases) auto

text \<open>The same read with nobody beside it.\<close>

lemma crowd_read_alone:
  "map_option (\<lambda>(s, ps). (map listed ps, pending (shProv s), applyMu s)) (crowdExec (replicate 15 (0, Fork)) (crowdStart, [crowdRead])) =
   Some ([Some 0], False, False)"
  by code_simp

theorem crowd_keeps_the_truth_witness:
  "\<exists>s' eps. crowdRun (arrival 4 crowdClient demoCfg) (crowdStart, []) (s', [Halt (Listed (Inr eps))]) \<and> \<not> dirty (snd (world (shProv s'))) \<and>
     pmets (shProv s') PendingReconfigure = Some 0"
proof -
  from crowd_read_alone obtain s' ps where e: "crowdExec (replicate 15 (0, Fork)) (crowdStart, [crowdRead]) = Some (s', ps)"
    "map listed ps = [Some 0]" "\<not> pending (shProv s')" "\<not> applyMu s'" by auto
  from e(2) listed_Some obtain eps where ps: "ps = [Halt (Listed (Inr eps))]" by fastforce
  have "arrival 4 crowdClient demoCfg crowdRead" unfolding crowdRead_def by (rule arrival.read)
  then have "\<forall>q \<in> set [crowdRead]. arrival 4 crowdClient demoCfg q" by simp
  from crowd_arrive [OF this, of crowdStart "[]"]
  have "crowdRun (arrival 4 crowdClient demoCfg) (crowdStart, []) (crowdStart, [crowdRead])" by simp
  from rtranclp_trans [OF this crowdExec_run [OF e(1)]]
  have r: "crowdRun (arrival 4 crowdClient demoCfg) (crowdStart, []) (s', ps)" .
  from crowd_keeps_the_truth [OF r [unfolded crowdClient_def] _ crowd_settled] r e(3,4) ps show ?thesis
    by (intro exI [of _ s'] exI [of _ eps]) simp
qed

theorem crowd_answers_witness:
  "\<exists>s' ps. crowdRun (arrival 4 crowdClient demoCfg) (crowdStart, []) (s', ps) \<and> applyMu s' \<and> length ps = 3 \<and>
     (list_all (\<lambda>p. \<exists>r. p = Halt r) ps \<or> (\<exists>st. crowdStep nobody (s', ps) st))"
proof -
  from crowd_read obtain s' ps where e: "crowdExec readBeside (crowdStart, [crowdRead, crowdApply, crowdRead]) = Some (s', ps)"
    "map listed ps = [Some 0, None, None]" "applyMu s'" by auto
  have r: "crowdRun (arrival 4 crowdClient demoCfg) (crowdStart, []) (s', ps)"
    by (rule rtranclp_trans [OF crowd_arrivals crowdExec_run [OF e(1)]])
  have "length ps = 3" using arg_cong [OF e(2), of length] by simp
  with crowd_answers [OF r [unfolded crowdClient_def] _ crowd_settled] r e(3) show ?thesis by auto
qed

theorem alone_is_sequential_witness:
  "alone (startupP crowdClient demoCfg CtxBackground) crowdStart ()
     (crowdStart\<lparr>shProv := Startup crowdClient demoCfg CtxBackground (shProv crowdStart)\<rparr>)"
  by (rule alone_is_sequential [THEN conjunct2, THEN conjunct2, THEN conjunct1, THEN iffD2]) (simp_all add: crowdStart_def)

end
