(* ===== verification/Error_Text.thy ===== *)
theory Error_Text
  imports Json "HOL-Library.Multiset"
begin

text \<open>
  The \<^verbatim>\<open>Error\<close> methods of \<^verbatim>\<open>errors.go\<close> and of the \<^verbatim>\<open>inconsistentError\<close> of \<^verbatim>\<open>snapshot.go\<close>.  \<open>q\<close> is the quoting of
  \<^verbatim>\<open>%q\<close>, \<open>wr\<close> the format of the wrapping \<^verbatim>\<open>fmt.Errorf\<close> call.
\<close>

fun reasonText :: "readReason \<Rightarrow> string" where
  "reasonText (TotalChanged a b page) =
     ''total changed from '' @ format_int a @ '' to '' @ format_int b @ '' on page '' @ nat_dec page"
| "reasonText (TooManyPages maxp tot) =
     ''more than '' @ format_int maxp @ '' pages for total '' @ format_int tot"
| "reasonText (EmptyPage page seen tot) =
     ''empty page '' @ nat_dec page @ '' with '' @ nat_dec seen @ '' of '' @ format_int tot @ '' rows collected''"
| "reasonText (ExceedsTotal seen tot) =
     nat_dec seen @ '' unique rows exceed total '' @ format_int tot"
| "reasonText (ShortRead n tot) = ''collected '' @ nat_dec n @ '' rows, total '' @ format_int tot"

text \<open>The validations are a map: its keys are sorted before they are printed.\<close>

definition validationText :: "(string \<times> string list) list \<Rightarrow> string" where
  "validationText vs =
     join_with '', ''
       (map (\<lambda>field. field @ '': '' @ join_with ''; '' (case map_of vs field of Some ms \<Rightarrow> ms | None \<Rightarrow> []))
          (sort (map fst vs)))"

definition writeErrorText :: "(string \<Rightarrow> string) \<Rightarrow> string \<Rightarrow> string \<Rightarrow> (string \<times> string list) list \<Rightarrow> string" where
  "writeErrorText q op res vs =
     ''opnsense: '' @ op @ '' returned result '' @ q res @
     (if vs = [] then [] else '' ('' @ validationText vs @ '')'')"

fun errorText :: "(string \<Rightarrow> string) \<Rightarrow> (string \<Rightarrow> string \<Rightarrow> string) \<Rightarrow> error \<Rightarrow> string" where
  "errorText q wr ErrAliasChildren = ''opnsense: row has alias children; refusing to delete''"
| "errorText q wr ErrInconsistentRead = ''opnsense: host override table changed during read''"
| "errorText q wr ErrTXTInvalid = ''opnsense: invalid TXT value''"
| "errorText q wr ErrNameOutsideDomains = ''opnsense: name is outside the configured domains''"
| "errorText q wr ErrApexName = ''opnsense: apex names cannot be host overrides''"
| "errorText q wr ErrWildcard = ''opnsense: wildcard overrides are not written in v1''"
| "errorText q wr ErrUnsupportedType = ''opnsense: unsupported record type''"
| "errorText q wr ErrLostWrite = ''opnsense: write acknowledged but not saved''"
| "errorText q wr ContextCanceled = ''context canceled''"
| "errorText q wr DeadlineExceeded = ''context deadline exceeded''"
| "errorText q wr (NetworkError op e) = ''opnsense: network error during '' @ op @ '': '' @ errorText q wr e"
| "errorText q wr (APIError op status msg) =
     ''opnsense: API error during '' @ op @ '' (status '' @ format_int status @ ''): '' @ msg"
| "errorText q wr (DataError op e) = ''opnsense: data error during '' @ op @ '': '' @ errorText q wr e"
| "errorText q wr (WriteError op res vs) = writeErrorText q op res vs"
| "errorText q wr (InconsistentError r) = ''opnsense: inconsistent read: '' @ reasonText r"
| "errorText q wr (Plain s) = s"
| "errorText q wr (Wrap m e) = wr m (errorText q wr e)"
| "errorText q wr (Joined es) = join_with [char_of (10::nat)] (map (errorText q wr) es)"

text \<open>Go walks a map in any order: the text of a rejected write does not depend on it.\<close>

lemma validationText_order:
  assumes "mset vs = mset vs'" and "distinct (map fst vs)"
  shows "validationText vs = validationText vs'"
proof -
  have d: "distinct (map fst vs')" using assms by (metis mset_eq_imp_distinct_iff mset_map)
  have "map_of vs = map_of vs'"
    using map_of_inject_set [OF assms(2) d] assms(1) by (auto dest: mset_eq_setD)
  moreover have "sort (map fst vs) = sort (map fst vs')"
    using assms(1) by (intro properties_for_sort) (simp_all add: mset_map)
  ultimately show ?thesis by (simp add: validationText_def)
qed

lemma errorText_order:
  assumes "mset vs = mset vs'" and "distinct (map fst vs)"
  shows "errorText q wr (WriteError op res vs) = errorText q wr (WriteError op res vs')"
  using validationText_order [OF assms] assms(1) by (auto simp: writeErrorText_def)

end
