(* ===== verification/Spec2Isabelle.thy ===== *)
theory Spec2Isabelle
  imports Crowd_Examples Error_Text
begin

text \<open>
  A verification library for external-dns-opnsense-webhook, the program that lets external-dns manage the
  host overrides of an OPNsense firewall's Unbound resolver.

  \<^bold>\<open>The program.\<close>  \<^verbatim>\<open>cmd/external-dns-opnsense-webhook/main.go\<close> reads two configurations from the
  environment, builds a provider and serves two HTTP listeners.  A request to the webhook listener passes
  the recovery and access log, the metrics middleware, the body limit and the router of
  \<^verbatim>\<open>internal/server\<close> and reaches a handler of \<^verbatim>\<open>internal/webhook\<close>, which calls the provider of
  \<^verbatim>\<open>internal/opnsense\<close>.  The provider reads the firewall's whole table page by page (\<^verbatim>\<open>snapshot.go\<close>),
  groups rows into record sets for a read, folds a plan into desired sets for an apply (\<^verbatim>\<open>apply.go\<close>), writes
  the difference in four phases, verifies what it wrote and reloads the resolver once.  Each API call
  goes through the retry loop of \<^verbatim>\<open>client.go\<close> under the policy of \<^verbatim>\<open>transport.go\<close>.

  \<^bold>\<open>Theories, in the order of the code.\<close>  \<open>Prelude\<close>: the parts of Go's \<^verbatim>\<open>strings\<close> and \<^verbatim>\<open>strconv\<close> the source
  uses, 64-bit wrap-around (\<open>i64\<close>), and actions that end in success, an error or a panic.  \<open>Errors\<close>
  (\<^verbatim>\<open>errors.go\<close>), \<open>Names\<close> (\<^verbatim>\<open>names.go\<close>), \<open>Txt\<close>, \<open>Json\<close>, \<open>Dto\<close> (\<^verbatim>\<open>dto.go\<close>), \<open>Metrics\<close> (\<^verbatim>\<open>metrics.go\<close>), \<open>Config\<close>
  (\<^verbatim>\<open>types.go\<close>), \<open>Transport\<close> (\<^verbatim>\<open>transport.go\<close>), \<open>Client\<close> (\<^verbatim>\<open>client.go\<close>), \<open>Snapshot\<close>, \<open>Index\<close>, \<open>Endpoints\<close>
  (\<^verbatim>\<open>snapshot.go\<close>), \<open>Plan\<close>, \<open>Apply\<close>, \<open>Workers\<close> (\<^verbatim>\<open>apply.go\<close>), \<open>Provider_State\<close>, \<open>Provider\<close> (\<^verbatim>\<open>provider.go\<close>),
  \<open>Server_Config\<close> (\<^verbatim>\<open>internal/config\<close>), \<open>Http\<close> (\<^verbatim>\<open>internal/httpx\<close>), \<open>Webhook\<close>, \<open>Middleware\<close>, \<open>Readiness\<close>,
  \<open>Server\<close>, \<open>Program\<close> (\<^verbatim>\<open>main.go\<close>, \<^verbatim>\<open>internal/dnsprovider\<close>), and \<open>Fake\<close>, the in-memory firewall of
  \<^verbatim>\<open>test/fake\<close>.  \<open>Schedules\<close> has the apply with any number of workers as a function of the order of their steps, and
  \<open>Requests\<close> the operations of \<^verbatim>\<open>provider.go\<close> as processes that overlap.  The remaining theories hold proofs: \<open>Tasks\<close> about
  goroutines and \<open>Procs\<close> about requests that share a state,
  \<open>Keeping\<close>, \<open>Apply_Log\<close>, \<open>Team\<close>, \<open>Phases\<close>, \<open>Apply_Spec\<close>, \<open>No_Panic\<close>, \<open>Fixpoint\<close> and \<open>Contract\<close> about the apply, \<open>Convergence\<close> about what an apply achieves on a firewall that does as
  it is told, \<open>Lifecycle\<close> about the provider over its whole life and \<open>Crowd\<close> about its overlapping requests, \<open>Site\<close> about the
  server as a whole, \<open>Fake_Reads\<close> and \<open>Fake_Writes\<close> about the client on the in-memory firewall, and \<open>Examples\<close> and
  \<open>Crowd_Examples\<close> the concrete
  inputs at which properties with hypotheses are applied.  \<open>Error_Text\<close> holds the texts of the errors.

  \<^bold>\<open>State.\<close>  Every operation passes its state explicitly: \<open>cworld\<close> for a client call (the network's state and
  the client's counters), \<open>prov\<close> for the provider (the client's state, the pending flag, its metrics),
  \<open>applyRun\<close> for one apply, \<open>shared\<close> for the provider with its two mutexes, \<open>exchange\<close> for one request, \<open>probeRun\<close> for the readiness cache.  The pointers
  by which the Go code shares rows between the snapshot and its index are positions in the heap of the
  record \<open>snapshot\<close>.  A panic is the outcome \<open>Panicked\<close>; an error is a value of the type \<open>error\<close>.
  The global metrics are one family of counters, kept in three parts (client, provider, server) that no
  operation mixes.

  \<^bold>\<open>Interfaces.\<close>  What the code does not own is an argument: the network with its clock, context and random
  source (\<open>net\<close>), URL parsing, file reading, the shuffle of Go's map iteration, external-dns's JSON
  codecs and endpoint constructor (\<open>codec\<close>, \<open>outside\<close>).  The client the provider calls is the record
  \<open>client\<close>, which \<open>liveClient\<close> fills with the API calls.  The locales state what one part needs of
  another: a paging server (\<open>pager\<close>) and a firewall whose writes do what they answer (\<open>obedient\<close>), both interpreted
  by the real client over the in-memory firewall, a client whose snapshots
  are well-formed (\<open>snapshot_client\<close>, by the real client under a call log), an index, invariants every atomic
  step of an apply keeps (by the gauge and by the names of the plan), a provider behind the webhook, a site
  that keeps an invariant (by the program of \<open>newSite\<close>).

  \<^bold>\<open>What is shown.\<close>  C1 to C9: what an apply writes, in which order and when; that success means done; that an
  accepted plan takes effect on the in-memory firewall and applying it again writes nothing; that no apply
  panics on sane names.  These hold for any number of apply workers and any
  schedule, except that the two on the in-memory firewall are about one worker.  C10 and C11: the goroutines of
  a phase keep to the plan under every schedule and are the sequential loop when there is one worker.  C12, C16 and C40
  are about requests that overlap: none waits forever, the reload bookkeeping stays truthful, and a request with the
  provider to itself is the sequential operation.  C13 to C15: the server answers and logs every
  request once, its answers are the provider's verdicts, and only one request can change the firewall.  C17 and C18: the
  readiness cache is sound under any interleaving.  C19 to C26:
  reading the table, indexing it, grouping it, folding plans and adjusting endpoints against their
  specifications.  C27 to C32: names, TXT values, TTLs and JSON options.  C33 to C39: bounds of the retry loop,
  TLS, configuration and start-up.

  \<^bold>\<open>Loops.\<close>  The retry loop recurses on the attempts left, which the call fixes from the configuration;
  the paginated read terminates because the page number is bounded by a limit that the first
  page fixes (\<open>readPages\<close>); the read restarts recurse on the attempts left.  No definition uses fuel.

  \<^bold>\<open>Reading of concurrency.\<close>  There are three levels.  The goroutines of a phase are tasks on the shared state of the
  run, whose atomic steps are the accessors that hold its mutex and the calls of the client; \<open>Workers\<close> runs at most
  a limit of them at a time in any order, \<open>apply_with\<close> is the apply over such phases and \<open>ApplyChanges\<close> the same as a function of the
  order.  With one worker (the default) it is the function \<open>apply_plan\<close>, by C11, on which the executable examples and C4, C5
  rest.  The requests to the provider are processes in \<open>Requests\<close>: the atomic loads and stores of the pending flag, the two
  mutexes, the updates of single metrics, each call of the client with its retries or pages, and each step of an apply's
  goroutines are steps that interleave with those of every other request; only the pending flag and its gauge that a
  goroutine's write raises, the verification read with its report, the fold of a plan and the counting in AdjustEndpoints
  are one step each.  The operations of \<open>Provider\<close> are those
  processes with nobody beside them, by C40, and the theorems about one apply and the server's handlers are about
  these.  The readiness probe is modelled with interleaved callers.  A panic in a goroutine of an apply ends the
  process: the outcome \<open>Panicked\<close> of an apply stands for that, and what the models let happen after it is of no account.

  \<^bold>\<open>Not modelled.\<close>  That a plan takes effect on the in-memory firewall under several workers; the text of log lines (the access log line is
  a value); sockets, signals, goroutine start and shutdown inside \<^verbatim>\<open>net/http\<close> (the error group of a
  phase is taken at its documentation: at most the limit run at once, and waiting returns when all ended); the
  expiry of contexts, which the network decides; the Prometheus registry and pprof; the JSON text
  parser (values arrive parsed, with their length; the in-memory firewall writes its text, which the client is taken to
  parse back); the nil that external-dns's endpoint constructor returns for a label of more than 63 bytes.  Error texts are kept where the program compares or
  transmits them; a wrapper's text is its prefix, and some messages drop the numbers they print.
\<close>

section \<open>Applying a plan to the firewall\<close>



text \<open>C2: Every write of an apply is in the plan's scope: a create or an update carries a desired target of a
plan key with that key's name, type, TTL and owner marker, and an update or a delete names a row that the
apply's read showed, or that it created, under a plan key; a row with enabled aliases is never
deleted.\<close>

theorem writes_in_scope:
  assumes "apply_with lim (logged (liveClient n cfg)) cfg shuffle ctx ch p out p'" and "snd (world p) = []"
  shows "list_all (plannedIn cfg (foldChanges cfg ch (pmets p)) (snd (world p'))) (filter isWrite (snd (world p')))"
  using assms by (rule live.apply_in_scope)

theorem writes_in_scope_witness:
  "list_all (plannedIn demoCfg (foldChanges demoCfg demoPlan Map.empty) (snd (world (snd (applyOn emptyServer)))))
     (filter isWrite (snd (world (snd (applyOn emptyServer)))))"
  using writes_in_scope [OF applyOn_schedule startOn_simps(1), of emptyServer] by simp

text \<open>C3: An apply that reports success did all of it: the plan had no error, the firewall acknowledged every
write, and no reload is outstanding.\<close>

theorem success_is_complete:
  assumes "apply_with lim (logged (liveClient n cfg)) cfg shuffle ctx ch p Done p'" and "snd (world p) = []"
  shows "fsErrs (foldChanges cfg ch (pmets p)) = [] \<and> list_all acked (filter isWrite (snd (world p'))) \<and> \<not> pending p'"
  using assms by (rule live.apply_done)

theorem success_is_complete_witness:
  "fsErrs (foldChanges demoCfg demoPlan Map.empty) = [] \<and>
   list_all acked (filter isWrite (snd (world (snd (applyOn savedServer))))) \<and> \<not> pending (snd (applyOn savedServer))"
  using success_is_complete [OF applyOn_schedule [of savedServer, unfolded saved_done] startOn_simps(1)] by simp

text \<open>C6: An apply that does not panic, whose first read of the table succeeded and that wrote anything or found a reload
outstanding, reloads the resolver exactly once, as its last call, and the pending flag afterwards says whether that
reload failed.  Any other apply that does not panic -- its first read failed, or there was nothing to reload -- does
not reload.\<close>

theorem reload_once_and_last:
  assumes "apply_with lim (logged (liveClient n cfg)) cfg shuffle ctx ch p out p'" and "snd (world p) = []"
    and "out \<noteq> Panicked"
  shows "if firstRead (snd (world p')) \<noteq> None \<and> (pending p \<or> list_ex isWrite (snd (world p')))
    then \<exists>before e. snd (world p') = before @ [CallReload e] \<and> list_all (\<lambda>x. \<not> isReload x) before \<and> (pending p' \<longleftrightarrow> e \<noteq> None)
    else list_all (\<lambda>x. \<not> isReload x) (snd (world p'))"
  using assms by (rule live.apply_reloads)

theorem reload_once_and_last_witness:
  "if firstRead (snd (world (snd (applyOn emptyServer)))) \<noteq> None \<and> list_ex isWrite (snd (world (snd (applyOn emptyServer))))
   then \<exists>before e. snd (world (snd (applyOn emptyServer))) = before @ [CallReload e] \<and>
     list_all (\<lambda>x. \<not> isReload x) before \<and> (pending (snd (applyOn emptyServer)) \<longleftrightarrow> e \<noteq> None)
   else list_all (\<lambda>x. \<not> isReload x) (snd (world (snd (applyOn emptyServer))))"
  using reload_once_and_last [OF applyOn_schedule startOn_simps(1) applyOn_calm, of emptyServer] by simp

text \<open>C8: A plan the table already satisfies is a fixpoint: when the read succeeds, no reload is outstanding and the plan
folds without an error, the apply reads once, writes nothing, does not reload and succeeds.\<close>

theorem satisfied_plan_is_idle:
  assumes "apply_with lim c cfg shuffle ctx ch p out p'"
    and "cSnapshot c ctx (world p) = (Inr sn, w)" and "\<not> pending p"
    and "\<forall>(k, s) \<in> set (fsSets (foldChanges cfg ch (pmets p))). satisfied cfg s (snapView sn k)"
    and "fsErrs (foldChanges cfg ch (pmets p)) = []"
  shows "out = Done \<and> p' = p\<lparr>world := w, pmets := fsMets (foldChanges cfg ch (pmets p))\<rparr>"
  using assms by (rule apply_idle)

theorem satisfied_plan_is_idle_witness:
  "\<exists>out p'. apply_with 4 tableClient demoCfg id CtxBackground demoPlan (provOver demoRows) out p' \<and>
     out = Done \<and> p' = (provOver demoRows)\<lparr>pmets := fsMets (foldChanges demoCfg demoPlan Map.empty)\<rparr>"
proof -
  have sn: "cSnapshot tableClient CtxBackground (world (provOver demoRows)) =
      (Inr (buildSnapshot demoRows (int (length demoRows))), demoRows)"
    by (simp add: tableClient_def provOver_def)
  obtain out p' where ap: "apply_with 4 tableClient demoCfg id CtxBackground demoPlan (provOver demoRows) out p'"
    using apply_with_sequential [OF prod.collapse [symmetric]] by (metis zero_less_numeral)
  from satisfied_plan_is_idle [OF ap sn] ap demo_satisfied show ?thesis
    by (auto simp: provOver_def demo_sets demo_errs snapView_buildSnapshot)
qed

text \<open>C9: The panic that guards the index never fires as long as the name of every plan key splits into parts
that join back to it - whatever the client answers.\<close>

theorem apply_never_panics:
  assumes "apply_with lim c cfg shuffle ctx ch p out p'"
    and "\<forall>k \<in> fst ` set (fsSets (foldChanges cfg ch (pmets p))). joinable cfg k"
  shows "out \<noteq> Panicked"
  using assms by (rule apply_calm)

theorem apply_never_panics_witness: "fst (applyOn emptyServer) \<noteq> Panicked"
  using apply_never_panics [OF applyOn_schedule [of emptyServer]] by (simp add: demo_sets demo_joinable)

section \<open>Saved and served\<close>

text \<open>C7: Through any sequence of reads, applies, startup checks and probes against any network, whenever a write
was attempted since the last successful reload the pending flag is set - so the next read repairs it - and
the exported gauge shows the flag.\<close>

theorem pending_tells_the_truth:
  assumes "prov_run (logged (liveClient n cfg)) cfg p p'"
    and "dirty (snd (world p)) \<longrightarrow> pending p" and "pmets p PendingReconfigure = Some (if pending p then 1 else 0)"
  shows "(dirty (snd (world p')) \<longrightarrow> pending p') \<and> pmets p' PendingReconfigure = Some (if pending p' then 1 else 0)"
proof -
  have "soundProv p" using assms(2,3) by (simp add: soundProv_def honest_def gaugeOk_def)
  with assms(1) have "soundProv p'"
    by (rule prov_run_invariant [where I = soundProv]) (rule soundProv_step)
  then show ?thesis by (simp add: soundProv_def honest_def gaugeOk_def)
qed

theorem pending_tells_the_truth_witness:
  "\<exists>p'. prov_run (logged (liveClient demoNet demoCfg)) demoCfg (setPending False (startOn emptyServer)) p' \<and>
     (dirty (snd (world p')) \<longrightarrow> pending p') \<and> pmets p' PendingReconfigure = Some (if pending p' then 1 else 0)"
proof -
  let ?p = "setPending False (startOn emptyServer)"
  obtain res p' where "ApplyChanges (logged (liveClient demoNet demoCfg)) demoCfg (\<lambda>i k. 0) id 0 CtxBackground demoPlan ?p = (res, p')"
    by fastforce
  then have r: "prov_run (logged (liveClient demoNet demoCfg)) demoCfg ?p p'"
    by (intro prov_run.more [OF prov_run.start] prov_step.changes [OF ApplyChanges_with])
  have "dirty (snd (world ?p)) \<longrightarrow> pending ?p"
    by (simp add: setPending_def meter_def startOn_def provOver_def)
  moreover have "pmets ?p PendingReconfigure = Some (if pending ?p then 1 else 0)"
    by (simp add: setPending_def meter_def setGauge_def)
  ultimately show ?thesis using pending_tells_the_truth [OF r] r by blast
qed

text \<open>So does the webhook server, one request after the other: whatever request comes in, with whatever headers and body,
and whatever the number of apply workers and their schedule, it leaves the pending flag covering every unserved
write and the gauge showing it.  Requests that overlap are the matter of \<open>crowd_keeps_the_truth\<close>.\<close>

theorem server_keeps_the_truth:
  fixes ou :: "unit outside"
  assumes "buildMainHandler scfg (newSite (logged (liveClient n cfg)) cfg ou cd how)
      (readyzHandler (Ready (logged (liveClient n cfg))) ttl ts) x = (out, x')"
    and "soundProv (snd (hooked x))"
  shows "soundProv (snd (hooked x'))"
proof -
  have "stProbe (newSite (logged (liveClient n cfg)) cfg ou cd how) = Ready (logged (liveClient n cfg))"
    by (simp add: newSite_def)
  with assms(1) have "buildMainHandler scfg (newSite (logged (liveClient n cfg)) cfg ou cd how)
      (readyzHandler (stProbe (newSite (logged (liveClient n cfg)) cfg ou cd how)) ttl ts) x = (out, x')" by simp
  then show ?thesis using assms(2) by (rule live_site.main_keeps)
qed

theorem server_keeps_the_truth_witness:
  "soundProv (snd (hooked (snd (buildMainHandler defaultServerConfig demoSite demoReadyz
     ((arriving ''POST'' ''/records'' emptyServer)\<lparr>hooked := (newCachedProbe, setPending False (startOn emptyServer))\<rparr>)))))"
proof -
  let ?x = "(arriving ''POST'' ''/records'' emptyServer)\<lparr>hooked := (newCachedProbe, setPending False (startOn emptyServer))\<rparr>"
  have "soundProv (snd (hooked ?x))"
    by (simp add: soundProv_def honest_def gaugeOk_def setPending_def meter_def setGauge_def)
  then show ?thesis
    unfolding demoSite_def demoReadyz_def demoClient_def
    by (rule server_keeps_the_truth [OF prod.collapse [symmetric]])
qed

end
